(* ===== verification/Prelude.thy ===== *)
theory Prelude
  imports "HOL-Library.Word"
begin

unbundle bit_operations_syntax

text \<open>
  Shared vocabulary of the development: byte strings, big-endian integers, Go slices and
  \<open>copy\<close>, decimal printing, and the collections of rewrite rules the component proofs use.
  \<^item> \<open>wire\<close> collects the facts about byte layout (lengths, slices, big-endian round trips);
  \<^item> \<open>path\<close> collects the definitions that are unfolded to follow every branch of an operation.
\<close>

named_theorems wire "byte layout: lengths, slices and big-endian integers"
named_theorems path "operation bodies, unfolded to follow every branch"

type_synonym byte = "8 word"
type_synonym bytes = "byte list"

section \<open>Big-endian integers\<close>

text \<open>
  \<open>encoding/binary\<close>'s \<open>BigEndian.PutUint16/32\<close> and \<open>Uint16/32\<close>, at any width. The natural
  number level carries the arithmetic, the word level is what the packets hold.
\<close>

fun nat_be :: "nat \<Rightarrow> nat \<Rightarrow> bytes" where
  "nat_be 0 k = []"
| "nat_be (Suc n) k = nat_be n (k div 256) @ [word_of_nat k]"

lemma nat_be_numeral [simp]:
  "nat_be (numeral m) k = nat_be (pred_numeral m) (k div 256) @ [word_of_nat k]"
  by (simp only: numeral_eq_Suc [of m] nat_be.simps)

lemma nat_be_1 [simp]: "nat_be (Suc 0) k = [word_of_nat k]"
  by simp

definition be_nat :: "bytes \<Rightarrow> nat" where
  "be_nat bs = foldl (\<lambda>a b. a * 256 + unat b) 0 bs"

lemma be_nat_Nil [simp]: "be_nat [] = 0"
  by (simp add: be_nat_def)

lemma be_nat_snoc [simp]: "be_nat (bs @ [b]) = be_nat bs * 256 + unat b"
  by (simp add: be_nat_def)

lemma length_nat_be [simp, wire]: "length (nat_be n k) = n"
  by (induction n arbitrary: k) auto

lemma unat_byte_of_nat: "unat (word_of_nat k :: byte) = k mod 256"
  by (simp add: unsigned_of_nat take_bit_eq_mod)

lemma be_nat_nat_be: "be_nat (nat_be n k) = k mod 256 ^ n"
proof (induction n arbitrary: k)
  case 0
  then show ?case by simp
next
  case (Suc n)
  then show ?case
    by (simp add: unat_byte_of_nat mod_mult2_eq)
qed

lemma be_nat_less: "be_nat bs < 256 ^ length bs"
proof (induction bs rule: rev_induct)
  case Nil
  then show ?case by simp
next
  case (snoc b bs)
  have "unat b < 256" using unsigned_less [of b, where ?'a = nat] by simp
  with snoc show ?case by simp
qed

lemma nat_be_be_nat: "nat_be (length bs) (be_nat bs) = bs"
proof (induction bs rule: rev_induct)
  case Nil
  then show ?case by simp
next
  case (snoc b bs)
  have b: "unat b < 256" using unsigned_less [of b, where ?'a = nat] by simp
  then have "unat (word_of_nat (be_nat bs * 256 + unat b) :: byte) = unat b"
    by (simp only: unat_byte_of_nat) simp
  then have "(word_of_nat (be_nat bs * 256 + unat b) :: byte) = b"
    by (simp only: word_unat_eq_iff)
  with b snoc show ?case by (simp del: of_nat_add of_nat_mult)
qed

definition put_be :: "nat \<Rightarrow> 'a::len word \<Rightarrow> bytes" where
  "put_be n w = nat_be n (unat w)"

definition get_be :: "bytes \<Rightarrow> 'a::len word" where
  "get_be bs = word_of_nat (be_nat bs)"

lemma put_be_0 [simp]: "put_be n 0 = replicate n 0"
proof -
  have "nat_be n 0 = replicate n 0"
    by (induction n) (simp_all add: replicate_append_same)
  then show ?thesis by (simp add: put_be_def)
qed

lemma length_put_be [simp, wire]: "length (put_be n w) = n"
  by (simp add: put_be_def)

lemma unat_get_be:
  assumes "LENGTH('a) = 8 * length bs"
  shows "unat (get_be bs :: 'a::len word) = be_nat bs"
proof -
  have "(256::nat) ^ length bs = 2 ^ LENGTH('a)"
    by (simp add: assms power_mult)
  with be_nat_less [of bs] show ?thesis
    by (simp add: get_be_def unsigned_of_nat take_bit_eq_mod)
qed

lemma get_put_be [wire]:
  assumes "LENGTH('a) = 8 * n"
  shows "get_be (put_be n w) = (w :: 'a::len word)"
proof -
  have "(256::nat) ^ n = 2 ^ LENGTH('a)"
    by (simp add: assms power_mult)
  then have "be_nat (put_be n w) = unat w"
    using unsigned_less [of w, where ?'a = nat] by (simp add: put_be_def be_nat_nat_be)
  then show ?thesis by (simp add: get_be_def)
qed

lemma put_get_be [wire]:
  assumes "LENGTH('a) = 8 * length bs"
  shows "put_be (length bs) (get_be bs :: 'a::len word) = bs"
  by (simp add: put_be_def unat_get_be [OF assms] nat_be_be_nat)

lemma put_get_be_n [wire]:
  "LENGTH('a) = 8 * n \<Longrightarrow> length bs = n \<Longrightarrow> put_be n (get_be bs :: 'a::len word) = bs"
  using put_get_be [where 'a = 'a, of bs] by simp

lemma put_be_inj:
  assumes "LENGTH('a) = 8 * n"
  shows "put_be n (v :: 'a::len word) = put_be n w \<longleftrightarrow> v = w"
  using get_put_be [OF assms] by metis

section \<open>Slices and copy\<close>

text \<open>\<open>xs[i:j]\<close>, and \<open>copy(dst[i:j], src)\<close>, which copies as many bytes as both sides have.\<close>

definition slice_of :: "'a list \<Rightarrow> nat \<Rightarrow> nat \<Rightarrow> 'a list" where
  "slice_of xs i j = take (j - i) (drop i xs)"

definition overwrite :: "'a list \<Rightarrow> nat \<Rightarrow> nat \<Rightarrow> 'a list \<Rightarrow> 'a list" where
  "overwrite dst i j src =
     take i dst @ take (j - i) src @ drop (i + min (j - i) (length src)) dst"

lemma length_slice_of [simp, wire]: "length (slice_of xs i j) = min (j - i) (length xs - i)"
  by (auto simp: slice_of_def)

lemma slice_app_mid [wire]:
  "length xs = i \<Longrightarrow> length ys = j - i \<Longrightarrow> slice_of (xs @ ys @ zs) i j = ys"
  by (simp add: slice_of_def)

lemma slice_app_last [wire]:
  "length xs = i \<Longrightarrow> length ys = j - i \<Longrightarrow> slice_of (xs @ ys) i j = ys"
  by (simp add: slice_of_def)

lemma overwrite_block [wire]:
  "length xs = i \<Longrightarrow> length ys = j - i \<Longrightarrow> length src = j - i \<Longrightarrow>
   overwrite (xs @ ys @ zs) i j src = xs @ src @ zs"
  by (simp add: overwrite_def)

lemma length_overwrite [simp, wire]:
  "i \<le> j \<Longrightarrow> j \<le> length dst \<Longrightarrow> length (overwrite dst i j src) = length dst"
  by (simp add: overwrite_def)

section \<open>Decimal printing\<close>

text \<open>The \<open>%d\<close> of \<open>fmt\<close> and \<open>strconv.Itoa\<close> on non-negative numbers.\<close>

definition digit_char :: "nat \<Rightarrow> char" where
  "digit_char d = char_of (48 + d)"

fun show_nat :: "nat \<Rightarrow> string" where
  "show_nat n = (if n < 10 then [digit_char n] else show_nat (n div 10) @ [digit_char (n mod 10)])"

declare show_nat.simps [simp del]

definition read_nat :: "string \<Rightarrow> nat" where
  "read_nat s = foldl (\<lambda>a c. a * 10 + (of_char c - 48)) 0 s"

lemma of_char_digit [simp]: "d < 10 \<Longrightarrow> of_char (digit_char d) = 48 + d"
  by (simp add: digit_char_def of_char_mod_256)

lemma read_nat_snoc [simp]: "read_nat (s @ [c]) = read_nat s * 10 + (of_char c - 48)"
  by (simp add: read_nat_def)

lemma read_show_nat: "read_nat (show_nat n) = n"
proof (induction n rule: show_nat.induct)
  case (1 n)
  show ?case
  proof (cases "n < 10")
    case True
    then show ?thesis by (simp add: show_nat.simps [of n] read_nat_def)
  next
    case False
    with 1 show ?thesis by (simp add: show_nat.simps [of n])
  qed
qed

lemma show_nat_inject [simp]: "show_nat m = show_nat n \<longleftrightarrow> m = n"
  by (metis read_show_nat)

section \<open>Maps and options\<close>

lemma map_upd_Some_iff:
  "(m(k \<mapsto> v)) k' = Some w \<longleftrightarrow> (if k' = k then w = v else m k' = Some w)"
  by auto

section \<open>Step relations that come to an end\<close>

text \<open>
  A relation that decreases a measure and is never stuck before a goal reaches the goal, on every path,
  in as many steps as the measure allows.
\<close>

lemma runs_to_end:
  fixes size :: "'s \<Rightarrow> nat"
  assumes down: "\<And>s s'. P s \<Longrightarrow> R s s' \<Longrightarrow> P s' \<and> size s' < size s"
    and progress: "\<And>s. P s \<Longrightarrow> \<not> F s \<Longrightarrow> \<exists>s'. R s s'"
    and "P s"
  shows "\<exists>s'. R\<^sup>*\<^sup>* s s' \<and> P s' \<and> F s'"
    and "(R ^^ k) s s' \<Longrightarrow> k \<le> size s \<and> P s' \<and> (F s' \<or> (\<exists>s''. R s' s''))"
proof -
  show "\<exists>s'. R\<^sup>*\<^sup>* s s' \<and> P s' \<and> F s'"
    using \<open>P s\<close>
  proof (induction "size s" arbitrary: s rule: less_induct)
    case less
    show ?case
    proof (cases "F s")
      case False
      with less.prems progress obtain s1 where s1: "R s s1" by blast
      with less.prems down less.hyps obtain s' where "R\<^sup>*\<^sup>* s1 s'" "P s'" "F s'" by metis
      with s1 show ?thesis by (meson converse_rtranclp_into_rtranclp)
    qed (use less.prems in blast)
  qed
  have "k + size s' \<le> size s \<and> P s'" if "(R ^^ k) s s'" for k s'
    using that
  proof (induction k arbitrary: s')
    case 0
    with \<open>P s\<close> show ?case by simp
  next
    case (Suc k)
    then obtain s1 where s1: "(R ^^ k) s s1" "R s1 s'" by auto
    with Suc.IH [OF s1(1)] down [of s1 s'] show ?case by auto
  qed
  then show "(R ^^ k) s s' \<Longrightarrow> k \<le> size s \<and> P s' \<and> (F s' \<or> (\<exists>s''. R s' s''))"
    using progress by (metis add_leD1)
qed

end
