(* ===== verification/Go_Netip.thy ===== *)
theory Go_Netip
  imports Prelude
begin

text \<open>
  The parts of Go's \<open>net/netip\<close> and \<open>net\<close> address types that the program uses.
  A \<open>netip.Addr\<close> is the zero value, an IPv4 address, or an IPv6 address with a zone;
  a \<open>net.IP\<close> is a byte slice, with \<open>nil\<close> the empty list.
\<close>

datatype addr = NoAddr | Addr4 "32 word" | Addr6 "128 word" string

type_synonym net_ip = bytes

section \<open>netip.Addr\<close>

definition addr_IsValid :: "addr \<Rightarrow> bool" where
  "addr_IsValid a \<longleftrightarrow> a \<noteq> NoAddr"

definition addr_Is4 :: "addr \<Rightarrow> bool" where
  "addr_Is4 a \<longleftrightarrow> (case a of Addr4 _ \<Rightarrow> True | _ \<Rightarrow> False)"

definition addr_Is4In6 :: "addr \<Rightarrow> bool" where
  "addr_Is4In6 a \<longleftrightarrow> (case a of Addr6 w _ \<Rightarrow> drop_bit 32 w = 0xffff | _ \<Rightarrow> False)"

text \<open>The IPv4-mapped form \<open>::ffff:a.b.c.d\<close>.\<close>

definition mapped4 :: "32 word \<Rightarrow> 128 word" where
  "mapped4 v = word_of_nat (0xffff * 2 ^ 32 + unat v)"

definition addr_value :: "addr \<Rightarrow> 128 word" where
  "addr_value a = (case a of NoAddr \<Rightarrow> 0 | Addr4 v \<Rightarrow> mapped4 v | Addr6 w _ \<Rightarrow> w)"

definition addr_As16 :: "addr \<Rightarrow> bytes" where
  "addr_As16 a = put_be 16 (addr_value a)"

text \<open>\<open>As4\<close> panics on an address that is neither IPv4 nor IPv4-mapped; callers check \<open>Is4\<close>.\<close>

definition addr_As4 :: "addr \<Rightarrow> bytes option" where
  "addr_As4 a =
     (case a of
        Addr4 v \<Rightarrow> Some (put_be 4 v)
      | Addr6 w _ \<Rightarrow> if addr_Is4In6 a then Some (put_be 4 (ucast w :: 32 word)) else None
      | NoAddr \<Rightarrow> None)"

definition addr_AsSlice :: "addr \<Rightarrow> net_ip" where
  "addr_AsSlice a = (case a of NoAddr \<Rightarrow> [] | Addr4 v \<Rightarrow> put_be 4 v | Addr6 w _ \<Rightarrow> put_be 16 w)"

definition AddrFrom4 :: "bytes \<Rightarrow> addr" where
  "AddrFrom4 bs = Addr4 (get_be bs)"

definition AddrFrom16 :: "bytes \<Rightarrow> addr" where
  "AddrFrom16 bs = Addr6 (get_be bs) []"

definition AddrFromSlice :: "net_ip \<Rightarrow> addr option" where
  "AddrFromSlice bs =
     (if length bs = 4 then Some (AddrFrom4 bs)
      else if length bs = 16 then Some (AddrFrom16 bs) else None)"

definition addr_Unmap :: "addr \<Rightarrow> addr" where
  "addr_Unmap a = (case a of Addr6 w _ \<Rightarrow> if addr_Is4In6 a then Addr4 (ucast w) else a | _ \<Rightarrow> a)"

definition addr_WithZone :: "addr \<Rightarrow> string \<Rightarrow> addr" where
  "addr_WithZone a z = (case a of Addr6 w _ \<Rightarrow> Addr6 w z | _ \<Rightarrow> a)"

definition addr_Zone :: "addr \<Rightarrow> string" where
  "addr_Zone a = (case a of Addr6 _ z \<Rightarrow> z | _ \<Rightarrow> [])"

definition IPv4Unspecified :: addr where
  "IPv4Unspecified = Addr4 0"

definition IPv6Unspecified :: addr where
  "IPv6Unspecified = Addr6 0 []"

definition addr_IsUnspecified :: "addr \<Rightarrow> bool" where
  "addr_IsUnspecified a \<longleftrightarrow> a = IPv4Unspecified \<or> a = IPv6Unspecified"

lemmas addr_defs =
  addr_IsValid_def addr_Is4_def addr_Is4In6_def addr_value_def addr_As16_def addr_As4_def
  addr_AsSlice_def AddrFrom4_def AddrFrom16_def AddrFromSlice_def addr_Unmap_def
  addr_WithZone_def addr_Zone_def IPv4Unspecified_def IPv6Unspecified_def addr_IsUnspecified_def

lemma unat_mapped4: "unat (mapped4 v) = 0xffff * 2 ^ 32 + unat v"
proof -
  have "unat v < 2 ^ 32" using unsigned_less [of v, where ?'a = nat] by simp
  then have "(0xffff * 2 ^ 32 + unat v) mod 2 ^ 128 = 0xffff * 2 ^ 32 + unat v"
    by (intro mod_less) simp
  then show ?thesis
    by (simp only: mapped4_def unsigned_of_nat take_bit_eq_mod) simp
qed

lemma drop_mapped4 [simp]: "drop_bit 32 (mapped4 v) = 0xffff"
proof -
  have "unat v < 2 ^ 32" using unsigned_less [of v, where ?'a = nat] by simp
  then have "unat (drop_bit 32 (mapped4 v)) = 0xffff"
    by (simp add: drop_bit_eq_div unat_div unat_mapped4)
  then show ?thesis by (simp add: word_unat_eq_iff)
qed

lemma ucast_mapped4 [simp]: "ucast (mapped4 v) = v"
proof -
  have "unat v < 2 ^ 32" using unsigned_less [of v, where ?'a = nat] by simp
  then have "(0xffff * 2 ^ 32 + unat v) mod 2 ^ 32 = unat v"
    by (simp only: mod_mult_self3 mod_less)
  then have "unat (ucast (mapped4 v) :: 32 word) = unat v"
    by (simp add: unsigned_ucast_eq take_bit_eq_mod unat_mapped4)
  then show ?thesis by (simp add: word_unat_eq_iff)
qed

lemma mapped4_ucast:
  assumes "drop_bit 32 w = 0xffff"
  shows "mapped4 (ucast w) = w"
proof -
  have "unat (drop_bit 32 w) = unat (0xffff :: 128 word)"
    by (simp only: assms)
  then have "unat w div 2 ^ 32 = 0xffff"
    by (simp add: drop_bit_eq_div unat_div)
  moreover have "unat w = unat w div 2 ^ 32 * 2 ^ 32 + unat w mod 2 ^ 32"
    by (simp only: div_mult_mod_eq)
  ultimately have "unat (mapped4 (ucast w)) = unat w"
    by (simp add: unat_mapped4 unsigned_ucast_eq take_bit_eq_mod)
  then show ?thesis by (simp add: word_unat_eq_iff)
qed

lemma mapped4_inject [simp]: "mapped4 v = mapped4 w \<longleftrightarrow> v = w"
  by (metis ucast_mapped4)

lemma length_addr_As16 [simp, wire]: "length (addr_As16 a) = 16"
  by (simp add: addr_As16_def wire)

lemma addr_IsValid_simps [simp]:
  "\<not> addr_IsValid NoAddr" "addr_IsValid (Addr4 v)" "addr_IsValid (Addr6 w z)"
  by (simp_all add: addr_IsValid_def)

lemma addr_As16_eq_iff: "addr_As16 a = addr_As16 b \<longleftrightarrow> addr_value a = addr_value b"
  by (simp add: addr_As16_def put_be_inj)

lemma AddrFrom16_As16 [simp]: "AddrFrom16 (addr_As16 a) = Addr6 (addr_value a) []"
  by (simp add: AddrFrom16_def addr_As16_def wire)

lemma addr_As16_AddrFrom16 [simp]: "length bs = 16 \<Longrightarrow> addr_As16 (AddrFrom16 bs) = bs"
  using put_get_be [where 'a = 128, of bs]
  by (simp add: addr_As16_def addr_value_def AddrFrom16_def)

lemma addr_value_Unmap [simp]: "addr_value (addr_Unmap a) = addr_value a"
  by (auto simp: addr_defs mapped4_ucast split: addr.splits)

lemma addr_IsValid_Unmap [simp]: "addr_IsValid (addr_Unmap a) = addr_IsValid a"
  by (auto simp: addr_defs split: addr.splits)

lemma addr_Unmap_idem [simp]: "addr_Unmap (addr_Unmap a) = addr_Unmap a"
  by (auto simp: addr_defs split: addr.splits)

lemma not_Is4In6_Unmap [simp]: "\<not> addr_Is4In6 (addr_Unmap a)"
  by (auto simp: addr_defs split: addr.splits)

lemma AddrFromSlice_AsSlice:
  "a \<noteq> NoAddr \<Longrightarrow> AddrFromSlice (addr_AsSlice a) = Some (addr_WithZone a [])"
  by (cases a) (simp_all add: addr_defs wire)

section \<open>net.IP\<close>

definition v4InV6Prefix :: bytes where
  "v4InV6Prefix = [0, 0, 0, 0, 0, 0, 0, 0, 0, 0, 0xff, 0xff]"

definition net_IPv4 :: "byte \<Rightarrow> byte \<Rightarrow> byte \<Rightarrow> byte \<Rightarrow> net_ip" where
  "net_IPv4 a b c d = v4InV6Prefix @ [a, b, c, d]"

definition IPv4zero :: net_ip where
  "IPv4zero = net_IPv4 0 0 0 0"

definition IPv6zero :: net_ip where
  "IPv6zero = replicate 16 0"

definition ip_Equal :: "net_ip \<Rightarrow> net_ip \<Rightarrow> bool" where
  "ip_Equal ip x =
     (if length ip = length x then ip = x
      else if length ip = 4 \<and> length x = 16 then slice_of x 0 12 = v4InV6Prefix \<and> ip = drop 12 x
      else if length ip = 16 \<and> length x = 4 then slice_of ip 0 12 = v4InV6Prefix \<and> x = drop 12 ip
      else False)"

definition ip_To4 :: "net_ip \<Rightarrow> net_ip option" where
  "ip_To4 ip =
     (if length ip = 4 then Some ip
      else if length ip = 16 \<and> slice_of ip 0 12 = v4InV6Prefix then Some (drop 12 ip) else None)"

definition ip_IsLinkLocalUnicast :: "net_ip \<Rightarrow> bool" where
  "ip_IsLinkLocalUnicast ip =
     (case ip_To4 ip of
        Some ip4 \<Rightarrow> ip4 ! 0 = 169 \<and> ip4 ! 1 = 254
      | None \<Rightarrow> length ip = 16 \<and> ip ! 0 = 0xfe \<and> ip ! 1 AND 0xc0 = 0x80)"

text \<open>\<open>net.IPNet\<close> and its \<open>Contains\<close>: a failed \<open>networkNumberAndMask\<close> gives the nil pair.\<close>

record ip_net =
  net_IP :: net_ip
  net_Mask :: bytes

definition networkNumberAndMask :: "ip_net \<Rightarrow> net_ip \<times> bytes" where
  "networkNumberAndMask n =
     (let ip = (case ip_To4 (net_IP n) of Some x \<Rightarrow> x | None \<Rightarrow> net_IP n); m = net_Mask n
      in if length ip \<noteq> 4 \<and> length ip \<noteq> 16 then ([], [])
         else if length m = 4 then (if length ip \<noteq> 4 then ([], []) else (ip, m))
         else if length m = 16 then (if length ip = 4 then (ip, drop 12 m) else (ip, m))
         else ([], []))"

definition ipnet_Contains :: "ip_net \<Rightarrow> net_ip \<Rightarrow> bool" where
  "ipnet_Contains n ip0 =
     (let (nn, m) = networkNumberAndMask n;
          ip = (case ip_To4 ip0 of Some x \<Rightarrow> x | None \<Rightarrow> ip0)
      in length ip = length nn \<and> map2 (AND) nn m = map2 (AND) ip m)"

lemma ip_Equal_refl [simp]: "ip_Equal ip ip"
  by (simp add: ip_Equal_def)

lemma ip_Equal_sym: "ip_Equal a b \<Longrightarrow> ip_Equal b a"
  by (auto simp: ip_Equal_def split: if_splits)

end
