(* ===== verification/Go_Errors.thy ===== *)
theory Go_Errors
  imports Go_Netip
begin

text \<open>
  Go error values. \<open>Sentinel\<close> is a package-level error variable, named with its package because
  \<open>nat.ErrNoNATFound\<close> and \<open>pcp.ErrNoNATFound\<close> are different values with the same text.
  \<open>Errorf\<close> keeps the format string and the arguments of \<open>fmt.Errorf\<close>: an \<open>AErr\<close> argument is
  printed with the wrapping verb \<open>%w\<close>, an \<open>AVal\<close> argument with \<open>%v\<close>, which does not wrap.
  \<open>ExtErr\<close> is an error produced by the operating system or by a package outside the repository.
\<close>

datatype ctx_err = Canceled | DeadlineExceeded

datatype go_err =
    ErrNew string
  | Sentinel string string
  | CtxErr ctx_err
  | ExtErr string
  | PcpError byte string
  | Errorf string "fmt_arg list"
  | ErrJoin go_err go_err
and fmt_arg =
    AInt int
  | AStr string
  | AAddr addr
  | AIP net_ip
  | AErr go_err
  | AVal go_err

text \<open>\<open>errors.Is\<close>: equality, or through \<open>%w\<close> arguments and joined errors.\<close>

fun errors_is :: "go_err \<Rightarrow> go_err \<Rightarrow> bool"
and args_is :: "fmt_arg list \<Rightarrow> go_err \<Rightarrow> bool" where
  "errors_is (Errorf f args) t \<longleftrightarrow> Errorf f args = t \<or> args_is args t"
| "errors_is (ErrJoin a b) t \<longleftrightarrow> ErrJoin a b = t \<or> errors_is a t \<or> errors_is b t"
| "errors_is e t \<longleftrightarrow> e = t"
| "args_is [] t \<longleftrightarrow> False"
| "args_is (AErr e # as) t \<longleftrightarrow> errors_is e t \<or> args_is as t"
| "args_is (a # as) t \<longleftrightarrow> args_is as t"

lemma errors_is_refl [simp]: "errors_is e e"
  by (cases e) auto

text \<open>A fallible Go call that returns \<open>(value, nil)\<close> or \<open>(zero, err)\<close>.\<close>

type_synonym 'a or_err = "go_err + 'a"

text \<open>The error component of such a result, \<open>nil\<close> as \<open>None\<close>.\<close>

definition err_of :: "'a or_err \<Rightarrow> go_err option" where
  "err_of r = (case r of Inl e \<Rightarrow> Some e | Inr _ \<Rightarrow> None)"

lemma err_of_simps [simp]: "err_of (Inl e) = Some e" "err_of (Inr x) = None"
  by (simp_all add: err_of_def)

lemma err_of_None_iff: "err_of r = None \<longleftrightarrow> (\<exists>x. r = Inr x)"
  by (cases r) auto

lemma err_of_Some_iff: "err_of r = Some e \<longleftrightarrow> r = Inl e"
  by (cases r) auto

end
