(* ===== verification/Pcp_Protocol.thy ===== *)
theory Pcp_Protocol
  imports Go_Errors
begin

text \<open>
  \<open>pcp/protocol.go\<close>: the constants of RFC 6887, the request builders and the response parsers.
  The builders work on a zeroed buffer by index and \<open>copy\<close>, as the code does; the lemmas show
  that the result is the concatenation of the RFC's fields. \<open>encode_map_response\<close> and
  \<open>decode_map_request\<close> are the wire format seen from the server's side: they are the reference
  the code's routines are compared with.
\<close>

section \<open>Constants\<close>

definition Version :: byte where "Version = 2"
definition Port :: int where "Port = 5351"
definition DefaultLifetime :: "32 word" where "DefaultLifetime = 7200"
definition headerSize :: nat where "headerSize = 24"
definition mapPayloadSize :: nat where "mapPayloadSize = 36"
definition mapRequestSize :: nat where "mapRequestSize = headerSize + mapPayloadSize"

definition OpAnnounce :: byte where "OpAnnounce = 0"
definition OpMap :: byte where "OpMap = 1"
definition OpPeer :: byte where "OpPeer = 2"
definition OpReply :: byte where "OpReply = 0x80"

definition ProtoUDP :: byte where "ProtoUDP = 17"
definition ProtoTCP :: byte where "ProtoTCP = 6"

definition ResultSuccess :: byte where "ResultSuccess = 0"
definition ResultUnsuppVersion :: byte where "ResultUnsuppVersion = 1"
definition ResultNotAuthorized :: byte where "ResultNotAuthorized = 2"
definition ResultMalformedRequest :: byte where "ResultMalformedRequest = 3"
definition ResultUnsuppOpcode :: byte where "ResultUnsuppOpcode = 4"
definition ResultUnsuppOption :: byte where "ResultUnsuppOption = 5"
definition ResultMalformedOption :: byte where "ResultMalformedOption = 6"
definition ResultNetworkFailure :: byte where "ResultNetworkFailure = 7"
definition ResultNoResources :: byte where "ResultNoResources = 8"
definition ResultUnsuppProtocol :: byte where "ResultUnsuppProtocol = 9"
definition ResultUserExQuota :: byte where "ResultUserExQuota = 10"
definition ResultCannotProvideExt :: byte where "ResultCannotProvideExt = 11"
definition ResultAddressMismatch :: byte where "ResultAddressMismatch = 12"
definition ResultExcessiveRemotePeers :: byte where "ResultExcessiveRemotePeers = 13"

lemmas size_consts = headerSize_def mapPayloadSize_def mapRequestSize_def

lemmas op_consts = Version_def OpAnnounce_def OpMap_def OpPeer_def OpReply_def

lemmas result_consts =
  ResultSuccess_def ResultUnsuppVersion_def ResultNotAuthorized_def ResultMalformedRequest_def
  ResultUnsuppOpcode_def ResultUnsuppOption_def ResultMalformedOption_def
  ResultNetworkFailure_def ResultNoResources_def ResultUnsuppProtocol_def ResultUserExQuota_def
  ResultCannotProvideExt_def ResultAddressMismatch_def ResultExcessiveRemotePeers_def

definition ResultCodeString :: "byte \<Rightarrow> string" where
  "ResultCodeString code =
     (if code = ResultSuccess then ''SUCCESS''
      else if code = ResultUnsuppVersion then ''UNSUPP_VERSION''
      else if code = ResultNotAuthorized then ''NOT_AUTHORIZED''
      else if code = ResultMalformedRequest then ''MALFORMED_REQUEST''
      else if code = ResultUnsuppOpcode then ''UNSUPP_OPCODE''
      else if code = ResultUnsuppOption then ''UNSUPP_OPTION''
      else if code = ResultMalformedOption then ''MALFORMED_OPTION''
      else if code = ResultNetworkFailure then ''NETWORK_FAILURE''
      else if code = ResultNoResources then ''NO_RESOURCES''
      else if code = ResultUnsuppProtocol then ''UNSUPP_PROTOCOL''
      else if code = ResultUserExQuota then ''USER_EX_QUOTA''
      else if code = ResultCannotProvideExt then ''CANNOT_PROVIDE_EXTERNAL''
      else if code = ResultAddressMismatch then ''ADDRESS_MISMATCH''
      else if code = ResultExcessiveRemotePeers then ''EXCESSIVE_REMOTE_PEERS''
      else ''UNKNOWN('' @ show_nat (unat code) @ '')'')"

section \<open>Responses\<close>

record response =
  r_Version :: byte
  r_Opcode :: byte
  r_ResultCode :: byte
  r_Lifetime :: "32 word"
  r_Epoch :: "32 word"

text \<open>\<open>MapResponse\<close> embeds \<open>Response\<close>; a nonce is a 12-byte array.\<close>

type_synonym nonce = "96 word"

record map_response = response +
  Nonce :: nonce
  Protocol :: byte
  InternalPort :: "16 word"
  ExternalPort :: "16 word"
  ExternalIP :: addr

section \<open>Addresses on the wire\<close>

definition addrTo16 :: "addr \<Rightarrow> bytes" where
  "addrTo16 a =
     (if addr_Is4 a then addr_As16 (AddrFrom4 (the (addr_As4 a))) else addr_As16 a)"

definition addrFrom16 :: "bytes \<Rightarrow> addr" where
  "addrFrom16 b = addr_Unmap (AddrFrom16 b)"

lemma addrTo16_eq: "addrTo16 a = addr_As16 a"
  by (cases a) (simp_all add: addrTo16_def addr_defs wire)

lemma length_addrTo16 [simp, wire]: "length (addrTo16 a) = 16"
  by (simp add: addrTo16_eq)

text \<open>What survives the wire: IPv4-mapped addresses become IPv4, and the zone is dropped.\<close>

definition wire_addr :: "addr \<Rightarrow> addr" where
  "wire_addr a = addr_Unmap (Addr6 (addr_value a) [])"

definition wire_canonical :: "addr \<Rightarrow> bool" where
  "wire_canonical a \<longleftrightarrow> addr_IsValid a \<and> \<not> addr_Is4In6 a \<and> addr_Zone a = []"

lemma addrFrom16_addrTo16: "addrFrom16 (addrTo16 a) = wire_addr a"
  by (simp add: addrFrom16_def addrTo16_eq wire_addr_def)

lemma wire_addr_canonical [simp]: "wire_canonical (wire_addr a)"
  by (auto simp: wire_canonical_def wire_addr_def addr_defs)

lemma wire_addr_id: "wire_canonical a \<Longrightarrow> wire_addr a = a"
  by (cases a) (auto simp: wire_canonical_def wire_addr_def addr_defs)

lemma addrFrom16_canonical [simp]: "wire_canonical (addrFrom16 b)"
  by (auto simp: wire_canonical_def addrFrom16_def addr_defs)

lemma addrTo16_addrFrom16 [wire]: "length b = 16 \<Longrightarrow> addrTo16 (addrFrom16 b) = b"
  by (simp add: addrTo16_eq addrFrom16_def addr_As16_def)
    (simp add: AddrFrom16_def addr_value_def put_get_be [where 'a = 128, of b, simplified])

section \<open>Requests\<close>

definition buildAnnounceRequest :: "addr \<Rightarrow> bytes" where
  "buildAnnounceRequest clientIP =
     (let req = replicate headerSize 0;
          req = req[0 := Version];
          req = req[1 := OpAnnounce];
          mapped = addrTo16 clientIP
      in overwrite req 8 24 mapped)"

definition buildMapRequest ::
  "addr \<Rightarrow> nonce \<Rightarrow> byte \<Rightarrow> 16 word \<Rightarrow> 16 word \<Rightarrow> addr \<Rightarrow> 32 word \<Rightarrow> bytes" where
  "buildMapRequest clientIP nonce protocol internalPort suggestedExtPort suggestedExtIP lifetime =
     (let req = replicate mapRequestSize 0;
          req = req[0 := Version];
          req = req[1 := OpMap];
          req = overwrite req 4 8 (put_be 4 lifetime);
          mapped = addrTo16 clientIP;
          req = overwrite req 8 24 mapped;
          req = overwrite req 24 36 (put_be 12 nonce);
          req = req[36 := protocol];
          req = overwrite req 40 42 (put_be 2 internalPort);
          req = overwrite req 42 44 (put_be 2 suggestedExtPort);
          ext = (if \<not> addr_IsValid suggestedExtIP then
                   (if addr_Is4 clientIP \<or> addr_Is4In6 clientIP then IPv4Unspecified
                    else IPv6Unspecified)
                 else suggestedExtIP);
          extMapped = addrTo16 ext
      in overwrite req 44 60 extMapped)"

section \<open>Parsers\<close>

definition parseResponse :: "bytes \<Rightarrow> response or_err" where
  "parseResponse data =
     (if length data < headerSize
      then Inl (Errorf ''response too short: %d bytes'' [AInt (int (length data))])
      else
        let resp = \<lparr>r_Version = data ! 0, r_Opcode = data ! 1, r_ResultCode = data ! 3,
                    r_Lifetime = get_be (slice_of data 4 8), r_Epoch = get_be (slice_of data 8 12)\<rparr>
        in if r_Version resp \<noteq> Version
           then Inl (Errorf ''unsupported PCP version: %d'' [AInt (uint (r_Version resp))])
           else if r_Opcode resp AND OpReply = 0
           then Inl (Errorf ''response missing reply bit: opcode=0x%02x'' [AInt (uint (r_Opcode resp))])
           else Inr resp)"

definition parseMapResponse :: "bytes \<Rightarrow> map_response or_err" where
  "parseMapResponse data =
     (if length data < mapRequestSize
      then Inl (Errorf ''MAP response too short: %d bytes'' [AInt (int (length data))])
      else case parseResponse data of
        Inl err \<Rightarrow> Inl (Errorf ''parse header: %w'' [AErr err])
      | Inr resp \<Rightarrow>
          Inr (response.extend resp
                 \<lparr>Nonce = get_be (slice_of data 24 36), Protocol = data ! 36,
                  InternalPort = get_be (slice_of data 40 42),
                  ExternalPort = get_be (slice_of data 42 44),
                  ExternalIP = addrFrom16 (slice_of data 44 60)\<rparr>))"

section \<open>Layout of the requests\<close>

definition suggested_ext_ip :: "addr \<Rightarrow> addr \<Rightarrow> addr" where
  "suggested_ext_ip clientIP ip =
     (if addr_IsValid ip then ip
      else if addr_Is4 clientIP \<or> addr_Is4In6 clientIP then IPv4Unspecified else IPv6Unspecified)"

lemma buildAnnounceRequest_layout:
  "buildAnnounceRequest ip = [2, 0, 0, 0, 0, 0, 0, 0] @ addrTo16 ip"
  by (simp add: buildAnnounceRequest_def size_consts op_consts overwrite_def
      replicate_Suc numeral_eq_Suc take_all drop_all)

lemma buildMapRequest_layout:
  "buildMapRequest clientIP nonce proto ip ep sip lt =
     [2, 1, 0, 0] @ put_be 4 lt @ addrTo16 clientIP @ put_be 12 nonce @ [proto, 0, 0, 0] @
     put_be 2 ip @ put_be 2 ep @ addrTo16 (suggested_ext_ip clientIP sip)"
proof -
  have buf: "replicate mapRequestSize (0 :: byte) =
      [0, 0] @ [0, 0] @ replicate 4 0 @ replicate 16 0 @ replicate 12 0 @ [0, 0, 0, 0] @
      replicate 2 0 @ replicate 2 0 @ replicate 16 0"
    by (simp add: size_consts numeral_eq_Suc)
  show ?thesis
    unfolding buildMapRequest_def Let_def buf
    by (simp add: overwrite_def op_consts list_update_append suggested_ext_ip_def)
qed

lemma length_buildMapRequest [simp, wire]:
  "length (buildMapRequest clientIP nonce proto ip ep sip lt) = 60"
  by (simp add: buildMapRequest_layout)

lemma length_buildAnnounceRequest [simp, wire]: "length (buildAnnounceRequest ip) = 24"
  by (simp add: buildAnnounceRequest_layout)

section \<open>The server's view of the wire format\<close>

record map_message =
  mq_Lifetime :: "32 word"
  mq_ClientIP :: addr
  mq_Nonce :: nonce
  mq_Protocol :: byte
  mq_InternalPort :: "16 word"
  mq_SuggestedPort :: "16 word"
  mq_SuggestedIP :: addr

text \<open>RFC 6887, figures 2 and 9: how a server reads a MAP request.\<close>

definition decode_map_request :: "bytes \<Rightarrow> map_message option" where
  "decode_map_request d =
     (if length d < 60 \<or> d ! 0 \<noteq> 2 \<or> d ! 1 \<noteq> 1 then None
      else Some \<lparr>mq_Lifetime = get_be (slice_of d 4 8), mq_ClientIP = addrFrom16 (slice_of d 8 24),
                 mq_Nonce = get_be (slice_of d 24 36), mq_Protocol = d ! 36,
                 mq_InternalPort = get_be (slice_of d 40 42),
                 mq_SuggestedPort = get_be (slice_of d 42 44),
                 mq_SuggestedIP = addrFrom16 (slice_of d 44 60)\<rparr>)"

text \<open>
  RFC 6887, figures 3 and 10: how a server writes a MAP response. The reserved bytes
  (\<open>r0\<close>, \<open>r1\<close>, \<open>r2\<close>) and the options that follow are free.
\<close>

definition encode_map_response :: "map_response \<Rightarrow> byte \<Rightarrow> bytes \<Rightarrow> bytes \<Rightarrow> bytes \<Rightarrow> bytes" where
  "encode_map_response r r0 r1 r2 opts =
     [r_Version r, r_Opcode r, r0, r_ResultCode r] @ put_be 4 (r_Lifetime r) @ put_be 4 (r_Epoch r) @
     r1 @ put_be 12 (Nonce r) @ [Protocol r] @ r2 @ put_be 2 (InternalPort r) @
     put_be 2 (ExternalPort r) @ addr_As16 (ExternalIP r) @ opts"

lemma decode_buildMapRequest:
  "decode_map_request (buildMapRequest clientIP nonce proto ip ep sip lt) =
     Some \<lparr>mq_Lifetime = lt, mq_ClientIP = wire_addr clientIP, mq_Nonce = nonce,
           mq_Protocol = proto, mq_InternalPort = ip, mq_SuggestedPort = ep,
           mq_SuggestedIP = wire_addr (suggested_ext_ip clientIP sip)\<rparr>"
  by (simp add: buildMapRequest_layout decode_map_request_def slice_of_def nth_append
      get_put_be addrFrom16_addrTo16)

lemma slice_of_drop: "i \<le> j \<Longrightarrow> drop i xs = slice_of xs i j @ drop j xs"
  by (simp add: slice_of_def) (metis append_take_drop_id drop_drop le_add_diff_inverse2)

lemma slice_of_Suc: "i < length xs \<Longrightarrow> slice_of xs i (Suc i) = [xs ! i]"
  by (simp add: slice_of_def take_Suc_conv_app_nth hd_drop_conv_nth take_Suc)

lemma split_map_response:
  assumes "60 \<le> length d"
  shows "d = [d ! 0, d ! 1, d ! 2, d ! 3] @ slice_of d 4 8 @ slice_of d 8 12 @ slice_of d 12 24 @
             slice_of d 24 36 @ [d ! 36] @ slice_of d 37 40 @ slice_of d 40 42 @
             slice_of d 42 44 @ slice_of d 44 60 @ drop 60 d"
proof -
  have "d = slice_of d 0 1 @ slice_of d 1 2 @ slice_of d 2 3 @ slice_of d 3 4 @ drop 4 d"
    using slice_of_drop [of 0 1 d] slice_of_drop [of 1 2 d] slice_of_drop [of 2 3 d]
      slice_of_drop [of 3 4 d] by simp
  also have "drop 4 d = slice_of d 4 8 @ slice_of d 8 12 @ slice_of d 12 24 @ slice_of d 24 36 @
      drop 36 d"
    using slice_of_drop [of 4 8 d] slice_of_drop [of 8 12 d] slice_of_drop [of 12 24 d]
      slice_of_drop [of 24 36 d] by simp
  also have "drop 36 d = slice_of d 36 37 @ slice_of d 37 40 @ slice_of d 40 42 @
      slice_of d 42 44 @ slice_of d 44 60 @ drop 60 d"
    using slice_of_drop [of 36 37 d] slice_of_drop [of 37 40 d] slice_of_drop [of 40 42 d]
      slice_of_drop [of 42 44 d] slice_of_drop [of 44 60 d] by simp
  finally have "d = slice_of d 0 1 @ slice_of d 1 2 @ slice_of d 2 3 @ slice_of d 3 4 @
      slice_of d 4 8 @ slice_of d 8 12 @ slice_of d 12 24 @ slice_of d 24 36 @ slice_of d 36 37 @
      slice_of d 37 40 @ slice_of d 40 42 @ slice_of d 42 44 @ slice_of d 44 60 @ drop 60 d"
    by simp
  moreover have "slice_of d i j = [d ! i]" if "i < 60" "j = Suc i" for i j
    using that assms by (simp add: slice_of_Suc)
  ultimately show ?thesis by simp
qed

lemma parseResponse_Inr_iff:
  "parseResponse d = Inr r \<longleftrightarrow>
     24 \<le> length d \<and> r = \<lparr>r_Version = d ! 0, r_Opcode = d ! 1, r_ResultCode = d ! 3,
       r_Lifetime = get_be (slice_of d 4 8), r_Epoch = get_be (slice_of d 8 12)\<rparr> \<and>
     d ! 0 = Version \<and> d ! 1 AND OpReply \<noteq> 0"
  by (auto simp: parseResponse_def Let_def size_consts)

lemma parseMapResponse_Inr_iff:
  "parseMapResponse d = Inr r \<longleftrightarrow>
     60 \<le> length d \<and> d ! 0 = Version \<and> d ! 1 AND OpReply \<noteq> 0 \<and>
     r = \<lparr>r_Version = d ! 0, r_Opcode = d ! 1, r_ResultCode = d ! 3,
       r_Lifetime = get_be (slice_of d 4 8), r_Epoch = get_be (slice_of d 8 12),
       Nonce = get_be (slice_of d 24 36), Protocol = d ! 36,
       InternalPort = get_be (slice_of d 40 42), ExternalPort = get_be (slice_of d 42 44),
       ExternalIP = addrFrom16 (slice_of d 44 60)\<rparr>"
  by (auto simp: parseMapResponse_def parseResponse_def Let_def size_consts response.defs
      split: if_splits)

lemma parse_encode_map_response:
  assumes "r_Version r = Version" and "r_Opcode r AND OpReply \<noteq> 0"
    and "wire_canonical (ExternalIP r)" and "length r1 = 12" and "length r2 = 3"
  shows "parseMapResponse (encode_map_response r r0 r1 r2 opts) = Inr r"
proof -
  have "addrFrom16 (addr_As16 (ExternalIP r)) = ExternalIP r"
    using addrFrom16_addrTo16 [of "ExternalIP r"] assms(3) by (simp add: addrTo16_eq wire_addr_id)
  then show ?thesis
    using assms by (simp add: parseMapResponse_Inr_iff encode_map_response_def slice_of_def
        nth_append get_put_be)
qed

lemma encode_parsed_map_response:
  assumes "parseMapResponse d = Inr r"
  shows "d = encode_map_response r (d ! 2) (slice_of d 12 24) (slice_of d 37 40) (drop 60 d)"
proof -
  have len: "60 \<le> length d"
    using assms by (simp add: parseMapResponse_Inr_iff)
  have ip: "addr_As16 (addrFrom16 (slice_of d 44 60)) = slice_of d 44 60"
    using addrTo16_addrFrom16 [of "slice_of d 44 60"] len by (simp add: addrTo16_eq)
  have lens: "length (slice_of d 4 8) = 4" "length (slice_of d 8 12) = 4"
    "length (slice_of d 24 36) = 12" "length (slice_of d 40 42) = 2" "length (slice_of d 42 44) = 2"
    using len by simp_all
  show ?thesis
    using assms split_map_response [OF len]
    by (simp add: parseMapResponse_Inr_iff encode_map_response_def ip put_get_be_n lens
        del: length_slice_of)
qed

section \<open>Properties\<close>

text \<open>
  C10. A MAP request carries exactly the values it was built from: a server that reads the packet
  by the RFC's layout gets the lifetime, the nonce, the protocol and both ports back unchanged,
  the addresses in their wire form, and the all-zeros address of the client's family when no
  external address is suggested.
\<close>

theorem map_request_roundtrip:
  "decode_map_request (buildMapRequest clientIP nonce proto ip ep sip lt) =
     Some \<lparr>mq_Lifetime = lt, mq_ClientIP = wire_addr clientIP, mq_Nonce = nonce,
           mq_Protocol = proto, mq_InternalPort = ip, mq_SuggestedPort = ep,
           mq_SuggestedIP =
             (if addr_IsValid sip then wire_addr sip
              else if addr_Is4 clientIP \<or> addr_Is4In6 clientIP then IPv4Unspecified
              else IPv6Unspecified)\<rparr>"
proof -
  have "wire_addr IPv4Unspecified = IPv4Unspecified" "wire_addr IPv6Unspecified = IPv6Unspecified"
    by (simp_all add: wire_addr_id wire_canonical_def addr_defs)
  then show ?thesis
    by (simp add: decode_buildMapRequest suggested_ext_ip_def)
qed

text \<open>
  C11. \<open>parseMapResponse\<close> accepts exactly the packets that are the RFC encoding of some version 2
  reply, whatever the reserved bytes and the options behind the payload, and returns the encoded
  fields; so no accepted packet loses or invents a field, and everything else is an error.
\<close>

theorem parse_map_response_exact:
  "parseMapResponse d = Inr r \<longleftrightarrow>
     r_Version r = Version \<and> r_Opcode r AND OpReply \<noteq> 0 \<and> wire_canonical (ExternalIP r) \<and>
     (\<exists>r0 r1 r2 opts. length r1 = 12 \<and> length r2 = 3 \<and> d = encode_map_response r r0 r1 r2 opts)"
proof
  assume p: "parseMapResponse d = Inr r"
  then have "60 \<le> length d" by (simp add: parseMapResponse_Inr_iff)
  then have "length (slice_of d 12 24) = 12" "length (slice_of d 37 40) = 3"
    by simp_all
  with encode_parsed_map_response [OF p]
  have "\<exists>r0 r1 r2 opts. length r1 = 12 \<and> length r2 = 3 \<and> d = encode_map_response r r0 r1 r2 opts"
    by blast
  with p show "r_Version r = Version \<and> r_Opcode r AND OpReply \<noteq> 0 \<and>
      wire_canonical (ExternalIP r) \<and>
      (\<exists>r0 r1 r2 opts. length r1 = 12 \<and> length r2 = 3 \<and> d = encode_map_response r r0 r1 r2 opts)"
    by (simp add: parseMapResponse_Inr_iff)
qed (auto simp: parse_encode_map_response)

text \<open>
  A request that is reflected to the client is never taken for a response, by either parser:
  the reply bit tells the two apart.
\<close>

theorem reflected_request_rejected:
  "parseMapResponse (buildMapRequest clientIP nonce proto ip ep sip lt) =
     Inl (Errorf ''parse header: %w'' [AErr (Errorf ''response missing reply bit: opcode=0x%02x'' [AInt 1])])
   \<and> parseResponse (buildMapRequest clientIP nonce proto ip ep sip lt) =
     Inl (Errorf ''response missing reply bit: opcode=0x%02x'' [AInt 1])
   \<and> parseResponse (buildAnnounceRequest clientIP) =
     Inl (Errorf ''response missing reply bit: opcode=0x%02x'' [AInt 0])"
proof -
  have "parseResponse (buildMapRequest clientIP nonce proto ip ep sip lt) =
     Inl (Errorf ''response missing reply bit: opcode=0x%02x'' [AInt 1])"
    by (simp add: parseResponse_def size_consts op_consts Let_def) (simp add: buildMapRequest_layout)
  moreover have "parseResponse (buildAnnounceRequest clientIP) =
     Inl (Errorf ''response missing reply bit: opcode=0x%02x'' [AInt 0])"
    by (simp add: parseResponse_def size_consts op_consts Let_def) (simp add: buildAnnounceRequest_layout)
  ultimately show ?thesis
    by (simp add: parseMapResponse_def size_consts)
qed

text \<open>The reader of the printed codes, for the next property.\<close>

definition code_of_string :: "string \<Rightarrow> byte" where
  "code_of_string s =
     (if s = ''SUCCESS'' then 0 else if s = ''UNSUPP_VERSION'' then 1
      else if s = ''NOT_AUTHORIZED'' then 2 else if s = ''MALFORMED_REQUEST'' then 3
      else if s = ''UNSUPP_OPCODE'' then 4 else if s = ''UNSUPP_OPTION'' then 5
      else if s = ''MALFORMED_OPTION'' then 6 else if s = ''NETWORK_FAILURE'' then 7
      else if s = ''NO_RESOURCES'' then 8 else if s = ''UNSUPP_PROTOCOL'' then 9
      else if s = ''USER_EX_QUOTA'' then 10 else if s = ''CANNOT_PROVIDE_EXTERNAL'' then 11
      else if s = ''ADDRESS_MISMATCH'' then 12 else if s = ''EXCESSIVE_REMOTE_PEERS'' then 13
      else word_of_nat (read_nat (butlast (drop 8 s))))"

text \<open>
  The text of a result code identifies it: reading the text gives the code back, so no two of
  the 256 codes print alike, the unknown ones included.
\<close>

theorem result_code_string_roundtrip: "code_of_string (ResultCodeString code) = code"
proof -
  have unknown: "code_of_string (''UNKNOWN('' @ show_nat (unat code) @ '')'') = code"
    by (simp add: code_of_string_def read_show_nat butlast_append)
  show ?thesis
  proof (cases "code \<in> {0, 1, 2, 3, 4, 5, 6, 7, 8, 9, 10, 11, 12, 13}")
    case True
    then show ?thesis
      by (elim insertE emptyE)
        (simp_all add: ResultCodeString_def result_consts code_of_string_def)
  next
    case False
    then have "ResultCodeString code = ''UNKNOWN('' @ show_nat (unat code) @ '')''"
      by (simp add: ResultCodeString_def result_consts)
    then show ?thesis by (simp only: unknown)
  qed
qed

end
