(* ===== verification/Go_Float.thy ===== *)
theory Go_Float
  imports Prelude "HOL-Library.Log_Nat" "HOL-Library.Signed_Division"
begin

text \<open>
  The \<open>float64\<close> arithmetic the program does on durations: rounding to 53 significant bits,
  ties to even. The values involved are zero or lie between \<open>10 ^ -9\<close> and \<open>10 ^ 13\<close>, so
  subnormals, infinities and NaN do not arise and the exponent is left unbounded. Numbers are
  exact rationals, so that the functions evaluate.
\<close>

type_synonym duration = int

definition second :: duration where
  "second = 10 ^ 9"

section \<open>Rounding to 53 bits\<close>

definition flog2 :: "rat \<Rightarrow> int" where
  "flog2 x =
     (let (a, b) = quotient_of x; e = bitlen a - bitlen b
      in if 2 powi e \<le> x then e else e - 1)"

definition round_half_even :: "rat \<Rightarrow> int" where
  "round_half_even x =
     (let f = \<lfloor>x\<rfloor>; r = x - of_int f
      in if r < 1 / 2 then f else if r > 1 / 2 then f + 1 else if even f then f else f + 1)"

definition ulp :: "rat \<Rightarrow> rat" where
  "ulp x = 2 powi (flog2 x - 52)"

definition fl :: "rat \<Rightarrow> rat" where
  "fl x =
     (if x = 0 then 0
      else if x < 0 then - (of_int (round_half_even (- x / ulp (- x))) * ulp (- x))
      else of_int (round_half_even (x / ulp x)) * ulp x)"

lemma bitlen_rat:
  assumes "0 < a"
  shows "2 powi (bitlen a - 1) \<le> (of_int a :: rat)" and "(of_int a :: rat) < 2 powi bitlen a"
proof -
  note b = bitlen_bounds [OF assms]
  have "0 < bitlen a"
  proof (rule ccontr)
    assume "\<not> 0 < bitlen a"
    with b assms show False by simp
  qed
  then have n: "nat (bitlen a - 1) = nat (bitlen a) - 1" "0 \<le> bitlen a - 1" "0 \<le> bitlen a"
    by simp_all
  have "of_int (2 ^ nat (bitlen a - 1)) \<le> (of_int a :: rat)"
    and "(of_int a :: rat) < of_int (2 ^ nat (bitlen a))"
    using b by (simp_all only: of_int_le_iff of_int_less_iff)
  then show "2 powi (bitlen a - 1) \<le> (of_int a :: rat)" and "(of_int a :: rat) < 2 powi bitlen a"
    using n by (simp_all add: power_int_def)
qed

lemma flog2_bounds:
  assumes "0 < x"
  shows "2 powi flog2 x \<le> x" and "x < 2 powi (flog2 x + 1)"
proof -
  obtain a b where q: "quotient_of x = (a, b)" by (cases "quotient_of x")
  have b: "0 < b" and x: "x = of_int a / of_int b"
    using q by (simp_all add: quotient_of_denom_pos quotient_of_div)
  have a: "0 < a"
    using assms b x by (simp add: zero_less_divide_iff)
  define e where "e = bitlen a - bitlen b"
  note ba = bitlen_rat [OF a] and bb = bitlen_rat [OF b]
  have pos: "0 < (2::rat) powi i" for i by simp
  have "x < 2 powi bitlen a / 2 powi (bitlen b - 1)"
    unfolding x using ba bb pos b a by (intro frac_less) (simp_all add: less_imp_le)
  moreover have "2 powi (bitlen a - 1) / 2 powi bitlen b \<le> x"
    unfolding x using ba bb b a by (intro frac_le) (simp_all add: less_imp_le)
  ultimately have lt: "x < 2 powi (e + 1)" and ge: "2 powi (e - 1) \<le> x"
    by (simp_all add: e_def algebra_simps flip: power_int_diff)
  have fl: "flog2 x = (if 2 powi e \<le> x then e else e - 1)"
    by (simp add: flog2_def q e_def)
  show "2 powi flog2 x \<le> x" and "x < 2 powi (flog2 x + 1)"
    using lt ge by (simp_all add: fl)
qed

lemma round_half_even_error: "\<bar>of_int (round_half_even x) - x\<bar> \<le> 1 / 2"
proof -
  have "0 \<le> x - of_int \<lfloor>x\<rfloor>" "x - of_int \<lfloor>x\<rfloor> < 1"
    by linarith+
  then show ?thesis
    unfolding round_half_even_def Let_def by (auto simp: abs_le_iff)
qed

lemma round_half_even_of_int [simp]: "round_half_even (of_int n) = n"
  by (simp add: round_half_even_def)

lemma floor_le_round_half_even: "\<lfloor>x\<rfloor> \<le> round_half_even x"
  by (simp add: round_half_even_def Let_def)

lemma ulp_pos [simp]: "0 < ulp x"
  by (simp add: ulp_def)

lemma ulp_nz [simp]: "ulp x \<noteq> 0"
  using ulp_pos [of x] by linarith

lemma fl_error_pos:
  assumes "0 < x"
  shows "\<bar>fl x - x\<bar> \<le> x / 2 ^ 53"
proof -
  have "fl x - x = (of_int (round_half_even (x / ulp x)) - x / ulp x) * ulp x"
    using assms by (simp add: fl_def algebra_simps)
  then have "\<bar>fl x - x\<bar> \<le> 1 / 2 * ulp x"
    by (simp only: abs_mult) (intro mult_mono round_half_even_error, simp_all add: less_imp_le)
  also have "\<dots> = 2 powi flog2 x / 2 ^ 53"
    by (simp add: ulp_def power_int_diff)
  also have "\<dots> \<le> x / 2 ^ 53"
    using flog2_bounds(1) [OF assms] by (intro divide_right_mono) simp_all
  finally show ?thesis .
qed

lemma fl_minus: "fl (- x) = - fl x"
  by (simp add: fl_def)

lemma fl_0 [simp]: "fl 0 = 0"
  by (simp add: fl_def)

lemma fl_error: "\<bar>fl x - x\<bar> \<le> \<bar>x\<bar> / 2 ^ 53"
proof (cases x "0 :: rat" rule: linorder_cases)
  case less
  then show ?thesis
    using fl_error_pos [of "- x"] by (simp add: fl_minus abs_minus_commute)
qed (use fl_error_pos [of x] in auto)

lemma flog2_mono_ge:
  assumes "2 powi k \<le> x" and "0 < x"
  shows "k \<le> flog2 x"
proof (rule ccontr)
  assume "\<not> k \<le> flog2 x"
  then have "(2::rat) powi (flog2 x + 1) \<le> 2 powi k"
    by (intro power_int_increasing) simp_all
  with assms flog2_bounds(2) [OF assms(2)] show False by linarith
qed

lemma flog2_less:
  assumes "x < 2 powi k" and "0 < x"
  shows "flog2 x < k"
proof (rule ccontr)
  assume "\<not> flog2 x < k"
  then have "(2::rat) powi k \<le> 2 powi flog2 x"
    by (intro power_int_increasing) simp_all
  with assms flog2_bounds(1) [OF assms(2)] show False by linarith
qed

text \<open>An integer below \<open>2 ^ 53\<close> is a whole number of ulps of anything above it.\<close>

lemma ulp_fraction:
  assumes "0 < x" and "x < 2 ^ 53"
  obtains k :: nat where "ulp x = 1 / 2 ^ k"
proof
  have "flog2 x < 53"
    using assms by (intro flog2_less) simp_all
  then show "ulp x = 1 / 2 ^ nat (52 - flog2 x)"
    by (simp add: ulp_def power_int_def divide_simps)
qed

lemma fl_ge_int:
  assumes "of_int n \<le> x" and "0 < x" and "x < 2 ^ 53"
  shows "of_int n \<le> fl x"
proof -
  obtain k :: nat where k: "ulp x = 1 / 2 ^ k"
    using ulp_fraction [OF assms(2,3)] by blast
  have "of_int (n * 2 ^ k) \<le> x * 2 ^ k"
    using mult_right_mono [OF assms(1), of "2 ^ k"] by simp
  then have "n * 2 ^ k \<le> round_half_even (x * 2 ^ k)"
    using floor_le_round_half_even [of "x * 2 ^ k"] by (meson le_floor_iff order_trans)
  then have "(of_int (n * 2 ^ k) :: rat) \<le> of_int (round_half_even (x * 2 ^ k))"
    by (simp only: of_int_le_iff)
  then have "of_int n \<le> of_int (round_half_even (x * 2 ^ k)) * (1 / 2 ^ k :: rat)"
    by (simp add: pos_le_divide_eq)
  then show ?thesis
    using assms(2) by (simp add: fl_def k)
qed

lemma fl_of_int:
  assumes "\<bar>n\<bar> < 2 ^ 53"
  shows "fl (of_int n) = of_int n"
proof -
  have pos: "fl (of_int m) = of_int m" if m: "0 < m" "m < 2 ^ 53" for m :: int
  proof -
    have "(of_int m :: rat) < of_int (2 ^ 53)"
      using m(2) by (simp only: of_int_less_iff)
    then have x: "0 < (of_int m :: rat)" "(of_int m :: rat) < 2 ^ 53"
      using m(1) by simp_all
    obtain k :: nat where k: "ulp (of_int m) = 1 / 2 ^ k"
      using ulp_fraction [OF x] by blast
    have "of_int m * 2 ^ k = (of_int (m * 2 ^ k) :: rat)"
      by simp
    then have "round_half_even (of_int m * 2 ^ k) = m * 2 ^ k"
      by (simp only: round_half_even_of_int)
    then show ?thesis
      using m by (simp add: fl_def k)
  qed
  show ?thesis
  proof (cases n "0 :: int" rule: linorder_cases)
    case less
    then show ?thesis using pos [of "- n"] assms by (simp add: fl_minus)
  qed (use pos [of n] assms in simp_all)
qed

section \<open>Durations as seconds\<close>

text \<open>\<open>Duration.Seconds()\<close>: whole seconds plus the nanoseconds as a fraction, in \<open>float64\<close>.\<close>

definition duration_Seconds :: "duration \<Rightarrow> rat" where
  "duration_Seconds d =
     fl (fl (of_int (d sdiv second)) + fl (of_int (d smod second) / 10 ^ 9))"

text \<open>Conversion of a \<open>float64\<close> to an integer type drops the fraction.\<close>

definition trunc_rat :: "rat \<Rightarrow> int" where
  "trunc_rat x = (if 0 \<le> x then \<lfloor>x\<rfloor> else \<lceil>x\<rceil>)"

text \<open>
  \<open>uint32(f)\<close>. When the truncated value does not fit, the language leaves the result to the
  implementation: the parameter \<open>oob\<close> is that choice.
\<close>

definition f64_to_u32 :: "(rat \<Rightarrow> 32 word) \<Rightarrow> rat \<Rightarrow> 32 word" where
  "f64_to_u32 oob x =
     (if 0 \<le> trunc_rat x \<and> trunc_rat x < 2 ^ 32 then word_of_int (trunc_rat x) else oob x)"

lemma trunc_duration_Seconds:
  assumes "0 \<le> d" and "d < 2 ^ 23 * second"
  shows "trunc_rat (duration_Seconds d) = d div second"
proof -
  define s where "s = d div second"
  define r where "r = d mod second"
  have s: "0 \<le> s" "s < 2 ^ 23" and r: "0 \<le> r" "r < 10 ^ 9"
    using assms by (simp_all add: s_def r_def second_def pos_imp_zdiv_nonneg_iff
        div_less_iff_less_mult)
  have dv: "d sdiv second = s" "d smod second = r"
    using assms(1) by (simp_all add: s_def r_def second_def signed_divide_int_def signed_modulo_int_def sgn_if)
  define f where "f = fl (of_int r / 10 ^ 9)"
  define x where "x = of_int s + f"
  have frac: "0 \<le> (of_int r :: rat) / 10 ^ 9" "(of_int r :: rat) / 10 ^ 9 \<le> 1 - 1 / 10 ^ 9"
  proof -
    have "(of_int r :: rat) \<le> of_int (10 ^ 9 - 1)" "(of_int 0 :: rat) \<le> of_int r"
      using r by (simp_all only: of_int_le_iff)
    then show "0 \<le> (of_int r :: rat) / 10 ^ 9" "(of_int r :: rat) / 10 ^ 9 \<le> 1 - 1 / 10 ^ 9"
      by simp_all
  qed
  have "\<bar>f - of_int r / 10 ^ 9\<bar> \<le> 1 / 2 ^ 53"
    using fl_error [of "of_int r / 10 ^ 9"] frac unfolding f_def by (simp add: divide_simps)
  then have f_hi: "f \<le> 1 - 1 / 10 ^ 9 + 1 / 2 ^ 53"
    using frac by linarith
  have f_lo: "0 \<le> f"
    using fl_ge_int [of 0 "of_int r / 10 ^ 9"] frac unfolding f_def
    by (cases "r = 0") auto
  have sr: "(of_int s :: rat) \<le> 2 ^ 23 - 1" "0 \<le> (of_int s :: rat)"
  proof -
    have "(of_int s :: rat) \<le> of_int (2 ^ 23 - 1)" "(of_int 0 :: rat) \<le> of_int s"
      using s by (simp_all only: of_int_le_iff)
    then show "(of_int s :: rat) \<le> 2 ^ 23 - 1" "0 \<le> (of_int s :: rat)"
      by simp_all
  qed
  have x: "0 \<le> x" "of_int s \<le> x" "x < 2 ^ 23 + 1"
    using f_lo f_hi sr by (simp_all add: x_def)
  have eq: "duration_Seconds d = fl x"
    using s by (simp add: duration_Seconds_def dv x_def f_def fl_of_int)
  have lo: "of_int s \<le> fl x"
  proof (cases "x = 0")
    case True
    then show ?thesis using sr f_lo by (simp add: x_def)
  qed (use x fl_ge_int [of s x] in simp)
  have "\<bar>x\<bar> / 2 ^ 53 \<le> (2 ^ 23 + 1) / 2 ^ 53"
    using x by (intro divide_right_mono) simp_all
  then have "fl x \<le> x + (2 ^ 23 + 1) / 2 ^ 53"
    using fl_error [of x] by linarith
  also have "\<dots> < of_int s + 1"
    using f_hi by (simp add: x_def)
  finally have "\<lfloor>fl x\<rfloor> = s" "0 \<le> fl x"
    using lo sr by (simp_all add: floor_unique)
  then show ?thesis
    by (simp add: trunc_rat_def eq s_def)
qed

lemma f64_to_u32_Seconds:
  assumes "0 \<le> d" and "d < 2 ^ 23 * second"
  shows "f64_to_u32 oob (duration_Seconds d) = word_of_int (d div second)"
proof -
  have "0 \<le> d div second" "d div second < 2 ^ 23"
    using assms by (simp_all add: second_def pos_imp_zdiv_nonneg_iff div_less_iff_less_mult)
  then show ?thesis
    by (simp add: f64_to_u32_def trunc_duration_Seconds [OF assms])
qed

end
