(* ===== verification/Pcp_State.thy ===== *)
theory Pcp_State
  imports Pcp_Protocol Go_Float
begin

text \<open>
  \<open>pcp/client.go\<close>: the state of a PCP client and the operations that touch nothing else:
  construction, the local address, the epoch bookkeeping of RFC 6887 section 8.5 and the cached
  external address. A nil map reads like an empty one and is created before its first write, so
  both are the empty map here. A time is a reading of the monotonic clock in nanoseconds; the
  zero \<open>time.Time\<close> is \<open>None\<close>. A mutex is the thread that holds it, if any.
\<close>

section \<open>State\<close>

record mappingKey =
  mk_proto :: byte
  mk_port :: "16 word"

type_synonym mutex = "nat option"

record client =
  c_gateway :: addr
  c_timeout :: duration
  c_localIP :: addr
  c_lastEpoch :: "32 word"
  c_epochTime :: "int option"
  c_externalIP :: addr
  c_epochStateLost :: bool
  c_nonces :: "mappingKey \<rightharpoonup> nonce"
  c_mappingLocks :: "mappingKey \<rightharpoonup> mutex"

definition defaultTimeout :: duration where "defaultTimeout = 3 * second"
definition responseBufferSize :: nat where "responseBufferSize = 128"

definition zero_client :: client where
  "zero_client =
     \<lparr>c_gateway = NoAddr, c_timeout = 0, c_localIP = NoAddr, c_lastEpoch = 0, c_epochTime = None,
      c_externalIP = NoAddr, c_epochStateLost = False, c_nonces = Map.empty,
      c_mappingLocks = Map.empty\<rparr>"

definition NewClientWithTimeout :: "net_ip \<Rightarrow> duration \<Rightarrow> client" where
  "NewClientWithTimeout gateway timeout =
     (case AddrFromSlice gateway of
        None \<Rightarrow> zero_client\<lparr>c_timeout := timeout\<rparr>
      | Some a \<Rightarrow> zero_client\<lparr>c_gateway := addr_Unmap a, c_timeout := timeout\<rparr>)"

definition NewClient :: "net_ip \<Rightarrow> client" where
  "NewClient gateway = NewClientWithTimeout gateway defaultTimeout"

definition SetLocalIP :: "net_ip \<Rightarrow> client \<Rightarrow> client" where
  "SetLocalIP ip c =
     (case AddrFromSlice ip of
        None \<Rightarrow> c\<lparr>c_localIP := NoAddr\<rparr>
      | Some a \<Rightarrow> c\<lparr>c_localIP := addr_Unmap a\<rparr>)"

definition Gateway :: "client \<Rightarrow> net_ip" where
  "Gateway c = (if \<not> addr_IsValid (c_gateway c) then [] else addr_AsSlice (c_gateway c))"

definition getLocalIP :: "client \<Rightarrow> addr or_err" where
  "getLocalIP c =
     (if \<not> addr_IsValid (c_localIP c)
      then Inl (Errorf ''local IP not set for gateway %s'' [AAddr (c_gateway c)])
      else Inr (c_localIP c))"

section \<open>Epoch\<close>

definition LastEpoch :: "client \<Rightarrow> 32 word" where
  "LastEpoch c = c_lastEpoch c"

definition EpochStateLost :: "client \<Rightarrow> bool \<times> client" where
  "EpochStateLost c = (c_epochStateLost c, c\<lparr>c_epochStateLost := False\<rparr>)"

text \<open>
  \<open>oob\<close> is the implementation's choice for a conversion that does not fit (\<open>f64_to_u32\<close>), \<open>now\<close>
  the reading of the clock. The second component is the returned flag.
\<close>

definition updateEpochLocked ::
  "(rat \<Rightarrow> 32 word) \<Rightarrow> int \<Rightarrow> 32 word \<Rightarrow> client \<Rightarrow> client \<times> bool" where
  "updateEpochLocked oob now newEpoch c =
     (let stateLost =
            (case c_epochTime c of
               None \<Rightarrow> False
             | Some t \<Rightarrow>
                 if c_lastEpoch c > 0 then
                   (let clientDelta = f64_to_u32 oob (duration_Seconds (now - t));
                        serverDelta = newEpoch - c_lastEpoch c
                    in clientDelta + 2 < serverDelta - (serverDelta div 16) \<or>
                       serverDelta + 2 < clientDelta - (clientDelta div 16))
                 else False);
          c = (if stateLost then c\<lparr>c_epochStateLost := True\<rparr> else c)
      in (c\<lparr>c_lastEpoch := newEpoch, c_epochTime := Some now\<rparr>, stateLost))"

section \<open>Cached external address\<close>

definition cacheExternalIPLocked :: "addr \<Rightarrow> client \<Rightarrow> client" where
  "cacheExternalIPLocked ip c =
     (if addr_IsValid ip \<and> \<not> addr_IsUnspecified ip then c\<lparr>c_externalIP := ip\<rparr> else c)"

section \<open>Frame facts\<close>

lemma updateEpochLocked_frame [simp]:
  "c_nonces (fst (updateEpochLocked oob now e c)) = c_nonces c"
  "c_mappingLocks (fst (updateEpochLocked oob now e c)) = c_mappingLocks c"
  "c_gateway (fst (updateEpochLocked oob now e c)) = c_gateway c"
  "c_localIP (fst (updateEpochLocked oob now e c)) = c_localIP c"
  "c_timeout (fst (updateEpochLocked oob now e c)) = c_timeout c"
  "c_externalIP (fst (updateEpochLocked oob now e c)) = c_externalIP c"
  "c_lastEpoch (fst (updateEpochLocked oob now e c)) = e"
  "c_epochTime (fst (updateEpochLocked oob now e c)) = Some now"
  by (simp_all add: updateEpochLocked_def Let_def)

lemma updateEpochLocked_flag [simp]:
  "c_epochStateLost (fst (updateEpochLocked oob now e c)) \<longleftrightarrow>
     c_epochStateLost c \<or> snd (updateEpochLocked oob now e c)"
  by (simp add: updateEpochLocked_def Let_def)

lemma cacheExternalIPLocked_frame [simp]:
  "c_nonces (cacheExternalIPLocked ip c) = c_nonces c"
  "c_mappingLocks (cacheExternalIPLocked ip c) = c_mappingLocks c"
  "c_gateway (cacheExternalIPLocked ip c) = c_gateway c"
  "c_localIP (cacheExternalIPLocked ip c) = c_localIP c"
  "c_timeout (cacheExternalIPLocked ip c) = c_timeout c"
  "c_lastEpoch (cacheExternalIPLocked ip c) = c_lastEpoch c"
  "c_epochTime (cacheExternalIPLocked ip c) = c_epochTime c"
  "c_epochStateLost (cacheExternalIPLocked ip c) = c_epochStateLost c"
  by (simp_all add: cacheExternalIPLocked_def)

lemma SetLocalIP_frame [simp]:
  "c_nonces (SetLocalIP ip c) = c_nonces c"
  "c_mappingLocks (SetLocalIP ip c) = c_mappingLocks c"
  "c_gateway (SetLocalIP ip c) = c_gateway c"
  "c_timeout (SetLocalIP ip c) = c_timeout c"
  "c_externalIP (SetLocalIP ip c) = c_externalIP c"
  by (simp_all add: SetLocalIP_def split: option.split)

section \<open>The epoch test against RFC 6887, section 8.5\<close>

text \<open>
  The RFC's test over unbounded integers, without its first clause (an epoch that went backwards):
  \<open>cd\<close> and \<open>sd\<close> are the seconds that passed for the client and for the server.
\<close>

definition epoch_drift :: "int \<Rightarrow> int \<Rightarrow> bool" where
  "epoch_drift cd sd \<longleftrightarrow> cd + 2 < sd - sd div 16 \<or> sd + 2 < cd - cd div 16"

lemma uint_minus_div16: "uint (w - w div 16) = uint w - uint w div 16" for w :: "32 word"
proof -
  have d: "uint (w div 16) = uint w div 16"
    by (simp add: uint_div)
  have "0 \<le> uint w" by simp
  then have "uint w div 16 \<le> uint w" by linarith
  then have "w div 16 \<le> w"
    by (simp add: word_le_def d)
  then show ?thesis
    by (simp add: uint_minus_simple_alt d)
qed

lemma uint_plus_2: "uint w + 2 < 2 ^ 32 \<Longrightarrow> uint (w + 2) = uint w + 2" for w :: "32 word"
  by (simp add: uint_word_ariths)

lemma drift_word:
  fixes cd sd :: "32 word"
  assumes "uint cd + 2 < 2 ^ 32" and "uint sd + 2 < 2 ^ 32"
  shows "cd + 2 < sd - sd div 16 \<or> sd + 2 < cd - cd div 16 \<longleftrightarrow> epoch_drift (uint cd) (uint sd)"
  using assms by (simp add: word_less_def uint_minus_div16 uint_plus_2 epoch_drift_def)

text \<open>The client's elapsed seconds, exact for the first 97 days.\<close>

lemma clientDelta_exact:
  assumes "0 \<le> d" and "d < 2 ^ 23 * second"
  shows "uint (f64_to_u32 oob (duration_Seconds d)) = d div second"
    and "d div second < 2 ^ 23"
proof -
  have b: "0 \<le> d div second" "d div second < 2 ^ 23"
    using assms by (simp_all add: second_def pos_imp_zdiv_nonneg_iff div_less_iff_less_mult)
  then show "uint (f64_to_u32 oob (duration_Seconds d)) = d div second"
    by (simp add: f64_to_u32_Seconds [OF assms] uint_word_of_int_eq take_bit_int_eq_self)
  show "d div second < 2 ^ 23" by (fact b)
qed

lemma updateEpochLocked_lost:
  "snd (updateEpochLocked oob now e c) \<longleftrightarrow>
     (\<exists>t. c_epochTime c = Some t \<and> c_lastEpoch c > 0 \<and>
       (let cd = f64_to_u32 oob (duration_Seconds (now - t)); sd = e - c_lastEpoch c
        in cd + 2 < sd - sd div 16 \<or> sd + 2 < cd - cd div 16))"
  by (auto simp: updateEpochLocked_def Let_def split: option.splits)

lemma epoch_forward_iff:
  assumes "c_epochTime c = Some t" and "0 < c_lastEpoch c"
    and "0 \<le> now - t" and "now - t < 2 ^ 23 * second"
    and "uint (c_lastEpoch c) \<le> uint e" and "uint e - uint (c_lastEpoch c) < 2 ^ 32 - 2"
  shows "snd (updateEpochLocked oob now e c) \<longleftrightarrow>
           epoch_drift ((now - t) div second) (uint e - uint (c_lastEpoch c))"
proof -
  define cd where "cd = f64_to_u32 oob (duration_Seconds (now - t))"
  have cd: "uint cd = (now - t) div second" "(now - t) div second < 2 ^ 23"
    using clientDelta_exact [OF assms(3,4)] by (simp_all add: cd_def)
  have sd: "uint (e - c_lastEpoch c) = uint e - uint (c_lastEpoch c)"
    using assms(5) by (simp add: uint_sub_lem)
  show ?thesis
    using assms(1,2,6) cd sd drift_word [of cd "e - c_lastEpoch c"]
    by (simp add: updateEpochLocked_lost cd_def [symmetric])
qed

section \<open>Properties\<close>

text \<open>
  A client that saw epoch 100 at time 0, and what amd64 makes of a conversion that does not fit, for
  the witnesses.
\<close>

definition oob_amd64 :: "rat \<Rightarrow> 32 word" where
  "oob_amd64 x = word_of_int (trunc_rat x)"

definition client_at_100 :: client where
  "client_at_100 = zero_client\<lparr>c_lastEpoch := 100, c_epochTime := Some 0\<rparr>"

text \<open>
  C14. What the 32-bit and floating-point test of \<open>updateEpochLocked\<close> decides, when the server's epoch
  did not decrease and the responses are less than 97 days apart: exactly the drift condition of RFC 6887
  section 8.5 over unbounded integers, without any overflow or rounding that changes the verdict, except
  that a last epoch of 0 is taken for none seen, and then no loss is ever reported.
\<close>

theorem epoch_check_rfc:
  assumes "c_epochTime c = Some t"
    and "0 \<le> now - t" and "now - t < 2 ^ 23 * second"
    and "uint (c_lastEpoch c) \<le> uint e" and "uint e - uint (c_lastEpoch c) < 2 ^ 32 - 2"
  shows "snd (updateEpochLocked oob now e c) \<longleftrightarrow>
           0 < c_lastEpoch c \<and>
           (let cd = (now - t) div second; sd = uint e - uint (c_lastEpoch c)
            in cd + 2 < sd - sd div 16 \<or> sd + 2 < cd - cd div 16)"
proof (cases "0 < c_lastEpoch c")
  case True
  with epoch_forward_iff [OF assms(1) True assms(2-5)] show ?thesis by (simp add: Let_def epoch_drift_def)
next
  case False
  then show ?thesis by (simp add: updateEpochLocked_lost)
qed

theorem epoch_check_rfc_witness:
  "snd (updateEpochLocked oob_amd64 (60 * second) 103 client_at_100)
   \<and> \<not> snd (updateEpochLocked oob_amd64 (60 * second) 159 client_at_100)
   \<and> \<not> snd (updateEpochLocked oob_amd64 (60 * second) 3 (client_at_100\<lparr>c_lastEpoch := 0\<rparr>))"
proof (intro conjI)
  show "snd (updateEpochLocked oob_amd64 (60 * second) 103 client_at_100)"
    by (subst epoch_check_rfc [where t = 0]) (simp_all add: client_at_100_def second_def)
  show "\<not> snd (updateEpochLocked oob_amd64 (60 * second) 159 client_at_100)"
    by (subst epoch_check_rfc [where t = 0]) (simp_all add: client_at_100_def second_def)
  show "\<not> snd (updateEpochLocked oob_amd64 (60 * second) 3 (client_at_100\<lparr>c_lastEpoch := 0\<rparr>))"
    by (subst epoch_check_rfc [where t = 0]) (simp_all add: client_at_100_def second_def)
qed

text \<open>
  An epoch that went backwards is reported as lost state, by however little it went back,
  as long as the old epoch is below \<open>2 ^ 31\<close> (68 years of server uptime) and the responses are
  less than 97 days apart: the unsigned difference wraps to a value the drift test rejects.
\<close>

theorem epoch_backwards_detected:
  assumes "c_epochTime c = Some t" and "uint (c_lastEpoch c) \<le> 2 ^ 31"
    and "uint e < uint (c_lastEpoch c)"
    and "0 \<le> now - t" and "now - t < 2 ^ 23 * second"
  shows "snd (updateEpochLocked oob now e c) \<and>
         c_epochStateLost (fst (updateEpochLocked oob now e c))"
proof -
  define cd where "cd = f64_to_u32 oob (duration_Seconds (now - t))"
  define sd where "sd = e - c_lastEpoch c"
  have cd: "uint cd < 2 ^ 23"
    using clientDelta_exact [OF assms(4,5)] by (simp add: cd_def)
  have sd: "uint sd = uint e - uint (c_lastEpoch c) + 2 ^ 32"
    using assms(3) by (simp add: sd_def uint_sub_if')
  moreover have "(2 :: int) ^ 32 = 2 ^ 31 + 2 ^ 31" by simp
  ultimately have "2 ^ 31 \<le> uint sd"
    using assms(2) uint_nonnegative [of e] by linarith
  then have "uint cd + 2 < uint sd - uint sd div 16"
    using cd by simp
  moreover have "uint (cd + 2) = uint cd + 2"
    using cd by (simp add: uint_plus_2)
  ultimately have "cd + 2 < sd - sd div 16"
    by (simp add: word_less_def uint_minus_div16)
  moreover have "0 < c_lastEpoch c"
    using order_le_less_trans [OF uint_nonnegative assms(3)] by (simp add: word_less_def)
  ultimately show ?thesis
    using assms(1) by (simp add: updateEpochLocked_lost Let_def cd_def [symmetric] sd_def [symmetric])
qed

theorem epoch_backwards_detected_witness:
  "snd (updateEpochLocked oob_amd64 second 99 client_at_100)"
  using epoch_backwards_detected [of client_at_100 0 99 second oob_amd64]
  by (simp add: client_at_100_def second_def)



text \<open>Consecutive responses: the client after them, and which of them were found to show a loss.\<close>

fun epoch_run :: "(rat \<Rightarrow> 32 word) \<Rightarrow> (int \<times> 32 word) list \<Rightarrow> client \<Rightarrow> client \<times> bool list" where
  "epoch_run oob [] c = (c, [])"
| "epoch_run oob ((now, e) # us) c =
     (let (c', lost) = updateEpochLocked oob now e c; (c'', ls) = epoch_run oob us c'
      in (c'', lost # ls))"

lemma epoch_run_flag:
  "c_epochStateLost (fst (epoch_run oob us c)) \<longleftrightarrow>
     c_epochStateLost c \<or> True \<in> set (snd (epoch_run oob us c))"
proof (induction us arbitrary: c)
  case (Cons u us)
  then show ?case by (cases u) (auto simp: split_def Let_def)
qed simp

text \<open>
  A detected loss is never missed and is reported once: after any sequence of responses,
  \<open>EpochStateLost\<close> answers true iff the flag was already up or one of them showed a loss, and the
  next call answers false.
\<close>

theorem epoch_loss_reported_once:
  "fst (EpochStateLost (fst (epoch_run oob us c))) =
     (c_epochStateLost c \<or> True \<in> set (snd (epoch_run oob us c)))
   \<and> \<not> fst (EpochStateLost (snd (EpochStateLost (fst (epoch_run oob us c)))))"
  by (simp add: EpochStateLost_def epoch_run_flag)

text \<open>
  An epoch of 0 disables the test for the next response: a server whose last epoch was 0 is
  never reported, whatever epoch follows and however late.
\<close>

theorem epoch_zero_unchecked:
  assumes "c_lastEpoch c = 0"
  shows "\<not> snd (updateEpochLocked oob now e c)"
  using assms by (simp add: updateEpochLocked_lost)

theorem epoch_zero_unchecked_witness:
  "epoch_drift 3600 7 \<and>
   \<not> snd (updateEpochLocked oob_amd64 (3600 * second) 7
            (zero_client\<lparr>c_lastEpoch := 0, c_epochTime := Some 0\<rparr>))"
  using epoch_zero_unchecked [of "zero_client\<lparr>c_lastEpoch := 0, c_epochTime := Some 0\<rparr>"]
  by (simp add: epoch_drift_def)

end
