(* ===== verification/Pcp_Transport.thy ===== *)
theory Pcp_Transport
  imports Pcp_State
begin

text \<open>
  \<open>pcp/client.go\<close>: one UDP exchange (\<open>sendOnce\<close>), the retransmission schedule
  (\<open>retryDelayWithJitter\<close>) and the retry loop (\<open>sendRequest\<close>). What the network, the operating
  system and the context answer is an argument: the record \<open>once_io\<close> holds the answers to the
  calls of one attempt, \<open>send_io\<close> those of a whole request. The reply may depend on the packet
  sent, so that a server can be plugged in. Besides its result an operation returns the list of
  what it did to the outside.
\<close>

section \<open>The outside\<close>

record udp_addr =
  ua_IP :: net_ip
  ua_Port :: int
  ua_Zone :: string

record datagram =
  dg_IP :: net_ip
  dg_Port :: int
  dg_Data :: bytes

datatype net_event = SetDeadline duration | Send udp_addr bytes | Wait duration

record once_io =
  io_ctx :: "ctx_err option"
  io_listen :: "go_err option"
  io_remaining :: "duration option"
  io_ctx_deadline :: "ctx_err option"
  io_set_deadline :: "go_err option"
  io_write :: "go_err option"
  io_read :: "bytes \<Rightarrow> datagram or_err"
  io_ctx_read :: "ctx_err option"

record send_io =
  s_once :: "nat \<Rightarrow> once_io"
  s_ctx_after :: "nat \<Rightarrow> ctx_err option"
  s_done :: "nat \<Rightarrow> ctx_err option"
  s_jitter :: "nat \<Rightarrow> byte"
  s_fma :: bool

section \<open>One attempt\<close>

text \<open>
  The result is Go's pair \<open>([]byte, error)\<close>, not a sum: when the deadline has passed but the
  context does not report it yet, both components are nil.
\<close>

definition sendOnce ::
  "once_io \<Rightarrow> udp_addr \<Rightarrow> bytes \<Rightarrow> client \<Rightarrow> (bytes \<times> go_err option) \<times> net_event list" where
  "sendOnce io addr req c =
     (case io_ctx io of
        Some e \<Rightarrow> (([], Some (CtxErr e)), [])
      | None \<Rightarrow>
     (case io_listen io of
        Some e \<Rightarrow> (([], Some (Errorf ''listen: %w'' [AErr e])), [])
      | None \<Rightarrow>
        let timeout = (if c_timeout c \<le> 0 then defaultTimeout else c_timeout c);
            expired = (case io_remaining io of Some remaining \<Rightarrow> remaining \<le> 0 | None \<Rightarrow> False)
        in if expired then (([], map_option CtxErr (io_ctx_deadline io)), [])
           else
             let timeout = (case io_remaining io of
                              Some remaining \<Rightarrow> if remaining < timeout then remaining else timeout
                            | None \<Rightarrow> timeout)
             in case io_set_deadline io of
                  Some e \<Rightarrow> (([], Some (Errorf ''set deadline: %w'' [AErr e])), [])
                | None \<Rightarrow>
               (case io_write io of
                  Some e \<Rightarrow> (([], Some (Errorf ''write: %w'' [AErr e])), [SetDeadline timeout])
                | None \<Rightarrow>
               (case io_read io req of
                  Inl e \<Rightarrow>
                    (case io_ctx_read io of
                       Some ce \<Rightarrow> (([], Some (CtxErr ce)), [SetDeadline timeout, Send addr req])
                     | None \<Rightarrow> (([], Some (Errorf ''read: %w'' [AErr e])),
                                [SetDeadline timeout, Send addr req]))
                | Inr dg \<Rightarrow>
                    if \<not> ip_Equal (dg_IP dg) (ua_IP addr)
                    then (([], Some (Errorf ''response from unexpected source %s (expected %s)''
                                       [AIP (dg_IP dg), AIP (ua_IP addr)])),
                          [SetDeadline timeout, Send addr req])
                    else ((take responseBufferSize (dg_Data dg), None),
                          [SetDeadline timeout, Send addr req])))))"

section \<open>Retransmission\<close>

definition initialRetryDelay :: duration where "initialRetryDelay = 3 * second"
definition maxRetryDelay :: duration where "maxRetryDelay = 1024 * second"
definition maxRetries :: nat where "maxRetries = 4"

text \<open>
  \<open>b\<close> is the random byte. \<open>fma\<close> says whether the compiler contracts the product and the
  subtraction into one operation, which the language allows.
\<close>

definition jitter_of :: "bool \<Rightarrow> byte \<Rightarrow> rat" where
  "jitter_of fma b =
     (let q = fl (of_nat (unat b) / 255)
      in if fma then fl (q * fl (1 / 5) - fl (1 / 10))
         else fl (fl (q * fl (1 / 5)) - fl (1 / 10)))"

definition retryDelayWithJitter :: "bool \<Rightarrow> byte \<Rightarrow> duration \<Rightarrow> duration" where
  "retryDelayWithJitter fma b d = trunc_rat (fl (fl (of_int d) * fl (1 + jitter_of fma b)))"

definition request_failed :: "go_err option \<Rightarrow> go_err" where
  "request_failed lastErr =
     Errorf ''PCP request failed after %d retries: %w''
       (AInt (int maxRetries) # (case lastErr of Some e \<Rightarrow> [AErr e] | None \<Rightarrow> []))"

function send_attempts ::
  "send_io \<Rightarrow> udp_addr \<Rightarrow> bytes \<Rightarrow> client \<Rightarrow> nat \<Rightarrow> duration \<Rightarrow> go_err option
   \<Rightarrow> bytes or_err \<times> net_event list" where
  "send_attempts io addr req c attempt delay lastErr =
     (if attempt < maxRetries then
        (let ((resp, err), evs) = sendOnce (s_once io attempt) addr req c
         in case err of
              None \<Rightarrow> (Inr resp, evs)
            | Some e \<Rightarrow>
                (case s_ctx_after io attempt of
                   Some ce \<Rightarrow> (Inl (CtxErr ce), evs)
                 | None \<Rightarrow>
                     if attempt = maxRetries - 1 then (Inl (request_failed (Some e)), evs)
                     else
                       (case s_done io attempt of
                          Some ce \<Rightarrow> (Inl (CtxErr ce), evs)
                        | None \<Rightarrow>
                            let (r, evs') = send_attempts io addr req c (Suc attempt)
                                              (min (delay * 2) maxRetryDelay) (Some e)
                            in (r, evs @ Wait (retryDelayWithJitter (s_fma io) (s_jitter io attempt) delay)
                                     # evs'))))
      else (Inl (request_failed lastErr), []))"
  by pat_completeness auto
termination
  by (relation "measure (\<lambda>(io, addr, req, c, attempt, delay, lastErr). maxRetries - attempt)") auto

declare send_attempts.simps [simp del]

definition gateway_udp :: "client \<Rightarrow> udp_addr" where
  "gateway_udp c =
     \<lparr>ua_IP = addr_AsSlice (c_gateway c), ua_Port = Port, ua_Zone = addr_Zone (c_gateway c)\<rparr>"

definition sendRequest :: "send_io \<Rightarrow> bytes \<Rightarrow> client \<Rightarrow> bytes or_err \<times> net_event list" where
  "sendRequest io req c =
     (if \<not> addr_IsValid (c_gateway c) then (Inl (ErrNew ''gateway IP not set''), [])
      else send_attempts io (gateway_udp c) req c 0 initialRetryDelay None)"

section \<open>Rounding in the jitter\<close>

definition eps53 :: rat where "eps53 = 1 / 2 ^ 53"

lemma eps53: "0 < eps53" "eps53 \<le> 1 / 1000000000000000"
  by (simp_all add: eps53_def)

lemma fl_near:
  assumes "\<bar>x\<bar> \<le> b"
  shows "\<bar>fl x - x\<bar> \<le> b * eps53"
proof -
  have "\<bar>x\<bar> / 2 ^ 53 \<le> b / 2 ^ 53"
    using assms by (rule divide_right_mono) simp
  with fl_error [of x] show ?thesis by (simp add: eps53_def)
qed

lemma byte_fraction: "0 \<le> (of_nat (unat b) :: rat) / 255" "(of_nat (unat b) :: rat) / 255 \<le> 1"
  for b :: byte
proof -
  obtain k where k: "unat b = k" "k \<le> 255"
    using unsigned_less [of b, where ?'a = nat] by (cases "unat b \<le> 255") simp_all
  then have "(of_nat k :: rat) \<le> of_nat 255" by (simp only: of_nat_le_iff)
  then show "0 \<le> (of_nat (unat b) :: rat) / 255" "(of_nat (unat b) :: rat) / 255 \<le> 1"
    unfolding k(1) by simp_all
qed

lemma jitter_of_near: "\<bar>jitter_of fma b - (of_nat (unat b) / 255 / 5 - 1 / 10)\<bar> \<le> 4 * eps53"
proof -
  define x :: rat where "x = of_nat (unat b) / 255"
  define q where "q = fl x"
  define a :: rat where "a = fl (1 / 5)"
  define c :: rat where "c = fl (1 / 10)"
  have x: "0 \<le> x" "x \<le> 1" unfolding x_def by (fact byte_fraction)+
  have q: "\<bar>q - x\<bar> \<le> 1 * eps53" unfolding q_def using x by (intro fl_near) linarith
  have a: "\<bar>a - 1 / 5\<bar> \<le> 1 / 5 * eps53" unfolding a_def by (intro fl_near) simp
  have c: "\<bar>c - 1 / 10\<bar> \<le> 1 / 10 * eps53" unfolding c_def by (intro fl_near) simp
  have "\<bar>q\<bar> \<le> 2" using q x eps53 by linarith
  then have "\<bar>q * (a - 1 / 5)\<bar> \<le> 2 * (1 / 5 * eps53)"
    unfolding abs_mult using a by (intro mult_mono) auto
  moreover have "q * (a - 1 / 5) = q * a - q / 5" by (simp add: right_diff_distrib)
  ultimately have qa: "\<bar>q * a - x / 5\<bar> \<le> 3 / 5 * eps53"
    using q by linarith
  then have "\<bar>q * a\<bar> \<le> 1 / 4" using x eps53 by linarith
  then have p: "\<bar>fl (q * a) - q * a\<bar> \<le> 1 / 4 * eps53" by (rule fl_near)
  have j: "\<bar>fl (y - c) - (x / 5 - 1 / 10)\<bar> \<le> 4 * eps53" if y: "\<bar>y - x / 5\<bar> \<le> eps53" for y
  proof -
    have "\<bar>y - c\<bar> \<le> 1" using y c x eps53 by linarith
    then have "\<bar>fl (y - c) - (y - c)\<bar> \<le> 1 * eps53" by (rule fl_near)
    then show ?thesis using y c by linarith
  qed
  have "\<bar>fl (q * a) - x / 5\<bar> \<le> eps53" "\<bar>q * a - x / 5\<bar> \<le> eps53"
    using qa p eps53 by linarith+
  then show ?thesis
    unfolding jitter_of_def Let_def x_def [symmetric] q_def [symmetric] a_def [symmetric]
      c_def [symmetric]
    by (cases fma) (simp_all only: if_True if_False j)
qed

lemma retryDelayWithJitter_bounds:
  assumes "0 < d" and "d \<le> maxRetryDelay"
  shows "9 * d - 10 \<le> 10 * retryDelayWithJitter fma b d"
    and "10 * retryDelayWithJitter fma b d \<le> 11 * d"
proof -
  define j where "j = jitter_of fma b"
  define m where "m = fl (1 + j)"
  define D :: rat where "D = of_int d"
  define x :: rat where "x = of_nat (unat b) / 255"
  have "0 \<le> x" "x \<le> 1" unfolding x_def by (fact byte_fraction)+
  moreover have "\<bar>j - (x / 5 - 1 / 10)\<bar> \<le> 4 * eps53"
    unfolding j_def x_def by (rule jitter_of_near)
  ultimately have j: "- 1 / 10 - 4 * eps53 \<le> j" "j \<le> 1 / 10 + 4 * eps53"
    by linarith+
  then have "\<bar>fl (1 + j) - (1 + j)\<bar> \<le> 2 * eps53"
    using eps53 by (intro fl_near) linarith
  then have m: "9 / 10 - 6 * eps53 \<le> m" "m \<le> 11 / 10 + 6 * eps53"
    using j unfolding m_def by linarith+
  have "(of_int d :: rat) \<le> of_int (1024 * 10 ^ 9)" "(of_int 0 :: rat) < of_int d"
    using assms by (simp_all only: of_int_le_iff of_int_less_iff maxRetryDelay_def second_def)
  then have D: "0 < D" "D \<le> 1024 * 10 ^ 9" by (simp_all add: D_def)
  have "fl D = D"
    using assms by (simp add: D_def fl_of_int maxRetryDelay_def second_def)
  then have r: "retryDelayWithJitter fma b d = trunc_rat (fl (D * m))"
    by (simp add: retryDelayWithJitter_def j_def m_def D_def)
  have De: "D * eps53 \<le> 1 / 800"
    using mult_mono [OF D(2) eps53(2)] eps53 D by simp
  have De0: "0 < D * eps53" using D eps53 by simp
  have "D * (9 / 10 - 6 * eps53) \<le> D * m" "D * m \<le> D * (11 / 10 + 6 * eps53)"
    using D m by (simp_all only: mult_le_cancel_left_pos)
  then have Dm: "9 / 10 * D - 6 * (D * eps53) \<le> D * m" "D * m \<le> 11 / 10 * D + 6 * (D * eps53)"
    by (simp_all add: algebra_simps)
  then have "\<bar>D * m\<bar> \<le> 2 * D" using De De0 m D eps53
    by (simp only: abs_mult) (intro order_trans [OF mult_mono [of "\<bar>D\<bar>" D "\<bar>m\<bar>" 2]], auto)
  then have "\<bar>fl (D * m) - D * m\<bar> \<le> 2 * D * eps53" by (rule fl_near)
  then have lo: "9 / 10 * D - 1 / 100 \<le> fl (D * m)" and hi: "fl (D * m) \<le> 11 / 10 * D + 1 / 100"
    using Dm De De0 unfolding mult.assoc by linarith+
  have "1 \<le> d" using assms(1) by simp
  then have "(of_int 1 :: rat) \<le> D" by (simp only: D_def of_int_le_iff)
  then have rf: "retryDelayWithJitter fma b d = \<lfloor>fl (D * m)\<rfloor>"
    using lo by (simp add: r trunc_rat_def)
  define n where "n = \<lfloor>fl (D * m)\<rfloor>"
  have n: "of_int n \<le> fl (D * m)" "fl (D * m) < of_int n + 1"
    unfolding n_def by linarith+
  have "(of_int (9 * d - 11) :: rat) < of_int (10 * n)"
    using n(2) lo by (simp add: D_def)
  moreover have "(of_int (10 * n) :: rat) < of_int (11 * d + 1)"
    using n(1) hi by (simp add: D_def)
  ultimately have "9 * d - 11 < 10 * n" "10 * n < 11 * d + 1"
    by (simp_all only: of_int_less_iff)
  then show "9 * d - 10 \<le> 10 * retryDelayWithJitter fma b d"
    and "10 * retryDelayWithJitter fma b d \<le> 11 * d"
    by (simp_all add: rf n_def)
qed

section \<open>What one attempt can do\<close>

lemma sendOnce_result:
  assumes "fst (sendOnce io addr req c) = (resp, None)"
  obtains (expired) "resp = []" "io_ctx_deadline io = None"
      "\<exists>r. io_remaining io = Some r \<and> r \<le> 0"
    | (reply) dg where "io_read io req = Inr dg" "ip_Equal (dg_IP dg) (ua_IP addr)"
        "resp = take responseBufferSize (dg_Data dg)"
  using assms
  by (auto simp: sendOnce_def Let_def split: option.splits sum.splits if_splits)

text \<open>The timeout an attempt gets: the client's, cut to what the context leaves.\<close>

definition attempt_timeout :: "once_io \<Rightarrow> client \<Rightarrow> duration" where
  "attempt_timeout io c =
     (let timeout = (if c_timeout c \<le> 0 then defaultTimeout else c_timeout c)
      in case io_remaining io of Some r \<Rightarrow> min r timeout | None \<Rightarrow> timeout)"

lemma sendOnce_events:
  "snd (sendOnce io addr req c) \<in>
     {[], [SetDeadline (attempt_timeout io c)], [SetDeadline (attempt_timeout io c), Send addr req]}"
  by (auto simp: sendOnce_def attempt_timeout_def Let_def min_def
      split: option.splits sum.splits if_splits)

lemma sendOnce_timeout_pos:
  "SetDeadline t \<in> set (snd (sendOnce io addr req c)) \<Longrightarrow> 0 < t"
  by (auto simp: sendOnce_def Let_def defaultTimeout_def second_def
      split: option.splits sum.splits if_splits)

section \<open>The retry loop\<close>

fun is_send :: "net_event \<Rightarrow> bool" where
  "is_send (Send a p) \<longleftrightarrow> True"
| "is_send ev \<longleftrightarrow> False"

fun waits :: "net_event list \<Rightarrow> duration list" where
  "waits [] = []"
| "waits (Wait d # evs) = d # waits evs"
| "waits (ev # evs) = waits evs"

lemma waits_append [simp]: "waits (xs @ ys) = waits xs @ waits ys"
  by (induction xs rule: waits.induct) auto

lemma sendOnce_no_wait [simp]: "waits (snd (sendOnce io addr req c)) = []"
  using sendOnce_events [of io addr req c] by auto

lemma sendOnce_sends_le: "length (filter is_send (snd (sendOnce io addr req c))) \<le> 1"
  using sendOnce_events [of io addr req c] by auto

text \<open>The four ways one round of the loop can go.\<close>

lemma send_attempts_cases:
  fixes io addr req c attempt delay lastErr
  defines "once \<equiv> sendOnce (s_once io attempt) addr req c"
  obtains (exhausted) "maxRetries \<le> attempt"
      "send_attempts io addr req c attempt delay lastErr = (Inl (request_failed lastErr), [])"
    | (answered) resp where "attempt < maxRetries" "fst once = (resp, None)"
      "send_attempts io addr req c attempt delay lastErr = (Inr resp, snd once)"
    | (given_up) resp e err where "attempt < maxRetries" "fst once = (resp, Some e)"
      "(\<exists>ce. err = CtxErr ce \<and> (s_ctx_after io attempt = Some ce \<or> s_done io attempt = Some ce))
       \<or> attempt = maxRetries - 1 \<and> s_ctx_after io attempt = None \<and> err = request_failed (Some e)"
      "send_attempts io addr req c attempt delay lastErr = (Inl err, snd once)"
    | (again) resp e r evs where "Suc attempt < maxRetries" "fst once = (resp, Some e)"
      "s_ctx_after io attempt = None" "s_done io attempt = None"
      "send_attempts io addr req c (Suc attempt) (min (delay * 2) maxRetryDelay) (Some e) = (r, evs)"
      "send_attempts io addr req c attempt delay lastErr =
         (r, snd once @ Wait (retryDelayWithJitter (s_fma io) (s_jitter io attempt) delay) # evs)"
proof (cases "attempt < maxRetries")
  case False
  then show thesis using exhausted by (simp add: send_attempts.simps [of io addr req c attempt])
next
  case lt: True
  obtain resp err evs where s: "once = ((resp, err), evs)"
    by (metis prod.exhaust)
  note unf = send_attempts.simps [of io addr req c attempt delay lastErr]
    s [unfolded once_def] lt
  show thesis
  proof (cases err)
    case None
    then show thesis using answered [of resp] lt s by (simp add: unf)
  next
    case (Some e)
    obtain r evs' where rec: "send_attempts io addr req c (Suc attempt)
        (min (delay * 2) maxRetryDelay) (Some e) = (r, evs')"
      by (metis prod.exhaust)
    show thesis
    proof (cases "s_ctx_after io attempt")
      case ca: (Some ce)
      then show thesis using given_up [of resp e "CtxErr ce"] lt s Some by (simp add: unf)
    next
      case ca: None
      show thesis
      proof (cases "attempt = maxRetries - 1")
        case True
        have "send_attempts io addr req c attempt delay lastErr =
            (Inl (request_failed (Some e)), evs)"
          by (simp add: unf Some ca eqTrueI [OF True] del: One_nat_def)
        then show thesis using given_up [of resp e "request_failed (Some e)"] lt s Some ca True
          by simp
      next
        case False
        then have l: "Suc attempt < maxRetries" using lt by simp
        show thesis
        proof (cases "s_done io attempt")
          case d: (Some ce)
          then show thesis using given_up [of resp e "CtxErr ce"] lt False s Some ca
            by (simp add: unf)
        next
          case d: None
          then show thesis using again [of resp e r evs'] l False s Some ca rec by (simp add: unf)
        qed
      qed
    qed
  qed
qed

text \<open>Induction over the rounds: one case for each way a round can go.\<close>

lemma send_attempts_rule [case_names exhausted answered given_up again]:
  assumes "\<And>attempt delay lastErr. maxRetries \<le> attempt \<Longrightarrow>
      P attempt delay lastErr (Inl (request_failed lastErr)) []"
    and "\<And>attempt delay lastErr resp. attempt < maxRetries \<Longrightarrow>
      fst (sendOnce (s_once io attempt) addr req c) = (resp, None) \<Longrightarrow>
      P attempt delay lastErr (Inr resp) (snd (sendOnce (s_once io attempt) addr req c))"
    and "\<And>attempt delay lastErr resp e err. attempt < maxRetries \<Longrightarrow>
      fst (sendOnce (s_once io attempt) addr req c) = (resp, Some e) \<Longrightarrow>
      (\<exists>ce. err = CtxErr ce \<and> (s_ctx_after io attempt = Some ce \<or> s_done io attempt = Some ce))
       \<or> attempt = maxRetries - 1 \<and> s_ctx_after io attempt = None \<and> err = request_failed (Some e) \<Longrightarrow>
      P attempt delay lastErr (Inl err) (snd (sendOnce (s_once io attempt) addr req c))"
    and "\<And>attempt delay lastErr resp e r evs. Suc attempt < maxRetries \<Longrightarrow>
      fst (sendOnce (s_once io attempt) addr req c) = (resp, Some e) \<Longrightarrow>
      s_ctx_after io attempt = None \<Longrightarrow> s_done io attempt = None \<Longrightarrow>
      P (Suc attempt) (min (delay * 2) maxRetryDelay) (Some e) r evs \<Longrightarrow>
      P attempt delay lastErr r (snd (sendOnce (s_once io attempt) addr req c) @
        Wait (retryDelayWithJitter (s_fma io) (s_jitter io attempt) delay) # evs)"
  shows "P attempt delay lastErr (fst (send_attempts io addr req c attempt delay lastErr))
           (snd (send_attempts io addr req c attempt delay lastErr))"
proof (induction "maxRetries - attempt" arbitrary: attempt delay lastErr rule: less_induct)
  case less
  show ?case
  proof (cases rule: send_attempts_cases [where io = io and addr = addr and req = req and c = c and
        attempt = attempt and delay = delay and lastErr = lastErr])
    case (again resp e r evs)
    have "maxRetries - Suc attempt < maxRetries - attempt"
      using again(1) by simp
    from less [OF this, of "min (delay * 2) maxRetryDelay" "Some e"]
    have "P (Suc attempt) (min (delay * 2) maxRetryDelay) (Some e) r evs"
      by (simp add: again(5))
    from assms(4) [OF again(1-4) this] again(6) show ?thesis by simp
  qed (use assms(1-3) in auto)
qed

lemma send_attempts_packets:
  "\<forall>ev \<in> set (snd (send_attempts io addr req c attempt delay lastErr)).
     is_send ev \<longrightarrow> ev = Send addr req"
proof (rule send_attempts_rule)
  fix attempt
  have once: "\<forall>ev \<in> set (snd (sendOnce (s_once io attempt) addr req c)). is_send ev \<longrightarrow> ev = Send addr req"
    using sendOnce_events [of "s_once io attempt" addr req c] by auto
  then show "\<forall>ev \<in> set (snd (sendOnce (s_once io attempt) addr req c)). is_send ev \<longrightarrow> ev = Send addr req"
    and "\<forall>ev \<in> set (snd (sendOnce (s_once io attempt) addr req c)). is_send ev \<longrightarrow> ev = Send addr req"
    by assumption+
  fix evs :: "net_event list" and d
  assume "\<forall>ev \<in> set evs. is_send ev \<longrightarrow> ev = Send addr req"
  with once show "\<forall>ev \<in> set (snd (sendOnce (s_once io attempt) addr req c) @ Wait d # evs).
      is_send ev \<longrightarrow> ev = Send addr req"
    by auto
qed simp

lemma send_attempts_count:
  "length (filter is_send (snd (send_attempts io addr req c attempt delay lastErr)))
     \<le> maxRetries - attempt"
proof (rule send_attempts_rule
    [where P = "\<lambda>attempt delay lastErr r evs. length (filter is_send evs) \<le> maxRetries - attempt"])
  fix attempt evs d
  note once = sendOnce_sends_le [of "s_once io attempt" addr req c]
  { assume "attempt < maxRetries"
    with once show "length (filter is_send (snd (sendOnce (s_once io attempt) addr req c))) \<le> maxRetries - attempt"
      and "length (filter is_send (snd (sendOnce (s_once io attempt) addr req c))) \<le> maxRetries - attempt"
      by simp_all }
  assume "Suc attempt < maxRetries" "length (filter is_send evs) \<le> maxRetries - Suc attempt"
  with once show "length (filter is_send (snd (sendOnce (s_once io attempt) addr req c) @ Wait d # evs))
      \<le> maxRetries - attempt" by simp
qed simp

lemma send_attempts_answered:
  "fst (send_attempts io addr req c attempt delay lastErr) = Inr resp \<Longrightarrow>
     \<exists>k<maxRetries. fst (sendOnce (s_once io k) addr req c) = (resp, None)"
  using send_attempts_rule [where P = "\<lambda>attempt delay lastErr r evs. r = Inr resp \<longrightarrow>
      (\<exists>k<maxRetries. fst (sendOnce (s_once io k) addr req c) = (resp, None))"]
  by blast

text \<open>The delay before the \<open>k\<close>-th retransmission: \<open>3 * 2 ^ k\<close> seconds, up to 10 per cent off.\<close>

definition jittered :: "nat \<Rightarrow> duration \<Rightarrow> bool" where
  "jittered k w \<longleftrightarrow> 9 * (initialRetryDelay * 2 ^ k) - 10 \<le> 10 * w \<and> 10 * w \<le> 11 * (initialRetryDelay * 2 ^ k)"

lemma retryDelay_jittered:
  "k < 8 \<Longrightarrow> jittered k (retryDelayWithJitter fma b (initialRetryDelay * 2 ^ k))"
proof -
  assume "k < 8"
  then have "(2 :: int) ^ k \<le> 2 ^ 7" by (intro power_increasing) simp_all
  then have "initialRetryDelay * 2 ^ k \<le> maxRetryDelay" "0 < initialRetryDelay * 2 ^ k"
    by (simp_all add: initialRetryDelay_def maxRetryDelay_def second_def)
  from retryDelayWithJitter_bounds [OF this(2,1)] show ?thesis
    by (simp add: jittered_def)
qed

fun all_jittered :: "nat \<Rightarrow> duration list \<Rightarrow> bool" where
  "all_jittered k [] \<longleftrightarrow> True"
| "all_jittered k (w # ws) \<longleftrightarrow> jittered k w \<and> all_jittered (Suc k) ws"

lemma send_attempts_waits:
  "delay = initialRetryDelay * 2 ^ attempt \<Longrightarrow>
     length (waits (snd (send_attempts io addr req c attempt delay lastErr))) \<le> maxRetries - 1 - attempt \<and>
     all_jittered attempt (waits (snd (send_attempts io addr req c attempt delay lastErr)))"
proof -
  let ?P = "\<lambda>attempt delay (lastErr :: go_err option) (r :: bytes or_err) evs.
      delay = initialRetryDelay * 2 ^ attempt \<longrightarrow>
      length (waits evs) \<le> maxRetries - 1 - attempt \<and> all_jittered attempt (waits evs)"
  have "?P attempt delay lastErr (fst (send_attempts io addr req c attempt delay lastErr))
      (snd (send_attempts io addr req c attempt delay lastErr))"
  proof (rule send_attempts_rule [where P = ?P])
    fix attempt delay and lastErr :: "go_err option" and e r evs
    assume lt: "Suc attempt < maxRetries"
      and IH: "?P (Suc attempt) (min (delay * 2) maxRetryDelay) (Some e) r evs"
    show "?P attempt delay lastErr r (snd (sendOnce (s_once io attempt) addr req c) @
        Wait (retryDelayWithJitter (s_fma io) (s_jitter io attempt) delay) # evs)"
    proof
      assume d: "delay = initialRetryDelay * 2 ^ attempt"
      have "(2 :: int) ^ Suc attempt \<le> 2 ^ 3"
        using lt by (intro power_increasing) (simp_all add: maxRetries_def)
      then have "min (delay * 2) maxRetryDelay = initialRetryDelay * 2 ^ Suc attempt"
        by (simp add: d initialRetryDelay_def maxRetryDelay_def second_def)
      with IH lt d show "length (waits (snd (sendOnce (s_once io attempt) addr req c) @
            Wait (retryDelayWithJitter (s_fma io) (s_jitter io attempt) delay) # evs))
            \<le> maxRetries - 1 - attempt \<and>
          all_jittered attempt (waits (snd (sendOnce (s_once io attempt) addr req c) @
            Wait (retryDelayWithJitter (s_fma io) (s_jitter io attempt) delay) # evs))"
        by (auto simp: retryDelay_jittered maxRetries_def)
    qed
  qed simp_all
  then show "delay = initialRetryDelay * 2 ^ attempt \<Longrightarrow> ?thesis" by simp
qed

text \<open>The time an operation may block: its receive timeouts and its waits.\<close>

fun blocked :: "net_event list \<Rightarrow> duration" where
  "blocked [] = 0"
| "blocked (SetDeadline t # evs) = t + blocked evs"
| "blocked (Wait t # evs) = t + blocked evs"
| "blocked (Send a p # evs) = blocked evs"

definition client_timeout :: "client \<Rightarrow> duration" where
  "client_timeout c = (if c_timeout c \<le> 0 then defaultTimeout else c_timeout c)"

lemma client_timeout_pos: "0 < client_timeout c"
  by (simp add: client_timeout_def defaultTimeout_def second_def)

lemma blocked_append [simp]: "blocked (xs @ ys) = blocked xs + blocked ys"
  by (induction xs rule: blocked.induct) auto

lemma sendOnce_blocked: "blocked (snd (sendOnce io addr req c)) \<le> client_timeout c"
proof -
  have "attempt_timeout io c \<le> client_timeout c"
    by (simp add: attempt_timeout_def client_timeout_def Let_def split: option.split)
  moreover note client_timeout_pos [of c]
  ultimately show ?thesis
    using sendOnce_events [of io addr req c] by auto
qed

lemma send_attempts_blocked:
  "blocked (snd (send_attempts io addr req c attempt delay lastErr))
     \<le> int (maxRetries - attempt) * client_timeout c
       + sum_list (waits (snd (send_attempts io addr req c attempt delay lastErr)))"
proof (rule send_attempts_rule [where P = "\<lambda>attempt delay lastErr r evs.
    blocked evs \<le> int (maxRetries - attempt) * client_timeout c + sum_list (waits evs)"])
  fix attempt evs d
  have b: "blocked (snd (sendOnce (s_once io attempt) addr req c)) \<le> client_timeout c"
    by (rule sendOnce_blocked)
  { assume "attempt < maxRetries"
    then have "client_timeout c \<le> int (maxRetries - attempt) * client_timeout c"
      using client_timeout_pos [of c] by simp
    with b show "blocked (snd (sendOnce (s_once io attempt) addr req c)) \<le>
        int (maxRetries - attempt) * client_timeout c +
        sum_list (waits (snd (sendOnce (s_once io attempt) addr req c)))"
      and "blocked (snd (sendOnce (s_once io attempt) addr req c)) \<le>
        int (maxRetries - attempt) * client_timeout c +
        sum_list (waits (snd (sendOnce (s_once io attempt) addr req c)))"
      by simp_all }
  assume lt: "Suc attempt < maxRetries"
    and IH: "blocked evs \<le> int (maxRetries - Suc attempt) * client_timeout c + sum_list (waits evs)"
  have "int (maxRetries - attempt) * client_timeout c =
      client_timeout c + int (maxRetries - Suc attempt) * client_timeout c"
    using lt by (simp add: algebra_simps of_nat_diff)
  with IH b show "blocked (snd (sendOnce (s_once io attempt) addr req c) @ Wait d # evs) \<le>
      int (maxRetries - attempt) * client_timeout c +
      sum_list (waits (snd (sendOnce (s_once io attempt) addr req c) @ Wait d # evs))"
    by simp
qed simp

lemma answer_from_gateway:
  assumes "fst (sendRequest io req c) = Inr resp" and "resp \<noteq> []"
  shows "\<exists>k<4. \<exists>dg. io_read (s_once io k) req = Inr dg
           \<and> ip_Equal (dg_IP dg) (addr_AsSlice (c_gateway c)) \<and> resp = take 128 (dg_Data dg)"
proof -
  have "addr_IsValid (c_gateway c)"
    using assms(1) by (auto simp: sendRequest_def split: if_splits)
  then have "\<exists>k<maxRetries. fst (sendOnce (s_once io k) (gateway_udp c) req c) = (resp, None)"
    using assms(1) by (intro send_attempts_answered) (simp add: sendRequest_def)
  then obtain k where k: "k < 4" "fst (sendOnce (s_once io k) (gateway_udp c) req c) = (resp, None)"
    by (auto simp: maxRetries_def)
  from k(2) show ?thesis
  proof (cases rule: sendOnce_result)
    case (reply dg)
    with k(1) show ?thesis by (auto simp: gateway_udp_def responseBufferSize_def)
  qed (use assms(2) in simp)
qed

section \<open>Properties\<close>

text \<open>A network on which every receive times out, and the events of a request sent on it.\<close>

definition silent_once :: once_io where
  "silent_once = \<lparr>io_ctx = None, io_listen = None, io_remaining = None, io_ctx_deadline = None,
     io_set_deadline = None, io_write = None, io_read = (\<lambda>_. Inl (ExtErr ''i/o timeout'')),
     io_ctx_read = None\<rparr>"

definition silent_io :: send_io where
  "silent_io = \<lparr>s_once = (\<lambda>_. silent_once), s_ctx_after = (\<lambda>_. None), s_done = (\<lambda>_. None),
     s_jitter = (\<lambda>_. 128), s_fma = False\<rparr>"

definition client_v4 :: client where
  "client_v4 = SetLocalIP [192, 168, 1, 2] (NewClient [192, 168, 1, 1])"

lemma client_v4_fields [simp]:
  "c_gateway client_v4 = Addr4 0xC0A80101" "c_localIP client_v4 = Addr4 0xC0A80102"
  "c_nonces client_v4 = Map.empty" "c_mappingLocks client_v4 = Map.empty"
  "c_timeout client_v4 = defaultTimeout" "c_externalIP client_v4 = NoAddr"
  "c_epochTime client_v4 = None" "c_lastEpoch client_v4 = 0" "c_epochStateLost client_v4 = False"
  by (simp_all add: client_v4_def SetLocalIP_def NewClient_def NewClientWithTimeout_def
      zero_client_def AddrFromSlice_def AddrFrom4_def addr_Unmap_def get_be_def be_nat_def)

definition gateway_v4 :: udp_addr where
  "gateway_v4 = \<lparr>ua_IP = [192, 168, 1, 1], ua_Port = 5351, ua_Zone = []\<rparr>"

lemma gateway_udp_client_v4 [simp]: "gateway_udp client_v4 = gateway_v4"
  by (simp add: gateway_udp_def gateway_v4_def Port_def addr_AsSlice_def addr_Zone_def put_be_def)

lemma silent_attempt: "sendOnce (s_once silent_io k) gateway_v4 req client_v4 =
    (([], Some (Errorf ''read: %w'' [AErr (ExtErr ''i/o timeout'')])),
     [SetDeadline defaultTimeout, Send gateway_v4 req])"
  by (simp add: silent_io_def sendOnce_def silent_once_def Let_def)

lemma silent_request:
  "snd (sendRequest silent_io req client_v4) =
     [SetDeadline defaultTimeout, Send gateway_v4 req,
      Wait (retryDelayWithJitter False 128 initialRetryDelay),
      SetDeadline defaultTimeout, Send gateway_v4 req,
      Wait (retryDelayWithJitter False 128 (initialRetryDelay * 2)),
      SetDeadline defaultTimeout, Send gateway_v4 req,
      Wait (retryDelayWithJitter False 128 (initialRetryDelay * 4)),
      SetDeadline defaultTimeout, Send gateway_v4 req]"
proof -
  have q: "s_ctx_after silent_io k = None" "s_done silent_io k = None"
    "s_jitter silent_io k = 128" "s_fma silent_io = False" for k
    by (simp_all add: silent_io_def)
  have d: "min (initialRetryDelay * 2) maxRetryDelay = initialRetryDelay * 2"
    "min (4 * initialRetryDelay) maxRetryDelay = initialRetryDelay * 4"
    by (simp_all add: initialRetryDelay_def maxRetryDelay_def second_def)
  show ?thesis
    by (simp add: sendRequest_def send_attempts.simps [of silent_io] silent_attempt q d maxRetries_def)
qed

lemma silent_request_fails:
  "fst (sendRequest silent_io req client_v4) =
     Inl (request_failed (Some (Errorf ''read: %w'' [AErr (ExtErr ''i/o timeout'')])))"
proof -
  have q: "s_ctx_after silent_io k = None" "s_done silent_io k = None" for k
    by (simp_all add: silent_io_def)
  show ?thesis
    by (simp add: sendRequest_def send_attempts.simps [of silent_io] silent_attempt q maxRetries_def
        split_def Let_def)
qed

text \<open>A network on which the first attempt receives the datagram \<open>dg\<close>.\<close>

definition reply_io :: "datagram \<Rightarrow> send_io" where
  "reply_io dg = silent_io\<lparr>s_once := \<lambda>_. silent_once\<lparr>io_read := \<lambda>_. Inr dg\<rparr>\<rparr>"

definition dg_v4 :: datagram where
  "dg_v4 = \<lparr>dg_IP = v4InV6Prefix @ [192, 168, 1, 1], dg_Port = 5351, dg_Data = [1, 2]\<rparr>"

lemma reply_request:
  "sendRequest (reply_io dg_v4) req client_v4 =
     (Inr [1, 2], [SetDeadline defaultTimeout, Send gateway_v4 req])"
proof -
  have "sendOnce (s_once (reply_io dg_v4) 0) gateway_v4 req client_v4 =
      (([1, 2], None), [SetDeadline defaultTimeout, Send gateway_v4 req])"
    by (simp add: reply_io_def sendOnce_def silent_once_def Let_def responseBufferSize_def
        ip_Equal_def slice_of_def dg_v4_def gateway_v4_def v4InV6Prefix_def)
  then show ?thesis
    by (simp add: sendRequest_def send_attempts.simps [of "reply_io dg_v4"] maxRetries_def)
qed

text \<open>
  C13. A request costs at most four datagrams, each of them the given packet addressed to port 5351
  of the client's gateway, and at most three pauses between them; the \<open>k\<close>-th pause is \<open>3 * 2 ^ k\<close>
  seconds, give or take the 10 per cent of jitter and one nanosecond of truncation, whatever the
  random bytes are and whether or not the compiler fuses the floating-point operations.
\<close>

theorem send_request_schedule:
  "(\<forall>ev \<in> set (snd (sendRequest io req c)). is_send ev \<longrightarrow>
      ev = Send \<lparr>ua_IP = addr_AsSlice (c_gateway c), ua_Port = 5351,
                ua_Zone = addr_Zone (c_gateway c)\<rparr> req)
   \<and> length (filter is_send (snd (sendRequest io req c))) \<le> 4
   \<and> length (waits (snd (sendRequest io req c))) \<le> 3
   \<and> all_jittered 0 (waits (snd (sendRequest io req c)))"
proof (cases "addr_IsValid (c_gateway c)")
  case True
  note evs = send_attempts_packets [of io "gateway_udp c" req c 0 initialRetryDelay None]
    send_attempts_count [of io "gateway_udp c" req c 0 initialRetryDelay None]
    send_attempts_waits [of initialRetryDelay 0 io "gateway_udp c" req c None]
  from evs True show ?thesis
    by (simp add: sendRequest_def maxRetries_def) (simp add: gateway_udp_def Port_def)
qed (simp add: sendRequest_def)

theorem send_request_schedule_witness:
  "filter is_send (snd (sendRequest silent_io [7] client_v4)) = replicate 4 (Send gateway_v4 [7])
   \<and> (\<exists>d0 d1 d2. waits (snd (sendRequest silent_io [7] client_v4)) = [d0, d1, d2] \<and>
        jittered 0 d0 \<and> jittered 1 d1 \<and> jittered 2 d2)"
  using send_request_schedule [of silent_io "[7]" client_v4]
  by (simp add: silent_request numeral_eq_Suc)

text \<open>
  A request blocks for a bounded time: four receive timeouts and 23.1 seconds of pauses at
  most, which with the default timeout is 35.1 seconds, on every network.
\<close>

theorem send_request_time_bound:
  "10 * blocked (snd (sendRequest io req c)) \<le> 40 * client_timeout c + 231 * second"
proof (cases "addr_IsValid (c_gateway c)")
  case True
  define ws where "ws = waits (snd (sendRequest io req c))"
  have ws: "length ws \<le> 3" "all_jittered 0 ws"
    using send_attempts_waits [of initialRetryDelay 0 io "gateway_udp c" req c None] True
    by (simp_all add: ws_def sendRequest_def maxRetries_def)
  have "10 * sum_list ws \<le> 231 * second"
    using ws by (cases ws; cases "tl ws"; cases "tl (tl ws)"; cases "tl (tl (tl ws))")
      (auto simp: jittered_def initialRetryDelay_def second_def)
  moreover have "blocked (snd (sendRequest io req c)) \<le> 4 * client_timeout c + sum_list ws"
    using send_attempts_blocked [of io "gateway_udp c" req c 0 initialRetryDelay None] True
    by (simp add: ws_def sendRequest_def maxRetries_def)
  ultimately show ?thesis by simp
next
  case False
  then show ?thesis
    using client_timeout_pos [of c] by (simp add: sendRequest_def second_def)
qed

text \<open>
  C5. Only the gateway's address can answer: bytes returned by a request are the first 128 of a
  datagram that one of the four attempts received from an address equal to the gateway's, IPv4 and
  IPv4-mapped forms being equal. Datagrams from other addresses never become a result.
\<close>

theorem send_request_answer_from_gateway:
  assumes "fst (sendRequest io req c) = Inr resp" and "resp \<noteq> []"
  shows "\<exists>k<4. \<exists>dg. io_read (s_once io k) req = Inr dg
           \<and> ip_Equal (dg_IP dg) (addr_AsSlice (c_gateway c)) \<and> resp = take 128 (dg_Data dg)"
  using assms by (rule answer_from_gateway)

theorem send_request_answer_from_gateway_witness:
  "\<exists>dg. io_read (s_once (reply_io dg_v4) 0) [7] = Inr dg
        \<and> ip_Equal (dg_IP dg) (addr_AsSlice (c_gateway client_v4)) \<and> [1, 2] = take 128 (dg_Data dg)"
proof -
  have "fst (sendRequest (reply_io dg_v4) [7] client_v4) = Inr [1, 2]"
    by (simp add: reply_request)
  from send_request_answer_from_gateway [OF this] show ?thesis
    by (auto simp: reply_io_def)
qed

text \<open>
  An attempt whose deadline has passed while the context does not report it yet ends the
  request as a success with no bytes: nothing was sent, and the caller parses an empty response.
\<close>

theorem expired_attempt_succeeds_empty:
  assumes "addr_IsValid (c_gateway c)" and "io_ctx (s_once io 0) = None"
    and "io_listen (s_once io 0) = None" and "io_remaining (s_once io 0) = Some r" and "r \<le> 0"
    and "io_ctx_deadline (s_once io 0) = None"
  shows "sendRequest io req c = (Inr [], [])"
  using assms by (simp add: sendRequest_def send_attempts.simps sendOnce_def maxRetries_def)

theorem expired_attempt_succeeds_empty_witness:
  "sendRequest (silent_io\<lparr>s_once := \<lambda>_. silent_once\<lparr>io_remaining := Some 0\<rparr>\<rparr>) [7] client_v4 =
     (Inr [], [])"
  by (rule expired_attempt_succeeds_empty [where r = 0])
    (simp_all add: addr_defs silent_io_def silent_once_def)

end
