(* ===== verification/Pcp_Client.thy ===== *)
theory Pcp_Client
  imports Pcp_Transport
begin

text \<open>
  \<open>pcp/client.go\<close>: the requests of a PCP client. \<open>addPortMappingWithHint\<close> is cut where the code
  takes and releases its locks: \<open>map_prepare\<close> (arguments, local address, candidate nonce),
  \<open>lockMapping\<close>, \<open>map_begin\<close> (choose and store the nonce under \<open>c.mu\<close>), the exchange,
  \<open>map_check\<close> (validate the response), \<open>map_finish\<close> (epoch, cached address and nonce under
  \<open>c.mu\<close>) and the deferred unlock. The same pieces are the atomic steps of the concurrent model.
  A call that would wait for a mutex somebody else holds is \<open>None\<close>.
\<close>

section \<open>What a call asks of the outside\<close>

text \<open>
  \<open>ci_fresh\<close> is what \<open>rand.Read\<close> yields, \<open>ci_now\<close> the clock when the response is processed,
  \<open>ci_oob\<close> the implementation's out-of-range float conversion.
\<close>

record call_io =
  ci_fresh :: "nonce or_err"
  ci_send :: send_io
  ci_now :: int
  ci_oob :: "rat \<Rightarrow> 32 word"

section \<open>Arguments\<close>

definition protocolNumber :: "string \<Rightarrow> byte or_err" where
  "protocolNumber protocol =
     (if protocol = ''udp'' \<or> protocol = ''UDP'' then Inr ProtoUDP
      else if protocol = ''tcp'' \<or> protocol = ''TCP'' then Inr ProtoTCP
      else Inl (Errorf ''unsupported protocol: %s'' [AStr protocol]))"

definition lifetime_seconds :: "(rat \<Rightarrow> 32 word) \<Rightarrow> duration \<Rightarrow> 32 word" where
  "lifetime_seconds oob lifetime =
     (if lifetime > 0 then
        let lifetimeSec = f64_to_u32 oob (duration_Seconds lifetime)
        in if lifetimeSec = 0 then DefaultLifetime else lifetimeSec
      else 0)"

text \<open>The locals of \<open>addPortMappingWithHint\<close> once its arguments are accepted.\<close>

record map_call =
  mc_localIP :: addr
  mc_proto :: byte
  mc_internalPort :: int
  mc_suggestedExtPort :: int
  mc_suggestedExtIP :: addr
  mc_lifetimeSec :: "32 word"
  mc_fresh :: nonce

definition map_key :: "map_call \<Rightarrow> mappingKey" where
  "map_key mc = \<lparr>mk_proto = mc_proto mc, mk_port = word_of_int (mc_internalPort mc)\<rparr>"

definition map_prepare ::
  "call_io \<Rightarrow> string \<Rightarrow> int \<Rightarrow> int \<Rightarrow> addr \<Rightarrow> duration \<Rightarrow> client \<Rightarrow> map_call or_err" where
  "map_prepare io protocol internalPort suggestedExtPort suggestedExtIP lifetime c =
     (if internalPort \<le> 0 \<or> internalPort > 65535
      then Inl (Errorf ''invalid internal port: %d'' [AInt internalPort])
      else if suggestedExtPort < 0 \<or> suggestedExtPort > 65535
      then Inl (Errorf ''invalid suggested external port: %d'' [AInt suggestedExtPort])
      else case getLocalIP c of
        Inl err \<Rightarrow> Inl (Errorf ''get local IP: %w'' [AErr err])
      | Inr localIP \<Rightarrow>
     (case protocolNumber protocol of
        Inl err \<Rightarrow> Inl (Errorf ''parse protocol: %w'' [AErr err])
      | Inr proto \<Rightarrow>
     (case ci_fresh io of
        Inl err \<Rightarrow> Inl (Errorf ''generate nonce: %w'' [AErr err])
      | Inr fresh \<Rightarrow>
          Inr \<lparr>mc_localIP = localIP, mc_proto = proto, mc_internalPort = internalPort,
               mc_suggestedExtPort = suggestedExtPort, mc_suggestedExtIP = suggestedExtIP,
               mc_lifetimeSec = lifetime_seconds (ci_oob io) lifetime, mc_fresh = fresh\<rparr>)))"

section \<open>The lock of a mapping\<close>

definition lock_entry :: "mappingKey \<Rightarrow> client \<Rightarrow> client" where
  "lock_entry key c =
     (case c_mappingLocks c key of
        Some lock \<Rightarrow> c
      | None \<Rightarrow> c\<lparr>c_mappingLocks := (c_mappingLocks c)(key \<mapsto> None)\<rparr>)"

definition lock_Lock :: "nat \<Rightarrow> mappingKey \<Rightarrow> client \<Rightarrow> client option" where
  "lock_Lock t key c =
     (if c_mappingLocks c key = Some None
      then Some (c\<lparr>c_mappingLocks := (c_mappingLocks c)(key \<mapsto> Some t)\<rparr>) else None)"

definition lock_Unlock :: "mappingKey \<Rightarrow> client \<Rightarrow> client" where
  "lock_Unlock key c = c\<lparr>c_mappingLocks := (c_mappingLocks c)(key \<mapsto> None)\<rparr>"

definition lockMapping :: "nat \<Rightarrow> mappingKey \<Rightarrow> client \<Rightarrow> client option" where
  "lockMapping t key c = lock_Lock t key (lock_entry key c)"

section \<open>The exchange\<close>

definition map_begin :: "map_call \<Rightarrow> client \<Rightarrow> nonce \<times> client" where
  "map_begin mc c =
     (let key = map_key mc;
          nonce = (case c_nonces c key of Some n \<Rightarrow> n | None \<Rightarrow> mc_fresh mc);
          c = (if mc_lifetimeSec mc > 0 then c\<lparr>c_nonces := (c_nonces c)(key \<mapsto> nonce)\<rparr> else c)
      in (nonce, c))"

definition map_request :: "map_call \<Rightarrow> nonce \<Rightarrow> bytes" where
  "map_request mc nonce =
     buildMapRequest (mc_localIP mc) nonce (mc_proto mc) (word_of_int (mc_internalPort mc))
       (word_of_int (mc_suggestedExtPort mc)) (mc_suggestedExtIP mc) (mc_lifetimeSec mc)"

text \<open>The text of a \<open>pcp.Error\<close>, the constructor \<open>PcpError\<close> of \<open>go_err\<close>.\<close>

definition Error_String :: "byte \<Rightarrow> string \<Rightarrow> string" where
  "Error_String code message = ''PCP error: '' @ message @ '' ('' @ show_nat (unat code) @ '')''"

definition map_check :: "map_call \<Rightarrow> nonce \<Rightarrow> bytes or_err \<Rightarrow> map_response or_err" where
  "map_check mc nonce answer =
     (case answer of
        Inl err \<Rightarrow> Inl (Errorf ''send map request: %w'' [AErr err])
      | Inr resp \<Rightarrow>
     (case parseMapResponse resp of
        Inl err \<Rightarrow> Inl (Errorf ''parse map response: %w'' [AErr err])
      | Inr mapResp \<Rightarrow>
          if Nonce mapResp \<noteq> nonce then Inl (ErrNew ''nonce mismatch in response'')
          else if Protocol mapResp \<noteq> mc_proto mc
          then Inl (Errorf ''protocol mismatch: requested %d, got %d''
                      [AInt (uint (mc_proto mc)), AInt (uint (Protocol mapResp))])
          else if InternalPort mapResp \<noteq> word_of_int (mc_internalPort mc)
          then Inl (Errorf ''internal port mismatch: requested %d, got %d''
                      [AInt (mc_internalPort mc), AInt (uint (InternalPort mapResp))])
          else if r_ResultCode mapResp \<noteq> ResultSuccess
          then Inl (PcpError (r_ResultCode mapResp) (ResultCodeString (r_ResultCode mapResp)))
          else Inr mapResp))"

definition map_finish ::
  "(rat \<Rightarrow> 32 word) \<Rightarrow> int \<Rightarrow> map_call \<Rightarrow> map_response \<Rightarrow> client \<Rightarrow> client" where
  "map_finish oob now mc mapResp c =
     (let c = fst (updateEpochLocked oob now (r_Epoch mapResp) c);
          c = cacheExternalIPLocked (ExternalIP mapResp) c
      in if mc_lifetimeSec mc = 0 then c\<lparr>c_nonces := (c_nonces c)(map_key mc := None)\<rparr> else c)"

text \<open>What happens while the lock of the mapping is held.\<close>

definition map_locked ::
  "call_io \<Rightarrow> map_call \<Rightarrow> client \<Rightarrow> map_response or_err \<times> net_event list \<times> client" where
  "map_locked io mc c =
     (let (nonce, c) = map_begin mc c;
          (answer, evs) = sendRequest (ci_send io) (map_request mc nonce) c
      in case map_check mc nonce answer of
           Inl err \<Rightarrow> (Inl err, evs, c)
         | Inr mapResp \<Rightarrow> (Inr mapResp, evs, map_finish (ci_oob io) (ci_now io) mc mapResp c))"

section \<open>Operations\<close>

text \<open>\<open>t\<close> is the calling goroutine.\<close>

definition addPortMappingWithHint ::
  "call_io \<Rightarrow> nat \<Rightarrow> string \<Rightarrow> int \<Rightarrow> int \<Rightarrow> addr \<Rightarrow> duration \<Rightarrow> client
   \<Rightarrow> (map_response or_err \<times> net_event list \<times> client) option" where
  "addPortMappingWithHint io t protocol internalPort suggestedExtPort suggestedExtIP lifetime c =
     (case map_prepare io protocol internalPort suggestedExtPort suggestedExtIP lifetime c of
        Inl err \<Rightarrow> Some (Inl err, [], c)
      | Inr mc \<Rightarrow>
     (case lockMapping t (map_key mc) c of
        None \<Rightarrow> None
      | Some c \<Rightarrow>
          let (r, evs, c) = map_locked io mc c in Some (r, evs, lock_Unlock (map_key mc) c)))"

definition AddPortMapping ::
  "call_io \<Rightarrow> nat \<Rightarrow> string \<Rightarrow> int \<Rightarrow> duration \<Rightarrow> client
   \<Rightarrow> (map_response or_err \<times> net_event list \<times> client) option" where
  "AddPortMapping io t protocol internalPort lifetime c =
     addPortMappingWithHint io t protocol internalPort internalPort NoAddr lifetime c"

text \<open>A nil \<open>net.IP\<close> is the empty slice; an address of another length leaves the zero \<open>Addr\<close>.\<close>

definition AddPortMappingWithHint ::
  "call_io \<Rightarrow> nat \<Rightarrow> string \<Rightarrow> int \<Rightarrow> int \<Rightarrow> net_ip \<Rightarrow> duration \<Rightarrow> client
   \<Rightarrow> (map_response or_err \<times> net_event list \<times> client) option" where
  "AddPortMappingWithHint io t protocol internalPort suggestedExtPort suggestedExtIP lifetime c =
     (let extIP = (case AddrFromSlice suggestedExtIP of Some a \<Rightarrow> addr_Unmap a | None \<Rightarrow> NoAddr)
      in addPortMappingWithHint io t protocol internalPort suggestedExtPort extIP lifetime c)"

definition DeletePortMapping ::
  "call_io \<Rightarrow> nat \<Rightarrow> string \<Rightarrow> int \<Rightarrow> client \<Rightarrow> (go_err option \<times> net_event list \<times> client) option" where
  "DeletePortMapping io t protocol internalPort c =
     (case addPortMappingWithHint io t protocol internalPort 0 NoAddr 0 c of
        None \<Rightarrow> None
      | Some (Inl err, evs, c) \<Rightarrow> Some (Some (Errorf ''delete mapping: %w'' [AErr err]), evs, c)
      | Some (Inr r, evs, c) \<Rightarrow> Some (None, evs, c))"

definition Announce ::
  "call_io \<Rightarrow> client \<Rightarrow> 32 word or_err \<times> net_event list \<times> client" where
  "Announce io c =
     (case getLocalIP c of
        Inl err \<Rightarrow> (Inl (Errorf ''get local IP: %w'' [AErr err]), [], c)
      | Inr localIP \<Rightarrow>
          let req = buildAnnounceRequest localIP;
              (answer, evs) = sendRequest (ci_send io) req c
          in case answer of
               Inl err \<Rightarrow> (Inl (Errorf ''send announce: %w'' [AErr err]), evs, c)
             | Inr resp \<Rightarrow>
            (case parseResponse resp of
               Inl err \<Rightarrow> (Inl (Errorf ''parse announce response: %w'' [AErr err]), evs, c)
             | Inr parsed \<Rightarrow>
                 if r_ResultCode parsed \<noteq> ResultSuccess
                 then (Inl (Errorf ''PCP ANNOUNCE failed: %s''
                              [AStr (ResultCodeString (r_ResultCode parsed))]), evs, c)
                 else (Inr (r_Epoch parsed), evs,
                       fst (updateEpochLocked (ci_oob io) (ci_now io) (r_Epoch parsed) c))))"

text \<open>The port of the temporary mapping, from the low 16 bits of the wall clock.\<close>

definition ephemeral_port :: "int \<Rightarrow> int" where
  "ephemeral_port ns = 49152 + uint (word_of_int ns :: 16 word) mod (65535 - 49152)"

definition GetExternalAddress ::
  "call_io \<Rightarrow> call_io \<Rightarrow> nat \<Rightarrow> int \<Rightarrow> client \<Rightarrow> (net_ip or_err \<times> net_event list \<times> client) option" where
  "GetExternalAddress io_add io_del t ns c =
     (if addr_IsValid (c_externalIP c) then Some (Inr (addr_AsSlice (c_externalIP c)), [], c)
      else
        let ephemeralPort = ephemeral_port ns
        in case AddPortMapping io_add t ''udp'' ephemeralPort second c of
             None \<Rightarrow> None
           | Some (Inl err, evs, c) \<Rightarrow>
               Some (Inl (Errorf ''create temporary mapping: %w'' [AErr err]), evs, c)
           | Some (Inr resp, evs, c) \<Rightarrow>
              (case DeletePortMapping io_del t ''udp'' ephemeralPort c of
                 None \<Rightarrow> None
               | Some (_, evs', c) \<Rightarrow> Some (Inr (addr_AsSlice (ExternalIP resp)), evs @ evs', c)))"

section \<open>Lemmas on the pieces\<close>

lemma sendOnce_cong:
  "c_timeout c = c_timeout c' \<Longrightarrow> sendOnce io addr req c = sendOnce io addr req c'"
  by (simp only: sendOnce_def)

lemma send_attempts_cong:
  assumes "c_timeout c = c_timeout c'"
  shows "send_attempts io addr req c attempt delay lastErr =
         send_attempts io addr req c' attempt delay lastErr"
proof (induction "maxRetries - attempt" arbitrary: attempt delay lastErr rule: less_induct)
  case less
  then have "send_attempts io addr req c (Suc attempt) d e =
      send_attempts io addr req c' (Suc attempt) d e" if "attempt < maxRetries" for d e
    using that by simp
  then show ?case
    by (simp add: send_attempts.simps [of io addr req _ attempt] sendOnce_cong [OF assms]
        split: prod.split option.split)
qed

lemma sendRequest_cong:
  assumes "c_gateway c = c_gateway c'" and "c_timeout c = c_timeout c'"
  shows "sendRequest io req c = sendRequest io req c'"
  by (simp add: sendRequest_def gateway_udp_def assms(1) send_attempts_cong [OF assms(2)])

lemma map_prepare_Inr:
  assumes "map_prepare io protocol ip ep sip lifetime c = Inr mc"
  shows "0 < ip" and "ip \<le> 65535" and "0 \<le> ep" and "ep \<le> 65535"
    and "mc_localIP mc = c_localIP c" and "protocolNumber protocol = Inr (mc_proto mc)"
    and "mc_internalPort mc = ip" and "mc_suggestedExtPort mc = ep"
    and "mc_suggestedExtIP mc = sip" and "ci_fresh io = Inr (mc_fresh mc)"
    and "mc_lifetimeSec mc = lifetime_seconds (ci_oob io) lifetime"
    and "addr_IsValid (c_localIP c)"
  using assms by (auto simp: map_prepare_def getLocalIP_def split: if_splits sum.splits)

lemma lifetime_seconds_eq_0: "lifetime_seconds oob lifetime = 0 \<longleftrightarrow> lifetime \<le> 0"
  by (simp add: lifetime_seconds_def Let_def DefaultLifetime_def)

lemma lifetime_seconds_pos: "0 < lifetime_seconds oob lifetime \<longleftrightarrow> 0 < lifetime"
  using lifetime_seconds_eq_0 [of oob lifetime] by (simp add: word_gt_0 not_le)

lemma lockMapping_Some_iff:
  "lockMapping t key c = Some c' \<longleftrightarrow>
     (c_mappingLocks c key = None \<or> c_mappingLocks c key = Some None) \<and>
     c' = c\<lparr>c_mappingLocks := (c_mappingLocks c)(key \<mapsto> Some t)\<rparr>"
  by (auto simp: lockMapping_def lock_Lock_def lock_entry_def split: option.splits)

lemma lockMapping_None_iff:
  "lockMapping t key c = None \<longleftrightarrow> (\<exists>t'. c_mappingLocks c key = Some (Some t'))"
  by (auto simp: lockMapping_def lock_Lock_def lock_entry_def split: option.splits)

lemma map_begin_nonce:
  "fst (map_begin mc c) = (case c_nonces c (map_key mc) of Some n \<Rightarrow> n | None \<Rightarrow> mc_fresh mc)"
  by (simp add: map_begin_def Let_def)

lemma map_begin_frame [simp]:
  "c_mappingLocks (snd (map_begin mc c)) = c_mappingLocks c"
  "c_gateway (snd (map_begin mc c)) = c_gateway c"
  "c_timeout (snd (map_begin mc c)) = c_timeout c"
  "c_localIP (snd (map_begin mc c)) = c_localIP c"
  "c_externalIP (snd (map_begin mc c)) = c_externalIP c"
  by (simp_all add: map_begin_def Let_def)

lemma map_begin_nonces:
  "c_nonces (snd (map_begin mc c)) =
     (if mc_lifetimeSec mc > 0 then (c_nonces c)(map_key mc \<mapsto> fst (map_begin mc c))
      else c_nonces c)"
  by (simp add: map_begin_def Let_def)

lemma map_beginD:
  assumes "map_begin mc c = (n, c')"
  shows "n = (case c_nonces c (map_key mc) of Some n \<Rightarrow> n | None \<Rightarrow> mc_fresh mc)"
    and "c_nonces c' = (if mc_lifetimeSec mc \<noteq> 0 then (c_nonces c)(map_key mc \<mapsto> n) else c_nonces c)"
    and "c_mappingLocks c' = c_mappingLocks c" and "c_gateway c' = c_gateway c"
    and "c_timeout c' = c_timeout c" and "c_localIP c' = c_localIP c"
    and "c_externalIP c' = c_externalIP c"
  using assms map_begin_nonce [of mc c] map_begin_nonces [of mc c] map_begin_frame [of mc c]
  by (simp_all add: word_gt_0)

lemma map_finish_frame [simp]:
  "c_mappingLocks (map_finish oob now mc r c) = c_mappingLocks c"
  "c_gateway (map_finish oob now mc r c) = c_gateway c"
  "c_timeout (map_finish oob now mc r c) = c_timeout c"
  "c_localIP (map_finish oob now mc r c) = c_localIP c"
  "c_lastEpoch (map_finish oob now mc r c) = r_Epoch r"
  by (simp_all add: map_finish_def Let_def)

lemma map_finish_nonces:
  "c_nonces (map_finish oob now mc r c) =
     (if mc_lifetimeSec mc = 0 then (c_nonces c)(map_key mc := None) else c_nonces c)"
  by (simp add: map_finish_def Let_def)

lemma map_check_Inr_iff:
  "map_check mc nonce answer = Inr r \<longleftrightarrow>
     (\<exists>resp. answer = Inr resp \<and> parseMapResponse resp = Inr r \<and> Nonce r = nonce \<and>
        Protocol r = mc_proto mc \<and> InternalPort r = word_of_int (mc_internalPort mc) \<and>
        r_ResultCode r = ResultSuccess)"
  by (auto simp: map_check_def split: sum.split)

text \<open>The four ways a call can go.\<close>

lemma addPortMapping_cases:
  fixes io t protocol ip ep sip lifetime c
  defines "call \<equiv> addPortMappingWithHint io t protocol ip ep sip lifetime c"
  obtains (rejected) err where "map_prepare io protocol ip ep sip lifetime c = Inl err"
      "call = Some (Inl err, [], c)"
    | (blocked) mc t' where "map_prepare io protocol ip ep sip lifetime c = Inr mc"
      "c_mappingLocks c (map_key mc) = Some (Some t')" "call = None"
    | (ran) mc cl n cb answer evs r c' where
      "map_prepare io protocol ip ep sip lifetime c = Inr mc"
      "c_mappingLocks c (map_key mc) \<in> {None, Some None}"
      "cl = c\<lparr>c_mappingLocks := (c_mappingLocks c)(map_key mc \<mapsto> Some t)\<rparr>"
      "map_begin mc cl = (n, cb)"
      "sendRequest (ci_send io) (map_request mc n) c = (answer, evs)"
      "map_check mc n answer = r"
      "c' = (case r of Inl err \<Rightarrow> cb | Inr m \<Rightarrow> map_finish (ci_oob io) (ci_now io) mc m cb)"
      "call = Some (r, evs, lock_Unlock (map_key mc) c')"
proof (cases "map_prepare io protocol ip ep sip lifetime c")
  case (Inl err)
  then show ?thesis by (intro rejected) (simp_all add: call_def addPortMappingWithHint_def)
next
  case (Inr mc)
  show ?thesis
  proof (cases "lockMapping t (map_key mc) c")
    case None
    then obtain t' where "c_mappingLocks c (map_key mc) = Some (Some t')"
      by (auto simp: lockMapping_None_iff)
    from Inr this show ?thesis
      by (rule blocked) (simp add: call_def addPortMappingWithHint_def Inr None)
  next
    case (Some cl)
    obtain n cb where b: "map_begin mc cl = (n, cb)" by fastforce
    obtain answer evs where s: "sendRequest (ci_send io) (map_request mc n) cb = (answer, evs)"
      by fastforce
    have l: "c_mappingLocks c (map_key mc) \<in> {None, Some None}"
      "cl = c\<lparr>c_mappingLocks := (c_mappingLocks c)(map_key mc \<mapsto> Some t)\<rparr>"
      using Some by (auto simp: lockMapping_Some_iff)
    have "c_gateway cb = c_gateway c" "c_timeout cb = c_timeout c"
      using map_beginD(4,5) [OF b] l(2) by simp_all
    then have s': "sendRequest (ci_send io) (map_request mc n) c = (answer, evs)"
      using s sendRequest_cong by metis
    show ?thesis
      by (rule ran [OF Inr l b s' refl refl])
        (simp add: call_def addPortMappingWithHint_def Inr Some map_locked_def b s split: sum.split)
  qed
qed

section \<open>Frame of a whole call\<close>

definition locks_free :: "client \<Rightarrow> bool" where
  "locks_free c \<longleftrightarrow> (\<forall>key t. c_mappingLocks c key \<noteq> Some (Some t))"

lemma lock_Unlock_frame [simp]:
  "c_nonces (lock_Unlock key c) = c_nonces c"
  "c_gateway (lock_Unlock key c) = c_gateway c"
  "c_timeout (lock_Unlock key c) = c_timeout c"
  "c_localIP (lock_Unlock key c) = c_localIP c"
  "c_externalIP (lock_Unlock key c) = c_externalIP c"
  "c_lastEpoch (lock_Unlock key c) = c_lastEpoch c"
  "c_mappingLocks (lock_Unlock key c) = (c_mappingLocks c)(key \<mapsto> None)"
  by (simp_all add: lock_Unlock_def)

lemma addPortMapping_frame:
  assumes "addPortMappingWithHint io t protocol ip ep sip lifetime c = Some (r, evs, c')"
  shows "c_gateway c' = c_gateway c" and "c_timeout c' = c_timeout c"
    and "c_localIP c' = c_localIP c" and "locks_free c \<Longrightarrow> locks_free c'"
proof -
  have "c_gateway c' = c_gateway c \<and> c_timeout c' = c_timeout c \<and> c_localIP c' = c_localIP c \<and>
      (locks_free c \<longrightarrow> locks_free c')"
  proof (cases rule: addPortMapping_cases [of io protocol ip ep sip lifetime c t])
    case (ran mc cl n cb answer evs' r' c'')
    have "c_gateway cb = c_gateway c" "c_timeout cb = c_timeout c" "c_localIP cb = c_localIP c"
      "c_mappingLocks cb = (c_mappingLocks c)(map_key mc \<mapsto> Some t)"
      using map_beginD [OF ran(4)] by (simp_all add: ran(3))
    moreover have "c' = lock_Unlock (map_key mc) c''" using ran(8) assms by simp
    ultimately show ?thesis
      using ran(7) by (auto simp: locks_free_def split: sum.splits)
  qed (use assms in simp_all)
  then show "c_gateway c' = c_gateway c" and "c_timeout c' = c_timeout c"
    and "c_localIP c' = c_localIP c" and "locks_free c \<Longrightarrow> locks_free c'" by simp_all
qed

lemma addPortMapping_returns:
  "locks_free c \<Longrightarrow> \<exists>r evs c'. addPortMappingWithHint io t protocol ip ep sip lifetime c = Some (r, evs, c')"
  by (cases rule: addPortMapping_cases [of io protocol ip ep sip lifetime c t])
    (auto simp: locks_free_def)

text \<open>What is on the wire, and what the call makes of the nonces.\<close>

lemma sent_packet:
  assumes "sendRequest io req c = (answer, evs)" and "Send a p \<in> set evs"
  shows "p = req"
  using assms send_attempts_packets [of io "gateway_udp c" req c 0 initialRetryDelay None]
  by (auto simp: sendRequest_def split: if_splits)

definition key_of_request :: "map_message \<Rightarrow> mappingKey" where
  "key_of_request q = \<lparr>mk_proto = mq_Protocol q, mk_port = mq_InternalPort q\<rparr>"

lemma decode_map_request_call:
  "\<exists>q. decode_map_request (map_request mc n) = Some q \<and> key_of_request q = map_key mc \<and>
       mq_Nonce q = n \<and> mq_Lifetime q = mc_lifetimeSec mc \<and> mq_Protocol q = mc_proto mc \<and>
       mq_InternalPort q = word_of_int (mc_internalPort mc) \<and>
       mq_SuggestedPort q = word_of_int (mc_suggestedExtPort mc)"
  by (simp add: map_request_def decode_buildMapRequest key_of_request_def map_key_def)

lemma call_nonces:
  assumes "addPortMappingWithHint io t protocol ip ep sip lifetime c = Some (r, evs, c')"
    and "map_prepare io protocol ip ep sip lifetime c = Inr mc"
  shows "c_nonces c' =
     (if mc_lifetimeSec mc \<noteq> 0
      then (c_nonces c)(map_key mc \<mapsto>
             (case c_nonces c (map_key mc) of Some n \<Rightarrow> n | None \<Rightarrow> mc_fresh mc))
      else case r of Inl _ \<Rightarrow> c_nonces c | Inr _ \<Rightarrow> (c_nonces c)(map_key mc := None))"
proof (cases rule: addPortMapping_cases [of io protocol ip ep sip lifetime c t])
  case (ran mc' cl n cb answer evs' r' c'')
  have mc: "mc' = mc" and c': "c' = lock_Unlock (map_key mc) c''" and r: "r = r'"
    using ran assms by auto
  have "n = (case c_nonces c (map_key mc) of Some n \<Rightarrow> n | None \<Rightarrow> mc_fresh mc)"
    using map_beginD(1) [OF ran(4) [unfolded mc]] by (simp add: ran(3))
  moreover have "c_nonces cb =
      (if mc_lifetimeSec mc \<noteq> 0 then (c_nonces c)(map_key mc \<mapsto> n) else c_nonces c)"
    using map_beginD(2) [OF ran(4) [unfolded mc]] by (simp add: ran(3))
  ultimately show ?thesis
    using ran(7) by (simp add: c' mc r map_finish_nonces split: sum.split)
qed (use assms in simp_all)

lemma call_success:
  assumes "addPortMappingWithHint io t protocol ip ep sip lifetime c = Some (Inr m, evs, c')"
  shows "protocolNumber protocol = Inr (Protocol m)" and "InternalPort m = word_of_int ip"
    and "c_nonces c' \<lparr>mk_proto = Protocol m, mk_port = InternalPort m\<rparr> =
           (if lifetime > 0 then Some (Nonce m) else None)"
    and "key \<noteq> \<lparr>mk_proto = Protocol m, mk_port = InternalPort m\<rparr> \<Longrightarrow> c_nonces c' key = c_nonces c key"
    and "lifetime > 0 \<Longrightarrow> c_nonces c \<lparr>mk_proto = Protocol m, mk_port = InternalPort m\<rparr> \<in> {None, Some (Nonce m)}"
proof -
  have "protocolNumber protocol = Inr (Protocol m) \<and> InternalPort m = word_of_int ip \<and>
        c_nonces c' \<lparr>mk_proto = Protocol m, mk_port = InternalPort m\<rparr> =
           (if lifetime > 0 then Some (Nonce m) else None) \<and>
        (key \<noteq> \<lparr>mk_proto = Protocol m, mk_port = InternalPort m\<rparr> \<longrightarrow> c_nonces c' key = c_nonces c key) \<and>
        (lifetime > 0 \<longrightarrow> c_nonces c \<lparr>mk_proto = Protocol m, mk_port = InternalPort m\<rparr> \<in> {None, Some (Nonce m)})"
  proof (cases rule: addPortMapping_cases [of io protocol ip ep sip lifetime c t])
    case (ran mc cl n cb answer evs' r c'')
    have "r = Inr m" using ran(8) assms by simp
    then have m: "Nonce m = n" "Protocol m = mc_proto mc" "InternalPort m = word_of_int (mc_internalPort mc)"
      using ran(6) by (auto simp: map_check_Inr_iff)
    have "n = (case c_nonces c (map_key mc) of Some n \<Rightarrow> n | None \<Rightarrow> mc_fresh mc)"
      using map_beginD(1) [OF ran(4)] by (simp add: ran(3))
    moreover have "map_key mc = \<lparr>mk_proto = Protocol m, mk_port = InternalPort m\<rparr>"
      by (simp add: map_key_def m)
    ultimately show ?thesis
      using call_nonces [OF assms ran(1)] map_prepare_Inr(6,7,11) [OF ran(1)] m
        lifetime_seconds_eq_0 [of "ci_oob io" lifetime]
      by (auto split: option.split)
  qed (use assms in simp_all)
  then show "protocolNumber protocol = Inr (Protocol m)" and "InternalPort m = word_of_int ip"
    and "c_nonces c' \<lparr>mk_proto = Protocol m, mk_port = InternalPort m\<rparr> =
           (if lifetime > 0 then Some (Nonce m) else None)"
    and "key \<noteq> \<lparr>mk_proto = Protocol m, mk_port = InternalPort m\<rparr> \<Longrightarrow> c_nonces c' key = c_nonces c key"
    and "lifetime > 0 \<Longrightarrow> c_nonces c \<lparr>mk_proto = Protocol m, mk_port = InternalPort m\<rparr> \<in> {None, Some (Nonce m)}"
    by blast+
qed

lemma call_failure:
  assumes "addPortMappingWithHint io t protocol ip ep sip lifetime c = Some (Inl err, evs, c')"
  shows "lifetime \<le> 0 \<Longrightarrow> c_nonces c' = c_nonces c"
    and "c_nonces c \<subseteq>\<^sub>m c_nonces c'"
proof -
  have "(lifetime \<le> 0 \<longrightarrow> c_nonces c' = c_nonces c) \<and> c_nonces c \<subseteq>\<^sub>m c_nonces c'"
  proof (cases rule: addPortMapping_cases [of io protocol ip ep sip lifetime c t])
  case (ran mc cl n cb answer evs' r c'')
  have "c_nonces c (map_key mc) = Some k \<Longrightarrow>
      (case c_nonces c (map_key mc) of Some n \<Rightarrow> n | None \<Rightarrow> mc_fresh mc) = k" for k
    by simp
  then show ?thesis
    using call_nonces [OF assms ran(1)] map_prepare_Inr(11) [OF ran(1)]
      lifetime_seconds_eq_0 [of "ci_oob io" lifetime]
    by (auto simp: map_le_def split: option.splits)
  qed (use assms in simp_all)
  then show "lifetime \<le> 0 \<Longrightarrow> c_nonces c' = c_nonces c" and "c_nonces c \<subseteq>\<^sub>m c_nonces c'"
    by blast+
qed

section \<open>Properties\<close>

text \<open>A server that grants every mapping with the nonce of the request, and a lossy variant.\<close>

definition granting_once :: once_io where
  "granting_once = silent_once\<lparr>io_read := (\<lambda>req.
     case decode_map_request req of
       None \<Rightarrow> Inl (ExtErr ''i/o timeout'')
     | Some q \<Rightarrow> Inr \<lparr>dg_IP = [192, 168, 1, 1], dg_Port = 5351,
         dg_Data = encode_map_response
           \<lparr>r_Version = 2, r_Opcode = 0x81, r_ResultCode = 0, r_Lifetime = mq_Lifetime q,
            r_Epoch = 100, Nonce = mq_Nonce q, Protocol = mq_Protocol q,
            InternalPort = mq_InternalPort q, ExternalPort = mq_InternalPort q,
            ExternalIP = Addr4 0xCB007101\<rparr> 0 (replicate 12 0) [0, 0, 0] []\<rparr>)\<rparr>"

definition granting_io :: "nonce \<Rightarrow> call_io" where
  "granting_io n = \<lparr>ci_fresh = Inr n, ci_send = silent_io\<lparr>s_once := \<lambda>_. granting_once\<rparr>,
     ci_now = 0, ci_oob = oob_amd64\<rparr>"

definition failing_io :: "nonce \<Rightarrow> call_io" where
  "failing_io n = \<lparr>ci_fresh = Inr n, ci_send = silent_io, ci_now = 0, ci_oob = oob_amd64\<rparr>"

text \<open>What a call makes of these two networks.\<close>

definition granted :: "map_call \<Rightarrow> nonce \<Rightarrow> map_response" where
  "granted mc n =
     \<lparr>r_Version = 2, r_Opcode = 0x81, r_ResultCode = 0, r_Lifetime = mc_lifetimeSec mc,
      r_Epoch = 100, Nonce = n, Protocol = mc_proto mc,
      InternalPort = word_of_int (mc_internalPort mc),
      ExternalPort = word_of_int (mc_internalPort mc), ExternalIP = Addr4 0xCB007101\<rparr>"

lemma granting_request:
  assumes "c_gateway c = c_gateway client_v4" and "c_timeout c = c_timeout client_v4"
  shows "map_check mc n (fst (sendRequest (ci_send (granting_io m)) (map_request mc n) c)) = Inr (granted mc n)"
    and "snd (sendRequest (ci_send (granting_io m)) (map_request mc n) c) =
           [SetDeadline defaultTimeout, Send gateway_v4 (map_request mc n)]"
proof -
  have c: "sendRequest io req c = sendRequest io req client_v4" for io req
    using assms by (rule sendRequest_cong)
  have len: "length (encode_map_response (granted mc n) 0 (replicate 12 0) [0, 0, 0] []) = 60"
    by (simp add: encode_map_response_def)
  have "sendOnce granting_once gateway_v4 (map_request mc n) client_v4 =
      ((encode_map_response (granted mc n) 0 (replicate 12 0) [0, 0, 0] [], None),
       [SetDeadline defaultTimeout, Send gateway_v4 (map_request mc n)])"
    using len
    by (simp add: sendOnce_def granting_once_def silent_once_def Let_def map_request_def
        decode_buildMapRequest ip_Equal_def gateway_v4_def responseBufferSize_def granted_def)
  then have "sendRequest (ci_send (granting_io m)) (map_request mc n) c =
      (Inr (encode_map_response (granted mc n) 0 (replicate 12 0) [0, 0, 0] []),
       [SetDeadline defaultTimeout, Send gateway_v4 (map_request mc n)])"
    unfolding c
    by (simp add: sendRequest_def send_attempts.simps [of _ _ _ _ 0] maxRetries_def granting_io_def
        addr_IsValid_def)
  moreover have "parseMapResponse (encode_map_response (granted mc n) 0 (replicate 12 0) [0, 0, 0] []) =
      Inr (granted mc n)"
    by (rule parse_encode_map_response)
      (simp_all add: granted_def Version_def OpReply_def wire_canonical_def addr_defs)
  ultimately show "map_check mc n (fst (sendRequest (ci_send (granting_io m)) (map_request mc n) c)) = Inr (granted mc n)"
    and "snd (sendRequest (ci_send (granting_io m)) (map_request mc n) c) =
           [SetDeadline defaultTimeout, Send gateway_v4 (map_request mc n)]"
    by (simp_all add: map_check_Inr_iff) (simp_all add: granted_def ResultSuccess_def)
qed

text \<open>
  C3. No response is accepted that does not answer the request: when a call returns a mapping, its
  datagram came from the gateway's address, it parses to exactly the returned fields, and nonce,
  protocol and internal port are those the server reads from the request that was sent.
\<close>

theorem map_response_authentic:
  assumes "addPortMappingWithHint io t protocol ip ep sip lifetime c = Some (Inr r, evs, c')"
  shows "\<exists>pkt q k dg. (\<forall>a p. Send a p \<in> set evs \<longrightarrow> p = pkt) \<and> decode_map_request pkt = Some q \<and>
           io_read (s_once (ci_send io) k) pkt = Inr dg \<and>
           ip_Equal (dg_IP dg) (addr_AsSlice (c_gateway c)) \<and>
           parseMapResponse (take 128 (dg_Data dg)) = Inr r \<and>
           Nonce r = mq_Nonce q \<and> Protocol r = mq_Protocol q \<and>
           InternalPort r = mq_InternalPort q \<and> uint (mq_InternalPort q) = ip \<and>
           r_ResultCode r = ResultSuccess"
proof (cases rule: addPortMapping_cases [of io protocol ip ep sip lifetime c t])
  case (ran mc cl n cb answer evs' r' c'')
  have r: "r' = Inr r" "evs' = evs" using ran assms by auto
  obtain q where q: "decode_map_request (map_request mc n) = Some q" "mq_Nonce q = n"
    "mq_Protocol q = mc_proto mc" "mq_InternalPort q = word_of_int (mc_internalPort mc)"
    using decode_map_request_call [of mc n] by blast
  obtain resp where resp: "answer = Inr resp" "parseMapResponse resp = Inr r" "Nonce r = n"
    "Protocol r = mc_proto mc" "InternalPort r = word_of_int (mc_internalPort mc)"
    "r_ResultCode r = ResultSuccess"
    using ran(6) r by (auto simp: map_check_Inr_iff)
  have "resp \<noteq> []" using resp(2) by (auto simp: parseMapResponse_Inr_iff)
  then obtain k dg where "io_read (s_once (ci_send io) k) (map_request mc n) = Inr dg"
    "ip_Equal (dg_IP dg) (addr_AsSlice (c_gateway c))" "resp = take 128 (dg_Data dg)"
    using answer_from_gateway [of "ci_send io" "map_request mc n" c resp] ran(5) resp(1) by auto
  moreover have "uint (word_of_int (mc_internalPort mc) :: 16 word) = ip"
    using map_prepare_Inr(1,2,7) [OF ran(1)] by (simp add: uint_word_of_int_eq take_bit_int_eq_self)
  moreover have "\<forall>a p. Send a p \<in> set evs \<longrightarrow> p = map_request mc n"
    using sent_packet [OF ran(5)] r by blast
  ultimately show ?thesis using q resp by metis
qed (use assms in simp_all)

lemma granting_call:
  assumes "map_prepare (granting_io n) protocol ip ep sip lifetime c = Inr mc"
    and "c_gateway c = c_gateway client_v4" and "c_timeout c = c_timeout client_v4"
    and "c_mappingLocks c (map_key mc) \<in> {None, Some None}"
    and "k = (case c_nonces c (map_key mc) of Some k \<Rightarrow> k | None \<Rightarrow> n)"
  shows "\<exists>c'. addPortMappingWithHint (granting_io n) t protocol ip ep sip lifetime c =
           Some (Inr (granted mc k), [SetDeadline defaultTimeout, Send gateway_v4 (map_request mc k)], c')"
proof -
  note m = map_prepare_Inr(10) [OF assms(1)]
  show ?thesis
  proof (cases rule: addPortMapping_cases [of "granting_io n" protocol ip ep sip lifetime c t])
    case (ran mc' cl k' cb answer evs r c')
    have mc: "mc' = mc" using ran(1) assms(1) by simp
    have k': "k' = k"
      using map_beginD(1) [OF ran(4) [unfolded mc]] m
      by (auto simp: assms(5) ran(3) granting_io_def split: option.split)
    have "answer = fst (sendRequest (ci_send (granting_io n)) (map_request mc k) c)"
      "evs = snd (sendRequest (ci_send (granting_io n)) (map_request mc k) c)"
      using ran(5) by (simp_all add: mc k')
    then have "r = Inr (granted mc k)"
      "evs = [SetDeadline defaultTimeout, Send gateway_v4 (map_request mc k)]"
      using granting_request [OF assms(2,3)] ran(6) by (simp_all add: mc k')
    with ran(8) show ?thesis by simp
  qed (use assms in auto)
qed

text \<open>A WireGuard port mapped for a minute: what the call works with.\<close>

definition mc_51820 :: map_call where
  "mc_51820 = \<lparr>mc_localIP = Addr4 0xC0A80102, mc_proto = 17, mc_internalPort = 51820,
     mc_suggestedExtPort = 51820, mc_suggestedExtIP = NoAddr, mc_lifetimeSec = 60, mc_fresh = 7\<rparr>"

lemma prepare_51820:
  "map_prepare (granting_io 7) ''udp'' 51820 51820 NoAddr (60 * second) client_v4 = Inr mc_51820"
  "map_prepare (failing_io 7) ''udp'' 51820 51820 NoAddr (60 * second) client_v4 = Inr mc_51820"
  "map_prepare (granting_io 7) ''udp'' 51820 0 NoAddr 0 client_v4 =
     Inr (mc_51820\<lparr>mc_suggestedExtPort := 0, mc_lifetimeSec := 0\<rparr>)"
  by (simp_all add: map_prepare_def getLocalIP_def addr_IsValid_def protocolNumber_def ProtoUDP_def
      granting_io_def failing_io_def mc_51820_def lifetime_seconds_def f64_to_u32_Seconds second_def)

lemma granted_51820:
  "\<exists>c'. addPortMappingWithHint (granting_io 7) 0 ''udp'' 51820 51820 NoAddr (60 * second) client_v4 =
     Some (Inr (granted mc_51820 7),
           [SetDeadline defaultTimeout, Send gateway_v4 (map_request mc_51820 7)], c')"
  using granting_call [OF prepare_51820(1), of 7 0] by simp

lemma failed_51820:
  "\<exists>err evs c'. addPortMappingWithHint (failing_io 7) 0 ''udp'' 51820 51820 NoAddr (60 * second) client_v4
       = Some (Inl err, evs, c') \<and> Send gateway_v4 (map_request mc_51820 7) \<in> set evs"
proof (cases rule: addPortMapping_cases [of "failing_io 7" "''udp''" 51820 51820 NoAddr
      "60 * second" client_v4 0])
  case (ran mc cl n cb answer evs r c')
  have mc: "mc = mc_51820" using ran(1) prepare_51820(2) by simp
  have n: "n = 7" using map_beginD(1) [OF ran(4)] by (simp add: ran(3) mc mc_51820_def)
  have "fst (sendRequest (ci_send (failing_io 7)) (map_request mc n) client_v4) = answer"
    "snd (sendRequest (ci_send (failing_io 7)) (map_request mc n) client_v4) = evs"
    using ran(5) by simp_all
  then have a: "answer = Inl (request_failed (Some (Errorf ''read: %w'' [AErr (ExtErr ''i/o timeout'')])))"
    "evs = snd (sendRequest silent_io (map_request mc_51820 7) client_v4)"
    by (simp_all add: failing_io_def silent_request_fails mc n)
  then have "Send gateway_v4 (map_request mc_51820 7) \<in> set evs" by (simp add: silent_request)
  with ran(6,8) a(1) show ?thesis by (auto simp: map_check_def)
qed (use prepare_51820(2) in simp_all)

theorem map_response_authentic_witness:
  "\<exists>pkt q. Send gateway_v4 pkt \<in> set [Send gateway_v4 (map_request mc_51820 7)] \<and>
     decode_map_request pkt = Some q \<and> uint (mq_InternalPort q) = 51820 \<and>
     mq_Nonce q = Nonce (granted mc_51820 7)"
proof -
  obtain c' where "addPortMappingWithHint (granting_io 7) 0 ''udp'' 51820 51820 NoAddr (60 * second)
      client_v4 = Some (Inr (granted mc_51820 7),
        [SetDeadline defaultTimeout, Send gateway_v4 (map_request mc_51820 7)], c')"
    using granted_51820 by blast
  from map_response_authentic [OF this] obtain pkt q where
    "Send gateway_v4 (map_request mc_51820 7) \<in> {Send gateway_v4 pkt}"
    "decode_map_request pkt = Some q" "uint (mq_InternalPort q) = 51820"
    "mq_Nonce q = Nonce (granted mc_51820 7)"
    by auto
  then show ?thesis by auto
qed

text \<open>
  C15. The nonce discipline of RFC 6887 section 11.3. A request for a mapping that has a nonce carries
  that nonce; a create stores its nonce whatever becomes of the exchange; a delete forgets it only
  when the server confirmed the deletion; and the nonces of all other mappings stay as they are.
\<close>

theorem nonce_discipline:
  assumes "addPortMappingWithHint io t protocol ip ep sip lifetime c = Some (r, evs, c')"
    and "Send a pkt \<in> set evs"
  shows "\<exists>q. decode_map_request pkt = Some q \<and>
           (let key = \<lparr>mk_proto = mq_Protocol q, mk_port = mq_InternalPort q\<rparr>
            in (\<forall>n. c_nonces c key = Some n \<longrightarrow> mq_Nonce q = n) \<and>
               c_nonces c' = (if mq_Lifetime q \<noteq> 0 then (c_nonces c)(key \<mapsto> mq_Nonce q)
                              else if err_of r = None then (c_nonces c)(key := None)
                              else c_nonces c))"
proof (cases rule: addPortMapping_cases [of io protocol ip ep sip lifetime c t])
  case (ran mc cl n cb answer evs' r' c'')
  have "evs' = evs" using ran(8) assms(1) by simp
  with sent_packet [OF ran(5)] assms(2) have pkt: "pkt = map_request mc n" by simp
  obtain q where q: "decode_map_request (map_request mc n) = Some q" "key_of_request q = map_key mc"
    "mq_Nonce q = n" "mq_Lifetime q = mc_lifetimeSec mc"
    using decode_map_request_call [of mc n] by blast
  have n: "n = (case c_nonces c (map_key mc) of Some n \<Rightarrow> n | None \<Rightarrow> mc_fresh mc)"
    using map_beginD(1) [OF ran(4)] by (simp add: ran(3))
  have "c_nonces c' = (if mq_Lifetime q \<noteq> 0 then (c_nonces c)(key_of_request q \<mapsto> mq_Nonce q)
      else if err_of r = None then (c_nonces c)(key_of_request q := None) else c_nonces c)"
    using call_nonces [OF assms(1) ran(1)] n q by (auto simp: err_of_def split: sum.split)
  moreover have "\<forall>m. c_nonces c (key_of_request q) = Some m \<longrightarrow> mq_Nonce q = m"
    using n q by simp
  ultimately show ?thesis
    using q(1) by (simp add: pkt key_of_request_def)
qed (use assms in simp_all)

theorem nonce_discipline_witness:
  "\<exists>err evs c'. addPortMappingWithHint (failing_io 7) 0 ''udp'' 51820 51820 NoAddr (60 * second) client_v4
       = Some (Inl err, evs, c') \<and>
     c_nonces c' \<lparr>mk_proto = 17, mk_port = 51820\<rparr> = Some 7"
proof -
  obtain err evs c' where call: "addPortMappingWithHint (failing_io 7) 0 ''udp'' 51820 51820 NoAddr
      (60 * second) client_v4 = Some (Inl err, evs, c')"
    and sent: "Send gateway_v4 (map_request mc_51820 7) \<in> set evs"
    using failed_51820 by blast
  obtain q where "decode_map_request (map_request mc_51820 7) = Some q"
    "key_of_request q = map_key mc_51820" "mq_Nonce q = 7" "mq_Lifetime q = mc_lifetimeSec mc_51820"
    using decode_map_request_call by blast
  then have "c_nonces c' \<lparr>mk_proto = 17, mk_port = 51820\<rparr> = Some 7"
    using nonce_discipline [OF call sent]
    by (simp add: Let_def key_of_request_def map_key_def mc_51820_def)
  with call show ?thesis by simp
qed

lemma client_calls_end:
  assumes "locks_free c"
  shows "\<exists>r evs c'. AddPortMappingWithHint io t protocol ip ep sip lifetime c = Some (r, evs, c') \<and> locks_free c'"
    and "\<exists>r evs c'. AddPortMapping io t protocol ip lifetime c = Some (r, evs, c') \<and> locks_free c'"
    and "\<exists>r evs c'. DeletePortMapping io t protocol ip c = Some (r, evs, c') \<and> locks_free c'"
    and "\<exists>r evs c'. GetExternalAddress io io' t ns c = Some (r, evs, c') \<and> locks_free c'"
proof -
  have add: "\<exists>r evs c'. addPortMappingWithHint io t protocol ip ep sip lifetime c = Some (r, evs, c') \<and>
      locks_free c'" if "locks_free c" for io t protocol ip ep sip lifetime c
    using that addPortMapping_returns addPortMapping_frame(4) by metis
  have del: "\<exists>r evs c'. DeletePortMapping io t protocol ip c = Some (r, evs, c') \<and> locks_free c'"
    if "locks_free c" for io t protocol ip c
    using add [OF that, of io t protocol ip 0 NoAddr 0]
    by (auto simp: DeletePortMapping_def split: sum.split)
  show "\<exists>r evs c'. AddPortMappingWithHint io t protocol ip ep sip lifetime c = Some (r, evs, c') \<and> locks_free c'"
    and "\<exists>r evs c'. AddPortMapping io t protocol ip lifetime c = Some (r, evs, c') \<and> locks_free c'"
    and "\<exists>r evs c'. DeletePortMapping io t protocol ip c = Some (r, evs, c') \<and> locks_free c'"
    using add [OF assms] del [OF assms]
    by (simp_all add: AddPortMappingWithHint_def AddPortMapping_def Let_def)
  obtain r evs c' where a: "AddPortMapping io t ''udp'' (ephemeral_port ns) second c = Some (r, evs, c')"
    "locks_free c'"
    using add [OF assms] unfolding AddPortMapping_def by blast
  then show "\<exists>r evs c'. GetExternalAddress io io' t ns c = Some (r, evs, c') \<and> locks_free c'"
    using del [OF a(2), of io' t "''udp''" "ephemeral_port ns"] assms
    by (auto simp: GetExternalAddress_def Let_def split: sum.split)
qed

text \<open>
  C36. Every operation returns and gives back the lock it took: called while no goroutine holds a
  mapping lock, the requests come to an end on every network and leave no lock held.
\<close>

theorem client_calls_return:
  assumes "locks_free c"
  shows "(\<exists>r evs c'. AddPortMappingWithHint io t protocol ip ep sip lifetime c = Some (r, evs, c') \<and> locks_free c')
    \<and> (\<exists>r evs c'. AddPortMapping io t protocol ip lifetime c = Some (r, evs, c') \<and> locks_free c')
    \<and> (\<exists>r evs c'. DeletePortMapping io t protocol ip c = Some (r, evs, c') \<and> locks_free c')
    \<and> (\<exists>r evs c'. GetExternalAddress io io' t ns c = Some (r, evs, c') \<and> locks_free c')"
  by (intro conjI client_calls_end assms)

theorem client_calls_return_witness:
  "\<exists>r evs c'. DeletePortMapping (failing_io 7) 0 ''udp'' 51820 client_v4 = Some (r, evs, c') \<and> locks_free c'"
proof -
  have "locks_free client_v4" by (simp add: locks_free_def)
  from client_calls_return [OF this] show ?thesis by blast
qed

text \<open>
  C39. Arguments outside their range stop a call before it touches anything: ports out of range, an
  unknown protocol or a missing local address give an error, no packet is sent and the client is
  unchanged; and for such an argument no other outcome is possible.
\<close>

theorem bad_arguments_rejected:
  assumes "ip \<le> 0 \<or> ip > 65535 \<or> ep < 0 \<or> ep > 65535 \<or>
           protocol \<notin> {''udp'', ''UDP'', ''tcp'', ''TCP''} \<or> \<not> addr_IsValid (c_localIP c)"
  shows "\<exists>err. addPortMappingWithHint io t protocol ip ep sip lifetime c = Some (Inl err, [], c)"
proof (cases rule: addPortMapping_cases [of io protocol ip ep sip lifetime c t])
  case (blocked mc)
  with assms map_prepare_Inr [OF blocked(1)] show ?thesis
    by (auto simp: protocolNumber_def split: if_splits)
next
  case (ran mc)
  with assms map_prepare_Inr [OF ran(1)] show ?thesis
    by (auto simp: protocolNumber_def split: if_splits)
qed simp

theorem bad_arguments_rejected_witness:
  "\<exists>err. addPortMappingWithHint (granting_io 7) 0 ''sctp'' 70000 0 NoAddr 0 client_v4 =
     Some (Inl err, [], client_v4)"
  by (rule bad_arguments_rejected) simp

text \<open>The temporary mapping of \<open>GetExternalAddress\<close> and what it leaves behind.\<close>

lemma ephemeral_port_range: "49152 \<le> ephemeral_port ns" "ephemeral_port ns \<le> 65534"
proof -
  have "uint (word_of_int ns :: 16 word) mod (65535 - 49152) < 65535 - 49152"
    by (rule pos_mod_bound) simp
  then show "49152 \<le> ephemeral_port ns" "ephemeral_port ns \<le> 65534"
    by (simp_all add: ephemeral_port_def)
qed

lemma parsed_ExternalIP_valid:
  assumes "parseMapResponse d = Inr r"
  shows "addr_IsValid (ExternalIP r)"
  using assms addrFrom16_canonical by (auto simp: parseMapResponse_Inr_iff wire_canonical_def)

lemma map_response_parsed:
  assumes "addPortMappingWithHint io t protocol ip ep sip lifetime c = Some (Inr m, evs, c')"
  shows "\<exists>d. parseMapResponse d = Inr m"
proof (cases rule: addPortMapping_cases [of io protocol ip ep sip lifetime c t])
  case (ran mc cl n cb answer evs' r' c'')
  with assms have "map_check mc n answer = Inr m" by simp
  then show ?thesis by (auto simp: map_check_Inr_iff)
qed (use assms in simp_all)

lemma call_externalIP:
  assumes "addPortMappingWithHint io t protocol ip ep sip lifetime c = Some (r, evs, c')"
  shows "c_externalIP c' =
    (case r of Inl _ \<Rightarrow> c_externalIP c
     | Inr m \<Rightarrow> if addr_IsUnspecified (ExternalIP m) then c_externalIP c else ExternalIP m)"
proof (cases rule: addPortMapping_cases [of io protocol ip ep sip lifetime c t])
  case (ran mc cl n cb answer evs' r' c'')
  have c': "c' = lock_Unlock (map_key mc) c''" and r: "r' = r" using ran assms by auto
  have cb: "c_externalIP cb = c_externalIP c" using map_beginD(7) [OF ran(4)] by (simp add: ran(3))
  show ?thesis
  proof (cases r)
    case (Inr m)
    then have "addr_IsValid (ExternalIP m)"
      using ran(6) r by (auto simp: map_check_Inr_iff dest: parsed_ExternalIP_valid)
    then show ?thesis
      using ran(7) cb by (simp add: c' r Inr map_finish_def cacheExternalIPLocked_def Let_def)
  qed (use ran(7) cb in \<open>simp add: c' r\<close>)
qed (use assms in simp_all)

lemma call_packets:
  assumes "addPortMappingWithHint io t protocol ip ep sip lifetime c = Some (r, evs, c')"
    and "Send a p \<in> set evs" and "decode_map_request p = Some q"
  shows "protocolNumber protocol = Inr (mq_Protocol q)" and "uint (mq_InternalPort q) = ip"
    and "mq_Lifetime q = lifetime_seconds (ci_oob io) lifetime"
proof -
  have "protocolNumber protocol = Inr (mq_Protocol q) \<and> uint (mq_InternalPort q) = ip \<and>
      mq_Lifetime q = lifetime_seconds (ci_oob io) lifetime"
  proof (cases rule: addPortMapping_cases [of io protocol ip ep sip lifetime c t])
    case (ran mc cl n cb answer evs' r' c'')
    have "evs' = evs" using ran(8) assms(1) by simp
    with sent_packet [OF ran(5)] assms(2) have "p = map_request mc n" by simp
    with assms(3) decode_map_request_call [of mc n] have q: "mq_Protocol q = mc_proto mc"
      "mq_InternalPort q = word_of_int (mc_internalPort mc)" "mq_Lifetime q = mc_lifetimeSec mc"
      by auto
    show ?thesis
      using map_prepare_Inr [OF ran(1)] by (simp add: q uint_word_of_int_eq take_bit_int_eq_self)
  qed (use assms in simp_all)
  then show "protocolNumber protocol = Inr (mq_Protocol q)" and "uint (mq_InternalPort q) = ip"
    and "mq_Lifetime q = lifetime_seconds (ci_oob io) lifetime" by simp_all
qed

lemma call_packet_decodes:
  assumes "addPortMappingWithHint io t protocol ip ep sip lifetime c = Some (r, evs, c')" and "Send a p \<in> set evs"
  shows "\<exists>q. decode_map_request p = Some q"
proof (cases rule: addPortMapping_cases [of io protocol ip ep sip lifetime c t])
  case (ran mc cl n cb answer evs' r' c'')
  with assms sent_packet [OF ran(5)] have "p = map_request mc n" by simp
  with decode_map_request_call [of mc n] show ?thesis by auto
qed (use assms in simp_all)

lemma AddrUnspecified_slice:
  "addr_IsValid a \<Longrightarrow> addr_IsUnspecified a \<Longrightarrow> b \<in> set (addr_AsSlice a) \<Longrightarrow> b = 0"
  by (cases a) (auto simp: addr_defs split: if_splits)

text \<open>
  C40. \<open>GetExternalAddress\<close> asks the server at most once: after it returned an address that is not
  all zeros, every later call is answered from the cache without a packet, and with the same address
  if the first answer was itself cached. The requests it sends are UDP mappings of one second and
  their deletion, for a port in the dynamic range 49152 to 65534.
\<close>

theorem external_address_cached:
  assumes "GetExternalAddress io io' t ns c = Some (Inr ip, evs, c')" and "b \<in> set ip" and "b \<noteq> 0"
  shows "(\<exists>ip'. GetExternalAddress io2 io2' t' ns' c' = Some (Inr ip', [], c') \<and> (addr_IsValid (c_externalIP c) \<longrightarrow> ip' = ip)) \<and>
         (\<forall>a p. Send a p \<in> set evs \<longrightarrow>
            (\<exists>q. decode_map_request p = Some q \<and> mq_Protocol q = ProtoUDP \<and> mq_Lifetime q \<in> {0, 1} \<and>
               49152 \<le> uint (mq_InternalPort q) \<and> uint (mq_InternalPort q) \<le> 65534))"
proof (cases "addr_IsValid (c_externalIP c)")
  case True
  with assms(1) show ?thesis by (auto simp: GetExternalAddress_def)
next
  case False
  let ?port = "ephemeral_port ns"
  from assms(1) False obtain m evs1 c1 r2 evs2 where
    add: "addPortMappingWithHint io t ''udp'' ?port ?port NoAddr second c = Some (Inr m, evs1, c1)"
    and del: "addPortMappingWithHint io' t ''udp'' ?port 0 NoAddr 0 c1 = Some (r2, evs2, c')"
    and ip: "ip = addr_AsSlice (ExternalIP m)" and evs: "evs = evs1 @ evs2"
    by (auto simp: GetExternalAddress_def AddPortMapping_def DeletePortMapping_def Let_def
        split: option.splits sum.splits prod.splits)
  have one: "lifetime_seconds oob second = 1" and zero: "lifetime_seconds oob 0 = 0" for oob
    by (simp_all add: lifetime_seconds_def f64_to_u32_Seconds second_def)
  have sends: "\<exists>q. decode_map_request p = Some q \<and> mq_Protocol q = ProtoUDP \<and> mq_Lifetime q \<in> {0, 1} \<and>
      49152 \<le> uint (mq_InternalPort q) \<and> uint (mq_InternalPort q) \<le> 65534"
    if s: "Send a p \<in> set evs" for a p
  proof -
    from s obtain q where q: "decode_map_request p = Some q"
      using call_packet_decodes [OF add, of a p] call_packet_decodes [OF del, of a p] by (auto simp: evs)
    with s call_packets [OF add, of a p q] call_packets [OF del, of a p q] ephemeral_port_range [of ns]
    have "mq_Protocol q = ProtoUDP \<and> mq_Lifetime q \<in> {0, 1} \<and>
        49152 \<le> uint (mq_InternalPort q) \<and> uint (mq_InternalPort q) \<le> 65534"
      by (auto simp: evs one zero protocolNumber_def)
    with q show ?thesis by blast
  qed
  obtain answer where answer: "parseMapResponse answer = Inr m"
    using map_response_parsed [OF add] by blast
  have "addr_IsValid (ExternalIP m)" "\<not> addr_IsUnspecified (ExternalIP m)"
    using parsed_ExternalIP_valid [OF answer] AddrUnspecified_slice [of "ExternalIP m" b] assms(2,3) ip
    by blast+
  then have "addr_IsValid (c_externalIP c1)" "c_externalIP c1 = ExternalIP m"
    using call_externalIP [OF add] by simp_all
  moreover have "addr_IsValid (ExternalIP m')" if "r2 = Inr m'" for m'
    using map_response_parsed [OF del [unfolded that]] parsed_ExternalIP_valid by blast
  ultimately have "addr_IsValid (c_externalIP c')"
    using call_externalIP [OF del] by (auto split: sum.splits)
  then show ?thesis
    using sends False by (auto simp: GetExternalAddress_def)
qed

text \<open>
  The witness: a client that knows no address makes its temporary mapping, of one second and for port
  49152, deletes it, and answers the next call from its cache, on a network that is down.
\<close>

theorem external_address_cached_witness:
  "\<exists>evs c' ip' p q. GetExternalAddress (granting_io 7) (granting_io 7) 0 0 client_v4 = Some (Inr [203, 0, 113, 1], evs, c') \<and>
     Send gateway_v4 p \<in> set evs \<and> decode_map_request p = Some q \<and> mq_Protocol q = ProtoUDP \<and> mq_Lifetime q \<in> {0, 1} \<and>
     49152 \<le> uint (mq_InternalPort q) \<and> GetExternalAddress (failing_io 8) (failing_io 9) 1 5 c' = Some (Inr ip', [], c')"
proof -
  let ?io = "granting_io 7" and ?mc = "\<lambda>ep lt. \<lparr>mc_localIP = Addr4 0xC0A80102, mc_proto = 17, mc_internalPort = 49152,
     mc_suggestedExtPort = ep, mc_suggestedExtIP = NoAddr, mc_lifetimeSec = lt, mc_fresh = 7\<rparr>"
  note prepare = map_prepare_def getLocalIP_def addr_IsValid_def protocolNumber_def ProtoUDP_def granting_io_def
    lifetime_seconds_def f64_to_u32_Seconds
  have "map_prepare ?io ''udp'' 49152 49152 NoAddr second client_v4 = Inr (?mc 49152 1)"
    by (simp add: prepare second_def)
  from granting_call [OF this refl refl _ refl, of 0] obtain c1 where add:
    "addPortMappingWithHint ?io 0 ''udp'' 49152 49152 NoAddr second client_v4 =
      Some (Inr (granted (?mc 49152 1) 7), [SetDeadline defaultTimeout, Send gateway_v4 (map_request (?mc 49152 1) 7)], c1)"
    by (auto simp: map_key_def)
  have free: "locks_free client_v4" by (simp add: locks_free_def)
  note frame = addPortMapping_frame [OF add] and free1 = addPortMapping_frame(4) [OF add free]
  have prep0: "map_prepare ?io ''udp'' 49152 0 NoAddr 0 c1 = Inr (?mc 0 0)"
    unfolding map_prepare_def getLocalIP_def frame by (simp add: prepare second_def)
  have l: "c_mappingLocks c1 (map_key (?mc 0 0)) \<in> {None, Some None}"
    using free1 by (cases "c_mappingLocks c1 (map_key (?mc 0 0))"; cases "the (c_mappingLocks c1 (map_key (?mc 0 0)))")
      (auto simp: locks_free_def)
  obtain k evs2 c2 where del: "addPortMappingWithHint ?io 0 ''udp'' 49152 0 NoAddr 0 c1 = Some (Inr (granted (?mc 0 0) k), evs2, c2)"
    using granting_call [OF prep0 frame(1,2) l refl, of 0] by blast
  have port: "ephemeral_port 0 = 49152" by (simp add: ephemeral_port_def)
  let ?evs = "[SetDeadline defaultTimeout, Send gateway_v4 (map_request (?mc 49152 1) 7)] @ evs2"
  have call: "GetExternalAddress ?io ?io 0 0 client_v4 = Some (Inr [203, 0, 113, 1], ?evs, c2)"
    using add del by (simp add: GetExternalAddress_def AddPortMapping_def DeletePortMapping_def port granted_def
        addr_IsValid_def addr_defs put_be_def)
  have s: "Send gateway_v4 (map_request (?mc 49152 1) 7) \<in> set ?evs" by simp
  have b: "203 \<in> set [203, 0, 113, 1 :: 8 word]" "(203 :: 8 word) \<noteq> 0" by simp_all
  note cached = external_address_cached [OF call b, of "failing_io 8" "failing_io 9" 1 5]
  obtain ip' where "GetExternalAddress (failing_io 8) (failing_io 9) 1 5 c2 = Some (Inr ip', [], c2)"
    using conjunct1 [OF cached] by blast
  moreover obtain q where "decode_map_request (map_request (?mc 49152 1) 7) = Some q" "mq_Protocol q = ProtoUDP"
    "mq_Lifetime q \<in> {0, 1}" "49152 \<le> uint (mq_InternalPort q)"
    using conjunct2 [OF cached] s by blast
  ultimately show ?thesis using call s by blast
qed

text \<open>An announcement records the epoch of a successful response, and changes nothing otherwise.\<close>

lemma Announce_client:
  "snd (snd (Announce io c)) =
     (case fst (Announce io c) of Inl _ \<Rightarrow> c
      | Inr epoch \<Rightarrow> fst (updateEpochLocked (ci_oob io) (ci_now io) epoch c))"
  by (auto simp: Announce_def Let_def split: sum.split prod.split)

lemma Announce_frame [simp]:
  "c_nonces (snd (snd (Announce io c))) = c_nonces c"
  "c_mappingLocks (snd (snd (Announce io c))) = c_mappingLocks c"
  "c_gateway (snd (snd (Announce io c))) = c_gateway c"
  "c_timeout (snd (snd (Announce io c))) = c_timeout c"
  "c_localIP (snd (snd (Announce io c))) = c_localIP c"
  "c_externalIP (snd (snd (Announce io c))) = c_externalIP c"
  by (simp_all add: Announce_client split: sum.split)

end
