(* ===== verification/Pcp_Client_Conc.thy ===== *)
theory Pcp_Client_Conc
  imports Pcp_Client
begin

text \<open>
  Concurrent calls of \<open>addPortMappingWithHint\<close> (\<open>pcp/client.go\<close>) on one client, against a server
  that keeps RFC 6887's table of mappings. A goroutine runs through the sections that the code's
  two levels of locks separate, one step per section: \<open>c.mu\<close> makes a section atomic, the mutex of
  the mapping is held from \<open>Locked\<close> to \<open>Unlocking\<close>. Requests are duplicated by retransmission and
  lost at will, responses are lost or forged as long as the forger does not know the nonce, and the
  server may drop mappings at any time.

  The network assumption: a copy of a request reaches the server while the call that sent it waits for
  its answer, or never. A copy that the network holds back beyond the timeouts of its call, to be
  processed after the call has ended (and perhaps after a later delete of the same mapping), is not in
  the model; a client of the protocol has no means against it.
\<close>

section \<open>The server\<close>

type_synonym server = "mappingKey \<rightharpoonup> nonce"

text \<open>
  RFC 6887, section 11.3: a request for a mapping made with another nonce is refused; a lifetime of
  zero deletes, successfully even if there is nothing to delete; else the mapping is made or
  renewed, unless the server has other reasons to refuse (\<open>grant\<close>).
\<close>

definition server_step :: "byte option \<Rightarrow> map_message \<Rightarrow> server \<Rightarrow> byte \<times> server" where
  "server_step refusal q srv =
     (let key = key_of_request q
      in if (case srv key of Some n \<Rightarrow> n \<noteq> mq_Nonce q | None \<Rightarrow> False) then (ResultNotAuthorized, srv)
         else if mq_Lifetime q = 0 then (ResultSuccess, srv(key := None))
         else case refusal of
                Some code \<Rightarrow> (code, srv)
              | None \<Rightarrow> (ResultSuccess, srv(key \<mapsto> mq_Nonce q)))"

section \<open>Goroutines\<close>

datatype pc =
    Idle
  | Prepared map_call
  | Queued map_call
  | Locked map_call
  | InFlight map_call nonce "byte list"
  | Answered map_call "map_response or_err"
  | Unlocking map_call

record world =
  w_client :: client
  w_server :: server
  w_pc :: "nat \<Rightarrow> pc"

text \<open>
  Only the server the request reached can answer it with its nonce: a response that passes the
  client's checks carries the result code of one of the copies the server processed (\<open>codes\<close>).
\<close>

definition honest_answer :: "map_call \<Rightarrow> nonce \<Rightarrow> byte list \<Rightarrow> bytes or_err \<Rightarrow> bool" where
  "honest_answer mc n codes answer \<longleftrightarrow>
     (case answer of Inl _ \<Rightarrow> True
      | Inr resp \<Rightarrow> (case parseMapResponse resp of Inl _ \<Rightarrow> True
         | Inr m \<Rightarrow> Nonce m = n \<and> Protocol m = mc_proto mc \<and>
             InternalPort m = word_of_int (mc_internalPort mc) \<longrightarrow> r_ResultCode m \<in> set codes))"

inductive step :: "world \<Rightarrow> world \<Rightarrow> bool" where
  Start: "w_pc w t = Idle \<Longrightarrow>
     map_prepare io protocol ip ep sip lifetime (w_client w) = Inr mc \<Longrightarrow>
     step w (w\<lparr>w_pc := (w_pc w)(t := Prepared mc)\<rparr>)"
| Entry: "w_pc w t = Prepared mc \<Longrightarrow>
     step w (w\<lparr>w_client := lock_entry (map_key mc) (w_client w),
               w_pc := (w_pc w)(t := Queued mc)\<rparr>)"
| Lock: "w_pc w t = Queued mc \<Longrightarrow> lock_Lock t (map_key mc) (w_client w) = Some c \<Longrightarrow>
     step w (w\<lparr>w_client := c, w_pc := (w_pc w)(t := Locked mc)\<rparr>)"
| Begin: "w_pc w t = Locked mc \<Longrightarrow> map_begin mc (w_client w) = (n, c) \<Longrightarrow>
     step w (w\<lparr>w_client := c, w_pc := (w_pc w)(t := InFlight mc n [])\<rparr>)"
| Serve: "w_pc w t = InFlight mc n codes \<Longrightarrow> length codes < maxRetries \<Longrightarrow>
     decode_map_request (map_request mc n) = Some q \<Longrightarrow>
     server_step refusal q (w_server w) = (code, srv) \<Longrightarrow> refusal \<noteq> Some ResultNotAuthorized \<Longrightarrow>
     step w (w\<lparr>w_server := srv, w_pc := (w_pc w)(t := InFlight mc n (codes @ [code]))\<rparr>)"
| Answer: "w_pc w t = InFlight mc n codes \<Longrightarrow> honest_answer mc n codes answer \<Longrightarrow>
     step w (w\<lparr>w_pc := (w_pc w)(t := Answered mc (map_check mc n answer))\<rparr>)"
| Finish: "w_pc w t = Answered mc (Inr m) \<Longrightarrow>
     step w (w\<lparr>w_client := map_finish oob now mc m (w_client w),
               w_pc := (w_pc w)(t := Unlocking mc)\<rparr>)"
| Fail: "w_pc w t = Answered mc (Inl err) \<Longrightarrow>
     step w (w\<lparr>w_pc := (w_pc w)(t := Unlocking mc)\<rparr>)"
| Unlock: "w_pc w t = Unlocking mc \<Longrightarrow>
     step w (w\<lparr>w_client := lock_Unlock (map_key mc) (w_client w),
               w_pc := (w_pc w)(t := Idle)\<rparr>)"
| Expire: "step w (w\<lparr>w_server := (w_server w)(key := None)\<rparr>)"

inductive_cases step_cases: "step w w'"

definition fresh_world :: "client \<Rightarrow> world" where
  "fresh_world c = \<lparr>w_client = c, w_server = Map.empty, w_pc = (\<lambda>_. Idle)\<rparr>"

definition reachable :: "client \<Rightarrow> world \<Rightarrow> bool" where
  "reachable c w \<longleftrightarrow> step\<^sup>*\<^sup>* (fresh_world c) w"

section \<open>Invariant\<close>

text \<open>The mapping whose lock a goroutine holds.\<close>

fun holds :: "pc \<Rightarrow> mappingKey option" where
  "holds (Locked mc) = Some (map_key mc)"
| "holds (InFlight mc n codes) = Some (map_key mc)"
| "holds (Answered mc r) = Some (map_key mc)"
| "holds (Unlocking mc) = Some (map_key mc)"
| "holds _ = None"

text \<open>What a goroutine knows of client and server at each point.\<close>

fun pc_ok :: "client \<Rightarrow> server \<Rightarrow> pc \<Rightarrow> bool" where
  "pc_ok c srv (InFlight mc n codes) \<longleftrightarrow>
     (if mc_lifetimeSec mc = 0
      then c_nonces c (map_key mc) \<in> {None, Some n} \<and> (codes \<noteq> [] \<longrightarrow> srv (map_key mc) = None)
      else c_nonces c (map_key mc) = Some n) \<and>
     ResultNotAuthorized \<notin> set codes"
| "pc_ok c srv (Answered mc (Inr m)) \<longleftrightarrow> (mc_lifetimeSec mc = 0 \<longrightarrow> srv (map_key mc) = None)"
| "pc_ok c srv (Queued mc) \<longleftrightarrow> c_mappingLocks c (map_key mc) \<noteq> None"
| "pc_ok c srv _ \<longleftrightarrow> True"

definition world_ok :: "world \<Rightarrow> bool" where
  "world_ok w \<longleftrightarrow>
     (\<forall>t key. c_mappingLocks (w_client w) key = Some (Some t) \<longleftrightarrow> holds (w_pc w t) = Some key) \<and>
     w_server w \<subseteq>\<^sub>m c_nonces (w_client w) \<and>
     (\<forall>t. pc_ok (w_client w) (w_server w) (w_pc w t))"

lemma world_okD:
  assumes "world_ok w"
  shows "c_mappingLocks (w_client w) key = Some (Some t) \<longleftrightarrow> holds (w_pc w t) = Some key"
    and "w_server w key = Some n \<Longrightarrow> c_nonces (w_client w) key = Some n"
    and "pc_ok (w_client w) (w_server w) (w_pc w t)"
  using assms by (auto simp: world_ok_def map_le_def dom_def)

lemma pc_ok_frame:
  assumes "pc_ok c srv p"
    and "\<And>k. holds p = Some k \<Longrightarrow> c_nonces c' k = c_nonces c k \<and> srv' k \<in> {srv k, None}"
    and "\<And>k. c_mappingLocks c k \<noteq> None \<Longrightarrow> c_mappingLocks c' k \<noteq> None"
  shows "pc_ok c' srv' p"
proof (cases p)
  case (Answered mc r)
  with assms show ?thesis by (cases r) auto
qed (use assms in \<open>auto split: if_splits\<close>)

text \<open>A step of goroutine \<open>t\<close> that touches only the mapping it holds preserves the invariant.\<close>

lemma world_ok_update:
  assumes "world_ok w"
    and "\<And>k u. c_mappingLocks c k = Some (Some u) \<longleftrightarrow>
           (if u = t then holds p = Some k else c_mappingLocks (w_client w) k = Some (Some u))"
    and "\<And>k. c_mappingLocks (w_client w) k \<noteq> None \<Longrightarrow> c_mappingLocks c k \<noteq> None"
    and "\<And>k. holds (w_pc w t) \<noteq> Some k \<Longrightarrow>
           c_nonces c k = c_nonces (w_client w) k \<and> srv k = w_server w k"
    and "\<And>k n. holds (w_pc w t) = Some k \<Longrightarrow> srv k = Some n \<Longrightarrow> c_nonces c k = Some n"
    and "pc_ok c srv p"
  shows "world_ok (w\<lparr>w_client := c, w_server := srv, w_pc := (w_pc w)(t := p)\<rparr>)"
proof -
  note ok = world_okD [OF assms(1)]
  have "c_nonces c k = Some n" if "srv k = Some n" for k n
    using that ok(2) [of k n] assms(4,5) by (cases "holds (w_pc w t) = Some k") auto
  moreover have "pc_ok c srv (w_pc w u)" if "u \<noteq> t" for u
  proof (rule pc_ok_frame [OF ok(3) [of u]])
    fix k assume "holds (w_pc w u) = Some k"
    then have "holds (w_pc w t) \<noteq> Some k"
      using ok(1) [of k u] ok(1) [of k t] that by auto
    then show "c_nonces c k = c_nonces (w_client w) k \<and> srv k \<in> {w_server w k, None}"
      using assms(4) by simp
  qed (use assms(3) in simp)
  ultimately show ?thesis
    using assms(2,6) ok(1) by (auto simp: world_ok_def map_le_def dom_def)
qed

lemma lock_Lock_Some:
  "lock_Lock t key c = Some c' \<Longrightarrow>
     c_mappingLocks c key = Some None \<and> c' = c\<lparr>c_mappingLocks := (c_mappingLocks c)(key \<mapsto> Some t)\<rparr>"
  by (auto simp: lock_Lock_def split: if_splits)

lemma lock_entry_frame [simp]:
  "c_nonces (lock_entry key c) = c_nonces c"
  "c_mappingLocks (lock_entry key c) k = Some (Some u) \<longleftrightarrow> c_mappingLocks c k = Some (Some u)"
  "c_mappingLocks c k \<noteq> None \<Longrightarrow> c_mappingLocks (lock_entry key c) k \<noteq> None"
  "c_mappingLocks (lock_entry key c) key \<noteq> None"
  by (auto simp: lock_entry_def split: option.split)

lemma server_step_frame:
  assumes "server_step refusal q srv = (code, srv')"
  shows "k \<noteq> key_of_request q \<Longrightarrow> srv' k = srv k"
    and "srv' (key_of_request q) \<in> {srv (key_of_request q), None, Some (mq_Nonce q)}"
  using assms by (auto simp: server_step_def Let_def split: if_splits option.splits)

text \<open>The server's answer to a request with the nonce of the mapping, if there is one.\<close>

lemma server_step_authorized:
  assumes "server_step refusal q srv = (code, srv')" and "srv (key_of_request q) \<in> {None, Some (mq_Nonce q)}"
    and "refusal \<noteq> Some ResultNotAuthorized"
  shows "code \<noteq> ResultNotAuthorized"
    and "mq_Lifetime q = 0 \<Longrightarrow> srv' (key_of_request q) = None"
    and "srv' (key_of_request q) \<in> {srv (key_of_request q), None, Some (mq_Nonce q)}"
  using assms
  by (auto simp: server_step_def Let_def ResultNotAuthorized_def ResultSuccess_def split: option.splits if_splits)

lemma holdsD:
  assumes "world_ok w" and "holds (w_pc w t) = Some key"
  shows "c_mappingLocks (w_client w) key = Some (Some t)"
    and "k \<noteq> key \<Longrightarrow> c_mappingLocks (w_client w) k \<noteq> Some (Some t)"
  using world_okD(1) [OF assms(1), of key t] world_okD(1) [OF assms(1), of k t] assms(2) by auto

lemma world_ok_serve:
  assumes ok: "world_ok w" and pc: "w_pc w t = InFlight mc n codes"
    and q0: "decode_map_request (map_request mc n) = Some q"
    and srv: "server_step refusal q (w_server w) = (code, srv)" and ref: "refusal \<noteq> Some ResultNotAuthorized"
  shows "world_ok (w\<lparr>w_server := srv, w_pc := (w_pc w)(t := InFlight mc n (codes @ [code]))\<rparr>)"
proof -
  have q: "key_of_request q = map_key mc" "mq_Nonce q = n" "mq_Lifetime q = mc_lifetimeSec mc"
    using decode_map_request_call [of mc n] q0 by auto
  have p: "pc_ok (w_client w) (w_server w) (InFlight mc n codes)"
    using world_okD(3) [OF ok, of t] unfolding pc .
  then have auth: "w_server w (map_key mc) \<in> {None, Some n}"
    using world_okD(2) [OF ok, of "map_key mc"]
    by (cases "w_server w (map_key mc)") (auto split: if_splits)
  note a = server_step_authorized [OF srv auth [folded q(1,2)] ref, unfolded q]
  have "world_ok (w\<lparr>w_client := w_client w, w_server := srv,
      w_pc := (w_pc w)(t := InFlight mc n (codes @ [code]))\<rparr>)"
  proof (rule world_ok_update [OF ok])
    show "pc_ok (w_client w) srv (InFlight mc n (codes @ [code]))"
      using p a(1,2) by auto
    show "c_nonces (w_client w) k = c_nonces (w_client w) k \<and> srv k = w_server w k"
      if "holds (w_pc w t) \<noteq> Some k" for k
      using that server_step_frame(1) [OF srv, of k] pc by (auto simp: q)
    show "c_nonces (w_client w) k = Some n'" if "holds (w_pc w t) = Some k" "srv k = Some n'" for k n'
      using that a(2,3) p world_okD(2) [OF ok, of k n'] pc by (auto split: if_splits)
  qed (use pc world_okD(1) [OF ok] in auto)
  then show ?thesis by simp
qed

lemma world_ok_unlock:
  assumes ok: "world_ok w" and "w_pc w t = Unlocking mc"
  shows "world_ok (w\<lparr>w_client := lock_Unlock (map_key mc) (w_client w), w_pc := (w_pc w)(t := Idle)\<rparr>)"
proof -
  have "holds (w_pc w t) = Some (map_key mc)" using assms(2) by simp
  note h = holdsD [OF ok this]
  have "world_ok (w\<lparr>w_client := lock_Unlock (map_key mc) (w_client w), w_server := w_server w,
      w_pc := (w_pc w)(t := Idle)\<rparr>)"
  proof (rule world_ok_update [OF ok])
    fix k u
    show "c_mappingLocks (lock_Unlock (map_key mc) (w_client w)) k = Some (Some u) \<longleftrightarrow>
        (if u = t then holds Idle = Some k else c_mappingLocks (w_client w) k = Some (Some u))"
      using h(1) h(2) [of k] by (cases "k = map_key mc"; cases "u = t") simp_all
  qed (use world_okD(2) [OF ok] in auto)
  then show ?thesis by simp
qed

lemma step_world_ok:
  assumes "step w w'" and ok: "world_ok w"
  shows "world_ok w'"
  using assms(1)
proof cases
  case (Start t io p ip ep sip lt mc)
  have "world_ok (w\<lparr>w_client := w_client w, w_server := w_server w, w_pc := (w_pc w)(t := Prepared mc)\<rparr>)"
    using Start world_okD [OF ok] by (intro world_ok_update [OF ok]) auto
  with Start show ?thesis by simp
next
  case (Entry t mc)
  have "world_ok (w\<lparr>w_client := lock_entry (map_key mc) (w_client w), w_server := w_server w,
      w_pc := (w_pc w)(t := Queued mc)\<rparr>)"
    using Entry world_okD [OF ok] by (intro world_ok_update [OF ok]) auto
  with Entry show ?thesis by simp
next
  case (Lock t mc c)
  note c = lock_Lock_Some [OF Lock(3)]
  have free: "holds (w_pc w u) \<noteq> Some (map_key mc)" for u
    using world_okD(1) [OF ok, of "map_key mc" u] c by auto
  have "world_ok (w\<lparr>w_client := c, w_server := w_server w, w_pc := (w_pc w)(t := Locked mc)\<rparr>)"
    using Lock world_okD [OF ok] c free by (intro world_ok_update [OF ok]) auto
  with Lock show ?thesis by simp
next
  case (Begin t mc n c)
  note b = map_beginD [OF Begin(3)]
  have n: "w_server w (map_key mc) = Some m \<Longrightarrow> n = m" for m
    using b(1) world_okD(2) [OF ok, of "map_key mc" m] by simp
  have "world_ok (w\<lparr>w_client := c, w_server := w_server w, w_pc := (w_pc w)(t := InFlight mc n [])\<rparr>)"
    using Begin world_okD [OF ok] b n
    by (intro world_ok_update [OF ok]) (auto split: if_splits option.splits)
  with Begin show ?thesis by simp
next
  case (Serve t mc n codes q refusal code srv)
  with world_ok_serve [OF ok] show ?thesis by simp
next
  case (Answer t mc n codes answer)
  have p: "pc_ok (w_client w) (w_server w) (InFlight mc n codes)"
    using world_okD(3) [OF ok, of t] unfolding Answer(2) .
  have "codes \<noteq> []" if "map_check mc n answer = Inr m" for m
    using that Answer(3) by (auto simp: map_check_Inr_iff honest_answer_def)
  then have "pc_ok (w_client w) (w_server w) (Answered mc (map_check mc n answer))"
    using p by (cases "map_check mc n answer") auto
  then have "world_ok (w\<lparr>w_client := w_client w, w_server := w_server w,
      w_pc := (w_pc w)(t := Answered mc (map_check mc n answer))\<rparr>)"
    using Answer(2) world_okD [OF ok] by (intro world_ok_update [OF ok]) auto
  with Answer(1) show ?thesis by simp
next
  case (Finish t mc m oob now)
  have "world_ok (w\<lparr>w_client := map_finish oob now mc m (w_client w), w_server := w_server w,
      w_pc := (w_pc w)(t := Unlocking mc)\<rparr>)"
    using Finish world_okD [OF ok] world_okD(3) [OF ok, of t]
    by (intro world_ok_update [OF ok]) (auto simp: map_finish_nonces)
  with Finish show ?thesis by simp
next
  case (Fail t mc err)
  have "world_ok (w\<lparr>w_client := w_client w, w_server := w_server w, w_pc := (w_pc w)(t := Unlocking mc)\<rparr>)"
    using Fail world_okD [OF ok] by (intro world_ok_update [OF ok]) auto
  with Fail show ?thesis by simp
next
  case (Unlock t mc)
  with world_ok_unlock [OF ok] show ?thesis by simp
next
  case (Expire key)
  have "pc_ok (w_client w) ((w_server w)(key := None)) (w_pc w u)" for u
    by (rule pc_ok_frame [OF world_okD(3) [OF ok, of u]]) auto
  moreover have "(w_server w)(key := None) \<subseteq>\<^sub>m c_nonces (w_client w)"
    using world_okD(2) [OF ok] by (auto simp: map_le_def dom_def)
  ultimately show ?thesis
    using Expire world_okD(1) [OF ok] by (simp add: world_ok_def)
qed

lemma fresh_world_ok: "locks_free c \<Longrightarrow> world_ok (fresh_world c)"
  by (simp add: world_ok_def fresh_world_def locks_free_def)

lemma reachable_ok:
  assumes "locks_free c" and "reachable c w"
  shows "world_ok w"
  using assms(2) unfolding reachable_def
  by (induction rule: rtranclp_induct) (auto intro: fresh_world_ok [OF assms(1)] step_world_ok)

section \<open>A call is a run\<close>

text \<open>The server's work on the copies of one request.\<close>

fun serve_all :: "byte option list \<Rightarrow> map_message \<Rightarrow> server \<Rightarrow> byte list \<times> server" where
  "serve_all [] q srv = ([], srv)"
| "serve_all (refusal # rs) q srv =
     (let (code, srv) = server_step refusal q srv; (codes, srv) = serve_all rs q srv
      in (code # codes, srv))"

lemma length_serve_all: "serve_all rs q srv = (codes, srv') \<Longrightarrow> length codes = length rs"
  by (induction rs arbitrary: srv codes) (auto split: prod.splits)

lemma serve_steps:
  assumes "w_pc w t = InFlight mc n done" and "decode_map_request (map_request mc n) = Some q"
    and "serve_all rs q (w_server w) = (codes, srv)" and "length done + length rs \<le> maxRetries"
    and "Some ResultNotAuthorized \<notin> set rs"
  shows "step\<^sup>*\<^sup>* w (w\<lparr>w_server := srv, w_pc := (w_pc w)(t := InFlight mc n (done @ codes))\<rparr>)"
  using assms
proof (induction rs arbitrary: w "done" codes)
  case Nil
  then have "(w_pc w)(t := InFlight mc n done) = w_pc w" by auto
  with Nil show ?case by auto
next
  case (Cons refusal rs)
  obtain code srv1 where s1: "server_step refusal q (w_server w) = (code, srv1)" by fastforce
  obtain codes' where s2: "serve_all rs q srv1 = (codes', srv)" "codes = code # codes'"
    using Cons.prems(3) s1 by (auto split: prod.splits)
  let ?w = "w\<lparr>w_server := srv1, w_pc := (w_pc w)(t := InFlight mc n (done @ [code]))\<rparr>"
  have "step w ?w"
    using Cons.prems s1 by (intro step.Serve [where q = q]) auto
  moreover have "step\<^sup>*\<^sup>* ?w (?w\<lparr>w_server := srv,
      w_pc := (w_pc ?w)(t := InFlight mc n ((done @ [code]) @ codes'))\<rparr>)"
    using Cons.prems s2 by (intro Cons.IH) auto
  moreover have "?w\<lparr>w_server := srv, w_pc := (w_pc ?w)(t := InFlight mc n ((done @ [code]) @ codes'))\<rparr> =
      w\<lparr>w_server := srv, w_pc := (w_pc w)(t := InFlight mc n (done @ codes))\<rparr>"
    by (simp add: s2(2))
  ultimately show ?case by (metis converse_rtranclp_into_rtranclp)
qed

text \<open>The sections of a call up to its request being processed.\<close>

lemma run_inflight:
  assumes "w_pc w t = Idle"
    and "map_prepare io protocol ip ep sip lifetime (w_client w) = Inr mc"
    and "lockMapping t (map_key mc) (w_client w) = Some cl" and "map_begin mc cl = (n, cb)"
    and "decode_map_request (map_request mc n) = Some q"
    and "serve_all rs q (w_server w) = (codes, srv)" and "length rs \<le> maxRetries"
    and "Some ResultNotAuthorized \<notin> set rs"
  shows "step\<^sup>*\<^sup>* w (w\<lparr>w_client := cb, w_server := srv, w_pc := (w_pc w)(t := InFlight mc n codes)\<rparr>)"
proof -
  let ?at = "\<lambda>c s p. w\<lparr>w_client := c, w_server := s, w_pc := (w_pc w)(t := p)\<rparr>"
  define ce where "ce = lock_entry (map_key mc) (w_client w)"
  have lock: "lock_Lock t (map_key mc) ce = Some cl"
    using assms(3) by (simp add: ce_def lockMapping_def)
  have 1: "step w (?at (w_client w) (w_server w) (Prepared mc))"
    using step.Start [OF assms(1,2)] by simp
  have 2: "step (?at (w_client w) (w_server w) (Prepared mc)) (?at ce (w_server w) (Queued mc))"
    using step.Entry [of "?at (w_client w) (w_server w) (Prepared mc)" t mc] by (simp add: ce_def)
  have 3: "step (?at ce (w_server w) (Queued mc)) (?at cl (w_server w) (Locked mc))"
    using step.Lock [of "?at ce (w_server w) (Queued mc)" t mc cl] lock by simp
  have 4: "step (?at cl (w_server w) (Locked mc)) (?at cb (w_server w) (InFlight mc n []))"
    using step.Begin [of "?at cl (w_server w) (Locked mc)" t mc n cb] assms(4) by simp
  have "step\<^sup>*\<^sup>* (?at cb (w_server w) (InFlight mc n [])) (?at cb srv (InFlight mc n codes))"
    using serve_steps [of "?at cb (w_server w) (InFlight mc n [])" t mc n "[]" q rs codes srv]
      assms(5-8) by simp
  with 1 2 3 4 show ?thesis by (meson converse_rtranclp_into_rtranclp)
qed

section \<open>Properties\<close>

text \<open>
  The sequential operation refines the concurrent one: a call that runs alone, its request
  processed by the server any number of times up to the four copies sent and answered honestly, is a
  run of the step relation from its goroutine's idle state back to it, with the same client and the
  same server at the end.
\<close>

theorem call_is_run:
  assumes "w_pc w t = Idle"
    and "map_prepare io protocol ip ep sip lifetime (w_client w) = Inr mc"
    and "addPortMappingWithHint io t protocol ip ep sip lifetime (w_client w) = Some (r, evs, c')"
    and "n = fst (map_begin mc (w_client w))" and "decode_map_request (map_request mc n) = Some q"
    and "serve_all rs q (w_server w) = (codes, srv)" and "length rs \<le> maxRetries"
    and "Some ResultNotAuthorized \<notin> set rs"
    and "honest_answer mc n codes (fst (sendRequest (ci_send io) (map_request mc n) (w_client w)))"
  shows "step\<^sup>*\<^sup>* w (w\<lparr>w_client := c', w_server := srv\<rparr>)"
proof (cases rule: addPortMapping_cases [of io protocol ip ep sip lifetime "w_client w" t])
  case (ran mc' cl k cb answer evs' r' c'')
  have mc: "mc' = mc" and r: "r' = r" and c': "c' = lock_Unlock (map_key mc) c''"
    using ran(1,8) assms(2,3) by auto
  have k: "k = n"
    using map_begin_nonce [of mc "w_client w"] map_beginD(1) [OF ran(4) [unfolded mc]]
    by (simp add: assms(4) ran(3) mc)
  let ?at = "\<lambda>c s p. w\<lparr>w_client := c, w_server := s, w_pc := (w_pc w)(t := p)\<rparr>"
  have lock: "lockMapping t (map_key mc) (w_client w) = Some cl"
    using ran(2,3) mc by (auto simp: lockMapping_Some_iff)
  have 5: "step\<^sup>*\<^sup>* w (?at cb srv (InFlight mc n codes))"
    using run_inflight [OF assms(1,2) lock ran(4) [unfolded mc k] assms(5-8)] .
  have 6: "step (?at cb srv (InFlight mc n codes)) (?at cb srv (Answered mc r))"
    using step.Answer [of "?at cb srv (InFlight mc n codes)" t mc n codes answer] ran(5,6) assms(9)
    by (simp add: mc k r)
  have 7: "step (?at cb srv (Answered mc r)) (?at c'' srv (Unlocking mc))"
  proof (cases r)
    case (Inl err)
    then show ?thesis
      using step.Fail [of "?at cb srv (Answered mc r)" t mc err] ran(7) r by simp
  next
    case (Inr m)
    then show ?thesis
      using step.Finish [of "?at cb srv (Answered mc r)" t mc m "ci_oob io" "ci_now io"] ran(7) r mc
      by (cases w) simp
  qed
  have 8: "step (?at c'' srv (Unlocking mc)) (?at c' srv Idle)"
    using step.Unlock [of "?at c'' srv (Unlocking mc)" t mc]
    by (cases w) (simp add: c')
  have "(w_pc w)(t := Idle) = w_pc w" using assms(1) by auto
  then have "?at c' srv Idle = w\<lparr>w_client := c', w_server := srv\<rparr>" by simp
  moreover have "step\<^sup>*\<^sup>* (?at cb srv (InFlight mc n codes)) (?at c' srv Idle)"
    using 6 7 8 by (meson converse_rtranclp_into_rtranclp rtranclp.rtrancl_refl)
  ultimately show ?thesis
    using 5 by (metis rtranclp_trans)
qed (use assms in simp_all)

text \<open>
  The example: goroutine 0 maps a port for a minute, the server has processed its request once.
  In \<open>deleting\<close> it then deletes the mapping, and the server has confirmed.
\<close>

definition key_51820 :: mappingKey where
  "key_51820 = \<lparr>mk_proto = 17, mk_port = 51820\<rparr>"

definition in_flight :: world where
  "in_flight = \<lparr>w_client = client_v4\<lparr>c_nonces := [key_51820 \<mapsto> 7], c_mappingLocks := [key_51820 \<mapsto> Some 0]\<rparr>,
     w_server = [key_51820 \<mapsto> 7], w_pc = (\<lambda>_. Idle)(0 := InFlight mc_51820 7 [ResultSuccess])\<rparr>"

lemma map_key_51820 [simp]: "map_key mc_51820 = key_51820"
  by (simp add: map_key_def mc_51820_def key_51820_def)

lemma mc_51820_lifetime [simp]: "mc_lifetimeSec mc_51820 = 60"
  by (simp add: mc_51820_def)

lemma in_flight_reachable: "reachable client_v4 in_flight"
proof -
  obtain q where q: "decode_map_request (map_request mc_51820 7) = Some q"
    "key_of_request q = key_51820" "mq_Nonce q = 7" "mq_Lifetime q = 60"
    using decode_map_request_call [of mc_51820 7] by auto
  have s: "serve_all [None] q Map.empty = ([ResultSuccess], [key_51820 \<mapsto> 7])"
    by (simp add: server_step_def q)
  have l: "lockMapping 0 (map_key mc_51820) client_v4 =
      Some (client_v4\<lparr>c_mappingLocks := [key_51820 \<mapsto> Some 0]\<rparr>)"
    by (simp add: lockMapping_Some_iff)
  have b: "map_begin mc_51820 (client_v4\<lparr>c_mappingLocks := [key_51820 \<mapsto> Some 0]\<rparr>) =
      (7, client_v4\<lparr>c_nonces := [key_51820 \<mapsto> 7], c_mappingLocks := [key_51820 \<mapsto> Some 0]\<rparr>)"
    by (simp add: map_begin_def Let_def) (simp add: mc_51820_def)
  have "step\<^sup>*\<^sup>* (fresh_world client_v4) in_flight"
    using run_inflight [of "fresh_world client_v4" 0, OF _ _ _ b q(1), of "granting_io 7" "''udp''"
        51820 51820 NoAddr "60 * second" "[None]" "[ResultSuccess]"] s l prepare_51820(1)
    by (simp add: fresh_world_def in_flight_def maxRetries_def)
  then show ?thesis by (simp add: reachable_def)
qed

lemma client_v4_free [simp]: "locks_free client_v4"
  by (simp add: locks_free_def)

text \<open>
  C1. No mapping is orphaned: in every interleaving of calls, with requests and responses lost,
  duplicated and forged, each mapping the server holds has its nonce in the client's table, so a
  later delete can present it.
  The network assumption is that of the relation \<open>step\<close>: the server processes a copy of a request only
  while its call waits for the answer.
\<close>

theorem no_orphaned_mapping:
  assumes "locks_free c" and "reachable c w" and "w_server w key = Some n"
  shows "c_nonces (w_client w) key = Some n"
  using world_okD(2) [OF reachable_ok [OF assms(1,2)] assms(3)] .

theorem no_orphaned_mapping_witness:
  "w_server in_flight key_51820 = Some 7 \<and> c_nonces (w_client in_flight) key_51820 = Some 7"
proof -
  have "w_server in_flight key_51820 = Some 7" by (simp add: in_flight_def)
  with no_orphaned_mapping [OF client_v4_free in_flight_reachable this] show ?thesis by simp
qed

text \<open>
  C23. The server never refuses a request of this client for presenting the wrong nonce, however its
  calls interleave.
  The network assumption is that of the relation \<open>step\<close>: the server processes a copy of a request only
  while its call waits for the answer.
\<close>

theorem never_refused:
  assumes "locks_free c" and "reachable c w" and "w_pc w t = InFlight mc n codes"
  shows "ResultNotAuthorized \<notin> set codes"
  using world_okD(3) [OF reachable_ok [OF assms(1,2)], of t] assms(3) by simp

theorem never_refused_witness:
  "w_pc in_flight 0 = InFlight mc_51820 7 [ResultSuccess] \<and> ResultNotAuthorized \<notin> set [ResultSuccess]"
proof -
  have "w_pc in_flight 0 = InFlight mc_51820 7 [ResultSuccess]" by (simp add: in_flight_def)
  with never_refused [OF client_v4_free in_flight_reachable this] show ?thesis by simp
qed

text \<open>
  Two goroutines are never inside a request for the same mapping at the same time.
\<close>

theorem mapping_mutual_exclusion:
  assumes "locks_free c" and "reachable c w"
    and "holds (w_pc w t) = Some key" and "holds (w_pc w u) = Some key"
  shows "t = u"
  using world_okD(1) [OF reachable_ok [OF assms(1,2)], of key t]
    world_okD(1) [OF reachable_ok [OF assms(1,2)], of key u] assms(3,4) by simp

theorem mapping_mutual_exclusion_witness:
  "holds (w_pc in_flight 0) = Some key_51820 \<and> holds (w_pc in_flight 1) \<noteq> Some key_51820"
proof -
  have h: "holds (w_pc in_flight 0) = Some key_51820" by (simp add: in_flight_def)
  with mapping_mutual_exclusion [OF client_v4_free in_flight_reachable h, of 1] show ?thesis by auto
qed

definition mc_delete :: map_call where
  "mc_delete = mc_51820\<lparr>mc_suggestedExtPort := 0, mc_lifetimeSec := 0\<rparr>"

lemma mc_delete_simps [simp]:
  "map_key mc_delete = key_51820" "mc_lifetimeSec mc_delete = 0" "mc_fresh mc_delete = 7"
  by (simp_all add: mc_delete_def map_key_def mc_51820_def key_51820_def)

definition deleting :: world where
  "deleting = \<lparr>w_client = client_v4\<lparr>c_mappingLocks := [key_51820 \<mapsto> Some 0]\<rparr>,
     w_server = Map.empty, w_pc = (\<lambda>_. Idle)(0 := Answered mc_delete (Inr (granted mc_delete 7)))\<rparr>"

lemma deleting_reachable: "reachable client_v4 deleting"
proof -
  obtain q where q: "decode_map_request (map_request mc_delete 7) = Some q"
    "key_of_request q = key_51820" "mq_Nonce q = 7" "mq_Lifetime q = 0"
    using decode_map_request_call [of mc_delete 7] by auto
  have s: "serve_all [None] q Map.empty = ([ResultSuccess], Map.empty)"
    by (simp add: server_step_def q)
  let ?c = "client_v4\<lparr>c_mappingLocks := [key_51820 \<mapsto> Some 0]\<rparr>"
  let ?w = "\<lparr>w_client = ?c, w_server = Map.empty, w_pc = (\<lambda>_. Idle)(0 := InFlight mc_delete 7 [ResultSuccess])\<rparr>"
  have l: "lockMapping 0 (map_key mc_delete) client_v4 = Some ?c"
    by (simp add: lockMapping_Some_iff)
  have b: "map_begin mc_delete ?c = (7, ?c)"
    by (simp add: map_begin_def Let_def)
  have "step\<^sup>*\<^sup>* (fresh_world client_v4) ?w"
    using run_inflight [of "fresh_world client_v4" 0, OF _ _ _ b q(1), of "granting_io 7" "''udp''"
        51820 0 NoAddr 0 "[None]" "[ResultSuccess]"] s l prepare_51820(3)
    by (simp add: fresh_world_def maxRetries_def mc_delete_def [symmetric])
  moreover have "step ?w deleting"
  proof -
    let ?answer = "fst (sendRequest (ci_send (granting_io 7)) (map_request mc_delete 7) client_v4)"
    have m: "map_check mc_delete 7 ?answer = Inr (granted mc_delete 7)"
      by (rule granting_request) simp_all
    then have "honest_answer mc_delete 7 [ResultSuccess] ?answer"
      by (auto simp: map_check_Inr_iff honest_answer_def)
    from step.Answer [OF _ this, of ?w 0] show ?thesis
      by (simp add: m deleting_def)
  qed
  ultimately show ?thesis
    by (simp add: reachable_def rtranclp.rtrancl_into_rtrancl)
qed

text \<open>
  C2. A confirmed deletion is real: when a delete call has accepted the server's answer, the server
  holds no mapping for its port any more, until the lock of the mapping is released.
  The network assumption is that of the relation \<open>step\<close>: the server processes a copy of a request only
  while its call waits for the answer.
\<close>

theorem delete_effective:
  assumes "locks_free c" and "reachable c w"
    and "w_pc w t = Answered mc (Inr m)" and "mc_lifetimeSec mc = 0"
  shows "w_server w (map_key mc) = None"
  using world_okD(3) [OF reachable_ok [OF assms(1,2)], of t] assms(3,4) by simp

theorem delete_effective_witness:
  "w_pc deleting 0 = Answered mc_delete (Inr (granted mc_delete 7)) \<and> w_server deleting key_51820 = None"
proof -
  have "w_pc deleting 0 = Answered mc_delete (Inr (granted mc_delete 7))" by (simp add: deleting_def)
  with delete_effective [OF client_v4_free deleting_reachable this] show ?thesis by simp
qed

text \<open>The steps of the calls that are under way: no call starts, and no mapping expires.\<close>

definition inner_step :: "world \<Rightarrow> world \<Rightarrow> bool" where
  "inner_step w w' \<longleftrightarrow> step w w' \<and> w_pc w' \<noteq> w_pc w \<and> (\<forall>t. w_pc w t = Idle \<longrightarrow> w_pc w' t = Idle)"

fun pc_rank :: "pc \<Rightarrow> nat" where
  "pc_rank Idle = 0"
| "pc_rank (Prepared mc) = maxRetries + 6"
| "pc_rank (Queued mc) = maxRetries + 5"
| "pc_rank (Locked mc) = maxRetries + 4"
| "pc_rank (InFlight mc n codes) = (maxRetries - length codes) + 3"
| "pc_rank (Answered mc r) = 2"
| "pc_rank (Unlocking mc) = 1"

definition active :: "world \<Rightarrow> nat set" where
  "active w = {t. w_pc w t \<noteq> Idle}"

definition calls_size :: "world \<Rightarrow> nat" where
  "calls_size w = (\<Sum>t \<in> active w. pc_rank (w_pc w t))"

text \<open>A step moves at most one goroutine; when it is under way already, its rank falls.\<close>

lemma step_moves:
  assumes "step w w'"
  shows "w_pc w' = w_pc w \<or>
    (\<exists>t p. w_pc w' = (w_pc w)(t := p) \<and> (w_pc w t = Idle \<or> pc_rank p < pc_rank (w_pc w t)))"
proof -
  have moves: ?thesis if "w_pc w' = (w_pc w)(t := p)" "w_pc w t = Idle \<or> pc_rank p < pc_rank (w_pc w t)" for t p
    using that by blast
  from assms show ?thesis by cases ((rule moves, simp, simp; fail) | simp)+
qed

lemma reachable_active: "reachable c w \<Longrightarrow> finite (active w)"
  unfolding reachable_def
proof (induction rule: rtranclp_induct)
  case (step w w')
  from step_moves [OF step.hyps(2)] have "\<exists>t. active w' \<subseteq> insert t (active w)"
    by (auto simp: active_def)
  with step.IH show ?case by (meson finite_insert finite_subset)
qed (simp add: active_def fresh_world_def)

lemma inner_step_size:
  assumes "inner_step w w'" and "finite (active w)"
  shows "calls_size w' < calls_size w"
proof -
  from assms(1) obtain t p where t: "w_pc w' = (w_pc w)(t := p)" "w_pc w t \<noteq> Idle" "pc_rank p < pc_rank (w_pc w t)"
    using step_moves [of w w'] unfolding inner_step_def by (metis fun_upd_idem fun_upd_same)
  have "calls_size w' = (\<Sum>u \<in> active w. pc_rank (w_pc w' u))"
    unfolding calls_size_def
    by (rule sum.mono_neutral_left [OF assms(2)]) (use t in \<open>auto simp: active_def\<close>)
  also have "\<dots> < calls_size w"
    unfolding calls_size_def
    by (rule sum_strict_mono_ex1 [OF assms(2)]) (use t in \<open>auto simp: active_def intro: bexI [of _ t]\<close>)
  finally show ?thesis .
qed

lemma calls_progress:
  assumes "locks_free c" and "reachable c w" and "active w \<noteq> {}"
  shows "\<exists>w'. inner_step w w'"
proof -
  note ok = world_okD [OF reachable_ok [OF assms(1,2)]]
  have go: "\<exists>w'. inner_step w w'" if "step w w'" "w_pc w' = (w_pc w)(t := p)" "w_pc w t \<noteq> Idle" "p \<noteq> w_pc w t" for w' t p
    using that by (intro exI [of _ w']) (auto simp: inner_step_def fun_upd_idem_iff)
  have holder: "\<exists>w'. inner_step w w'" if "holds (w_pc w u) = Some key" for u key
  proof (cases "w_pc w u")
    case (Locked mc)
    obtain n d where b: "map_begin mc (w_client w) = (n, d)" by fastforce
    show ?thesis by (rule go [OF step.Begin [OF Locked b]]) (simp, simp_all add: Locked)
  next
    case (InFlight mc n codes)
    have h: "honest_answer mc n codes (Inl (CtxErr Canceled))" by (simp add: honest_answer_def)
    show ?thesis by (rule go [OF step.Answer [OF InFlight h]]) (simp, simp_all add: InFlight)
  next
    case (Answered mc r)
    show ?thesis
    proof (cases r)
      case (Inl err)
      show ?thesis by (rule go [OF step.Fail [OF Answered [unfolded Inl]]]) (simp, simp_all add: Answered)
    next
      case (Inr m)
      show ?thesis by (rule go [OF step.Finish [OF Answered [unfolded Inr]]]) (simp, simp_all add: Answered)
    qed
  next
    case (Unlocking mc)
    show ?thesis by (rule go [OF step.Unlock [OF Unlocking]]) (simp, simp_all add: Unlocking)
  qed (use that in simp_all)
  from assms(3) obtain t where t: "w_pc w t \<noteq> Idle" by (auto simp: active_def)
  show ?thesis
  proof (cases "w_pc w t")
    case (Prepared mc)
    show ?thesis by (rule go [OF step.Entry [OF Prepared]]) (simp, simp_all add: Prepared)
  next
    case (Queued mc)
    then have "c_mappingLocks (w_client w) (map_key mc) \<noteq> None" using ok(3) [of t] by simp
    then consider "c_mappingLocks (w_client w) (map_key mc) = Some None"
      | u where "holds (w_pc w u) = Some (map_key mc)"
      using ok(1) by (metis not_Some_eq)
    then show ?thesis
    proof cases
      case 1
      then obtain d where d: "lock_Lock t (map_key mc) (w_client w) = Some d" by (simp add: lock_Lock_def)
      show ?thesis by (rule go [OF step.Lock [OF Queued d]]) (simp, simp_all add: Queued)
    qed (rule holder)
  qed (use t holder [of t] in simp_all)
qed

text \<open>
  C24. Calls never block each other for good: in every state that goroutines sharing a client can reach,
  however the calls under way go on, each step brings them nearer to their return, so that after
  at most \<open>calls_size\<close> steps none of them can be left, and as long as one is left some goroutine can go on.
  So all of them return, also when every request and every response is lost.
\<close>

theorem calls_finish:
  assumes "locks_free c" and "reachable c w"
  shows "(\<exists>w'. inner_step\<^sup>*\<^sup>* w w' \<and> active w' = {}) \<and>
    (\<forall>k w'. (inner_step ^^ k) w w' \<longrightarrow> k \<le> calls_size w \<and> (active w' = {} \<or> (\<exists>w''. inner_step w' w'')))"
proof -
  have down: "reachable c y \<and> calls_size y < calls_size x" if "reachable c x" "inner_step x y" for x y
    using that inner_step_size reachable_active
    by (auto simp: reachable_def inner_step_def intro: rtranclp.rtrancl_into_rtrancl)
  have progress: "\<exists>y. inner_step x y" if "reachable c x" "active x \<noteq> {}" for x
    using calls_progress [OF assms(1) that] .
  have "\<exists>w'. inner_step\<^sup>*\<^sup>* w w' \<and> reachable c w' \<and> active w' = {}"
    by (rule runs_to_end(1) [where size = calls_size]) (fact down | fact progress | fact assms(2))+
  moreover have "k \<le> calls_size w \<and> reachable c w' \<and> (active w' = {} \<or> (\<exists>w''. inner_step w' w''))"
    if "(inner_step ^^ k) w w'" for k w'
    by (rule runs_to_end(2) [where F = "\<lambda>x. active x = {}"]) (fact down | fact progress | fact assms(2) | fact that)+
  ultimately show ?thesis by blast
qed

theorem calls_finish_witness:
  "active in_flight = {0} \<and> calls_size in_flight = 6 \<and> (\<exists>w'. inner_step\<^sup>*\<^sup>* in_flight w' \<and> active w' = {})"
proof -
  have a: "active in_flight = {0}" by (auto simp: active_def in_flight_def)
  moreover from a have "calls_size in_flight = 6" by (simp add: calls_size_def) (simp add: in_flight_def maxRetries_def)
  ultimately show ?thesis using calls_finish [OF client_v4_free in_flight_reachable] by blast
qed

theorem call_is_run_witness:
  "\<exists>c' r evs. addPortMappingWithHint (granting_io 7) 0 ''udp'' 51820 51820 NoAddr (60 * second) client_v4
       = Some (r, evs, c') \<and>
     reachable client_v4 \<lparr>w_client = c', w_server = [key_51820 \<mapsto> 7], w_pc = (\<lambda>_. Idle)\<rparr>"
proof -
  obtain c' where call: "addPortMappingWithHint (granting_io 7) 0 ''udp'' 51820 51820 NoAddr
      (60 * second) client_v4 = Some (Inr (granted mc_51820 7),
        [SetDeadline defaultTimeout, Send gateway_v4 (map_request mc_51820 7)], c')"
    using granted_51820 by blast
  obtain q where q: "decode_map_request (map_request mc_51820 7) = Some q"
    "key_of_request q = key_51820" "mq_Nonce q = 7" "mq_Lifetime q = 60"
    using decode_map_request_call [of mc_51820 7] by auto
  have s: "serve_all [None] q Map.empty = ([ResultSuccess], [key_51820 \<mapsto> 7])"
    by (simp add: server_step_def q)
  have "map_check mc_51820 7 (fst (sendRequest (ci_send (granting_io 7)) (map_request mc_51820 7) client_v4))
      = Inr (granted mc_51820 7)"
    by (rule granting_request) simp_all
  then have h: "honest_answer mc_51820 7 [ResultSuccess]
      (fst (sendRequest (ci_send (granting_io 7)) (map_request mc_51820 7) client_v4))"
    by (auto simp: map_check_Inr_iff honest_answer_def)
  have n: "7 = fst (map_begin mc_51820 client_v4)"
    by (simp add: map_begin_nonce) (simp add: mc_51820_def)
  have "step\<^sup>*\<^sup>* (fresh_world client_v4)
      (fresh_world client_v4\<lparr>w_client := c', w_server := [key_51820 \<mapsto> 7]\<rparr>)"
    using call_is_run [of "fresh_world client_v4" 0, OF _ _ _ _ q(1), where rs = "[None]"]
      prepare_51820(1) call n s h by (simp add: fresh_world_def maxRetries_def)
  with call show ?thesis
    by (auto simp: reachable_def fresh_world_def)
qed

end
