(* ===== verification/Go_Context.thy ===== *)
theory Go_Context
  imports Go_Errors Go_Float
begin

text \<open>
  Contexts, as far as the code builds them: the caller's, the background context, and those derived
  with \<open>context.WithTimeout\<close> and \<open>context.WithoutCancel\<close>. What a network call answers may depend on
  the context it runs under, so the outside of an operation is a function of the context.
\<close>

datatype ctx = Caller | Background | WithTimeout ctx duration | WithoutCancel ctx

text \<open>Whether the end of the caller's context ends a derived one, and the time left in it at most.\<close>

fun follows_caller :: "ctx \<Rightarrow> bool" where
  "follows_caller Caller \<longleftrightarrow> True"
| "follows_caller Background \<longleftrightarrow> False"
| "follows_caller (WithTimeout c d) \<longleftrightarrow> follows_caller c"
| "follows_caller (WithoutCancel c) \<longleftrightarrow> False"

fun time_limit :: "duration option \<Rightarrow> ctx \<Rightarrow> duration option" where
  "time_limit caller Caller = caller"
| "time_limit caller Background = None"
| "time_limit caller (WithTimeout c d) =
     (case time_limit caller c of None \<Rightarrow> Some d | Some d' \<Rightarrow> Some (min d d'))"
| "time_limit caller (WithoutCancel c) = None"

lemma time_limit_WithTimeout:
  "\<exists>d' \<le> d. time_limit caller (WithTimeout c d) = Some d'"
  by (auto split: option.split)

end
