(* ===== verification/Random_Port.thy ===== *)
theory Random_Port
  imports Go_Context "HOL-Library.Sublist"
begin

text \<open>
  \<open>nat.go\<close>'s \<open>randomPort\<close>, and the loop with which NAT-PMP and UPnP try three of its ports in turn.
  A draw of \<open>random.Intn n\<close> is some number below \<open>n\<close>: here the remainder of an arbitrary one.
\<close>

definition Intn :: "nat \<Rightarrow> nat \<Rightarrow> nat" where
  "Intn n r = r mod n"

definition randomPort :: "nat \<Rightarrow> int" where
  "randomPort r = int (Intn (65535 - 10000) r) + 10000"

lemma randomPort_range: "10000 \<le> randomPort r" "randomPort r \<le> 65534"
proof -
  have "r mod (65535 - 10000) < 65535 - 10000" by (rule mod_less_divisor) simp
  then show "10000 \<le> randomPort r" "randomPort r \<le> 65534"
    by (simp_all add: randomPort_def Intn_def)
qed

text \<open>
  \<open>try_ports k call port i err d\<close>: at most \<open>k\<close> further attempts, the next being the \<open>i\<close>-th; \<open>port i\<close>
  is its port and \<open>call p\<close> requests port \<open>p\<close> in the state \<open>d\<close> of the outside. The result is the first
  port that was granted, the error left in \<open>err\<close>, the ports requested and the state after them.
\<close>

fun try_ports ::
  "nat \<Rightarrow> ('p \<Rightarrow> 'd \<Rightarrow> go_err option \<times> 'd) \<Rightarrow> (nat \<Rightarrow> 'p) \<Rightarrow> nat \<Rightarrow> go_err option \<Rightarrow> 'd
   \<Rightarrow> 'p option \<times> go_err option \<times> 'p list \<times> 'd" where
  "try_ports 0 call port i err d = (None, err, [], d)"
| "try_ports (Suc k) call port i err d =
     (let externalPort = port i; (err, d) = call externalPort d
      in if err = None then (Some externalPort, None, [externalPort], d)
         else let (r, err, ps, d) = try_ports k call port (Suc i) err d
              in (r, err, externalPort # ps, d))"

lemma try_ports_length: "try_ports k call port i err d = (r, err', ps, d') \<Longrightarrow> length ps \<le> k"
  by (induction k arbitrary: i err d r err' ps) (auto simp: Let_def split: if_splits prod.splits)

text \<open>The ports requested are the drawn ones in order, all of them unless one was granted.\<close>

lemma try_ports_order:
  assumes "try_ports k call port i err d = (r, err', ps, d')"
  shows "prefix ps (map port [i..<i + k]) \<and> (r = None \<longrightarrow> ps = map port [i..<i + k])"
  using assms
proof (induction k arbitrary: i err d r err' ps d')
  case (Suc k)
  obtain e d1 where c: "call (port i) d = (e, d1)" by fastforce
  have next_ports: "map port [i..<i + Suc k] = port i # map port [Suc i..<Suc i + k]"
    by (simp add: upt_conv_Cons del: upt_Suc)
  show ?case
  proof (cases e)
    case None
    with Suc.prems c have "ps = [port i]" "r = Some (port i)" by (simp_all add: Let_def)
    then show ?thesis unfolding next_ports by simp
  next
    case (Some err1)
    with Suc.prems c obtain qs where
      t: "try_ports k call port (Suc i) e d1 = (r, err', qs, d')" "ps = port i # qs"
      by (auto simp: Let_def split: prod.splits)
    with Suc.IH [OF t(1)] show ?thesis unfolding next_ports by simp
  qed
qed simp

text \<open>
  The requests of a loop, as a relation between the states of the outside: the refused ones, then
  the granted one if there is any.
\<close>

inductive requests ::
  "('p \<Rightarrow> 'd \<Rightarrow> go_err option \<times> 'd) \<Rightarrow> 'd \<Rightarrow> 'p list \<Rightarrow> 'p option \<Rightarrow> go_err option \<Rightarrow> 'd \<Rightarrow> bool"
  for call where
  Stop: "requests call d [] None err d"
| Granted: "call p d = (None, d') \<Longrightarrow> requests call d [p] (Some p) None d'"
| Refused: "call p d = (Some e, d1) \<Longrightarrow> requests call d1 ps r err d' \<Longrightarrow>
    (ps = [] \<Longrightarrow> err = Some e) \<Longrightarrow> requests call d (p # ps) r err d'"

lemma requests_Some:
  "requests call d ps r err d' \<Longrightarrow> r = Some p \<Longrightarrow> ps \<noteq> [] \<and> last ps = p \<and> err = None"
  by (induction rule: requests.induct) auto

lemma requests_None:
  "requests call d ps r err d' \<Longrightarrow> r = None \<Longrightarrow> ps \<noteq> [] \<Longrightarrow> err \<noteq> None"
  by (induction rule: requests.induct) auto

text \<open>Whatever every request keeps holds after the loop.\<close>

lemma requests_keep:
  assumes "requests call d ps r err d'" and "P d"
    and refused: "\<And>p d e d1. p \<in> set ps \<Longrightarrow> P d \<Longrightarrow> call p d = (Some e, d1) \<Longrightarrow> P d1"
    and granted: "\<And>p d d1. p \<in> set ps \<Longrightarrow> P d \<Longrightarrow> call p d = (None, d1) \<Longrightarrow> r = Some p \<Longrightarrow> Q d1"
  shows "if r = None then P d' else Q d'"
  using assms
proof (induction rule: requests.induct)
  case (Granted p d d')
  have "Q d'" by (rule Granted.prems(3) [OF _ Granted.prems(1) Granted.hyps]) simp_all
  then show ?case by simp
next
  case (Refused p d e d1 ps r err d')
  have "P d1" by (rule Refused.prems(2) [OF _ Refused.prems(1) Refused.hyps(1)]) simp
  then show ?case
  proof (rule Refused.IH)
    show "P d1" if "p \<in> set ps" "P d" "call p d = (Some e, d1)" for p d e d1
      using that by (intro Refused.prems(2) [of p d e d1]) auto
    show "Q d1" if "p \<in> set ps" "P d" "call p d = (None, d1)" "r = Some p" for p d d1
      using that by (intro Refused.prems(3) [of p d d1]) auto
  qed
qed simp

lemma try_ports_result:
  assumes "try_ports k call port i err d = (r, err', ps, d')"
  shows "requests call d ps r err' d' \<and> (ps = [] \<longleftrightarrow> k = 0) \<and> (k = 0 \<longrightarrow> err' = err) \<and>
    set ps \<subseteq> range port"
  using assms
proof (induction k arbitrary: i err d r err' ps d')
  case 0
  then show ?case by (auto intro: requests.Stop)
next
  case (Suc k)
  obtain e d1 where c: "call (port i) d = (e, d1)" by fastforce
  show ?case
  proof (cases e)
    case None
    with Suc.prems c have "ps = [port i]" "r = Some (port i)" "err' = None" "d' = d1"
      by (simp_all add: Let_def)
    with c None show ?thesis by (auto intro: requests.Granted)
  next
    case (Some err1)
    with Suc.prems c obtain qs where
      t: "try_ports k call port (Suc i) e d1 = (r, err', qs, d')" "ps = port i # qs"
      by (auto simp: Let_def split: prod.splits)
    from Suc.IH [OF t(1)] have IH: "requests call d1 qs r err' d'" "qs = [] \<longleftrightarrow> k = 0"
      "k = 0 \<longrightarrow> err' = e" "set qs \<subseteq> range port" by blast+
    from c Some IH(1) have "requests call d (port i # qs) r err' d'"
      by (rule_tac requests.Refused) (use IH(2,3) Some in auto)
    with IH(4) t(2) show ?thesis by simp
  qed
qed

end
