(* ===== verification/Go_Net.thy ===== *)
theory Go_Net
  imports Go_Netip
begin

text \<open>
  Text forms of addresses and of \<open>host:port\<close> pairs, as Go's \<open>net\<close>, \<open>net/netip\<close> and \<open>net/url\<close> read and
  print them (Go 1.24). Strings are byte strings. A function that returns an error the program never
  looks into returns \<open>None\<close> here.
\<close>

section \<open>Strings\<close>

definition is_digit :: "char \<Rightarrow> bool" where
  "is_digit c \<longleftrightarrow> 48 \<le> (of_char c :: nat) \<and> (of_char c :: nat) \<le> 57"

definition digit_value :: "char \<Rightarrow> nat" where
  "digit_value c = of_char c - 48"

text \<open>\<open>strings.Cut\<close> at the first and \<open>strings.LastIndex\<close> at the last occurrence of a character.\<close>

fun cut_at :: "char \<Rightarrow> string \<Rightarrow> string \<times> string option" where
  "cut_at c [] = ([], None)"
| "cut_at c (x # s) = (if x = c then ([], Some s) else let (a, b) = cut_at c s in (x # a, b))"

fun last_cut :: "char \<Rightarrow> string \<Rightarrow> (string \<times> string) option" where
  "last_cut c [] = None"
| "last_cut c (x # s) =
     (case last_cut c s of
        Some (a, b) \<Rightarrow> Some (x # a, b)
      | None \<Rightarrow> if x = c then Some ([], s) else None)"

lemma cut_at_absent [simp]: "c \<notin> set s \<Longrightarrow> cut_at c s = (s, None)"
  by (induction s) auto

lemma cut_at_append [simp]: "c \<notin> set a \<Longrightarrow> cut_at c (a @ c # s) = (a, Some s)"
  by (induction a) auto

lemma last_cut_absent [simp]: "c \<notin> set s \<Longrightarrow> last_cut c s = None"
  by (induction s) auto

lemma last_cut_None: "last_cut c s = None \<Longrightarrow> c \<notin> set s"
  by (induction s) (auto split: option.splits if_splits)

lemma last_cut_append [simp]: "c \<notin> set b \<Longrightarrow> last_cut c (a @ c # b) = Some (a, b)"
proof (induction a)
  case Nil
  then have "last_cut c b = None" by simp
  then show ?case by (simp only: append_Nil last_cut.simps option.case if_True simp_thms)
qed simp

lemma last_cut_Some: "last_cut c s = Some (a, b) \<Longrightarrow> s = a @ c # b \<and> c \<notin> set b"
  by (induction s arbitrary: a b) (auto split: option.splits if_splits dest: last_cut_None)

section \<open>IPv4\<close>

text \<open>
  \<open>parseIPv4Fields\<close>: the character before the current one, the value and the number of digits of the
  current field, and the fields completed so far.
\<close>

fun parseIPv4Fields :: "char option \<Rightarrow> nat \<Rightarrow> nat \<Rightarrow> bytes \<Rightarrow> string \<Rightarrow> bytes option" where
  "parseIPv4Fields prev val digLen octets [] =
     (if length octets < 3 then None else Some (octets @ [word_of_nat val]))"
| "parseIPv4Fields prev val digLen octets (c # s) =
     (if is_digit c then
        if digLen = 1 \<and> val = 0 then None
        else let val = val * 10 + digit_value c
             in if val > 255 then None else parseIPv4Fields (Some c) val (digLen + 1) octets s
      else if c = CHR ''.'' then
        if prev = None \<or> s = [] \<or> prev = Some (CHR ''.'') then None
        else if length octets = 3 then None
        else parseIPv4Fields (Some c) 0 0 (octets @ [word_of_nat val]) s
      else None)"

definition parseIPv4 :: "string \<Rightarrow> addr option" where
  "parseIPv4 s = map_option AddrFrom4 (parseIPv4Fields None 0 0 [] s)"

definition show_byte :: "byte \<Rightarrow> string" where
  "show_byte b = show_nat (unat b)"

fun dotted :: "bytes \<Rightarrow> string" where
  "dotted [] = []"
| "dotted [b] = show_byte b"
| "dotted (b # bs) = show_byte b @ CHR ''.'' # dotted bs"

section \<open>IPv6\<close>

definition hex_value :: "char \<Rightarrow> nat option" where
  "hex_value c =
     (let n = of_char c in
      if 48 \<le> n \<and> n \<le> 57 then Some (n - 48)
      else if 97 \<le> n \<and> n \<le> 102 then Some (n - 97 + 10)
      else if 65 \<le> n \<and> n \<le> 70 then Some (n - 65 + 10)
      else None)"

text \<open>A group of hexadecimal digits: their number, their value and what follows.\<close>

fun hex_run :: "nat \<Rightarrow> nat \<Rightarrow> string \<Rightarrow> (nat \<times> nat \<times> string) option" where
  "hex_run off acc [] = Some (off, acc, [])"
| "hex_run off acc (c # s) =
     (case hex_value c of
        None \<Rightarrow> Some (off, acc, c # s)
      | Some d \<Rightarrow>
          let acc = acc * 16 + d
          in if off > 3 then None else if acc > 65535 then None else hex_run (off + 1) acc s)"

text \<open>
  The loop of \<open>parseIPv6\<close>: the bytes written so far, the position of the ellipsis and the rest of the
  text. It ends with the text used up, or with sixteen bytes.
\<close>

function parseIPv6_loop :: "bytes \<Rightarrow> nat option \<Rightarrow> string \<Rightarrow> (bytes \<times> nat option \<times> string) option" where
  "parseIPv6_loop ip ellipsis s =
     (if length ip \<ge> 16 then Some (ip, ellipsis, s)
      else case hex_run 0 0 s of
        None \<Rightarrow> None
      | Some (off, acc, rest) \<Rightarrow>
          if off = 0 then None
          else if rest \<noteq> [] \<and> hd rest = CHR ''.'' then
            if ellipsis = None \<and> length ip \<noteq> 12 then None
            else if length ip + 4 > 16 then None
            else map_option (\<lambda>octets. (ip @ octets, ellipsis, [])) (parseIPv4Fields None 0 0 [] s)
          else
            let ip = ip @ [word_of_nat (acc div 256), word_of_nat acc]
            in case rest of
                 [] \<Rightarrow> Some (ip, ellipsis, [])
               | c # s \<Rightarrow>
                   if c \<noteq> CHR '':'' then None
                   else if s = [] then None
                   else if hd s = CHR '':'' then
                     if ellipsis \<noteq> None then None
                     else if tl s = [] then Some (ip, Some (length ip), [])
                     else parseIPv6_loop ip (Some (length ip)) (tl s)
                   else parseIPv6_loop ip ellipsis s)"
  by pat_completeness auto
termination
  by (relation "measure (\<lambda>(ip, _, _). 16 - length ip)") auto

declare parseIPv6_loop.simps [simp del]

definition expand_ellipsis :: "bytes \<Rightarrow> nat option \<Rightarrow> bytes option" where
  "expand_ellipsis ip ellipsis =
     (case ellipsis of
        None \<Rightarrow> if length ip < 16 then None else Some ip
      | Some e \<Rightarrow> if length ip < 16 then Some (take e ip @ replicate (16 - length ip) 0 @ drop e ip)
                  else None)"

definition parseIPv6 :: "string \<Rightarrow> addr option" where
  "parseIPv6 in_s =
     (let (s, z) = cut_at (CHR ''%'') in_s; zone = (case z of None \<Rightarrow> [] | Some z \<Rightarrow> z)
      in if z = Some [] then None
         else
           let leading = (length s \<ge> 2 \<and> s ! 0 = CHR '':'' \<and> s ! 1 = CHR '':'')
           in if leading \<and> drop 2 s = [] then Some (addr_WithZone IPv6Unspecified zone)
              else case parseIPv6_loop [] (if leading then Some 0 else None)
                          (if leading then drop 2 s else s) of
                     None \<Rightarrow> None
                   | Some (ip, ellipsis, rest) \<Rightarrow>
                       if rest \<noteq> [] then None
                       else map_option (\<lambda>ip. addr_WithZone (AddrFrom16 ip) zone)
                              (expand_ellipsis ip ellipsis))"

text \<open>\<open>netip.ParseAddr\<close>: the first dot, colon or percent sign decides.\<close>

definition ParseAddr :: "string \<Rightarrow> addr option" where
  "ParseAddr s =
     (case dropWhile (\<lambda>c. c \<notin> {CHR ''.'', CHR '':'', CHR ''%''}) s of
        [] \<Rightarrow> None
      | c # _ \<Rightarrow> if c = CHR ''.'' then parseIPv4 s else if c = CHR '':'' then parseIPv6 s else None)"

text \<open>\<open>net.ParseIP\<close>: nil is the empty list, an address is in its 16-byte form.\<close>

definition ParseIP :: "string \<Rightarrow> net_ip" where
  "ParseIP s =
     (case ParseAddr s of
        None \<Rightarrow> []
      | Some a \<Rightarrow> if addr_Zone a \<noteq> [] then [] else addr_As16 a)"

section \<open>Printing\<close>

definition hex_digit :: "nat \<Rightarrow> char" where
  "hex_digit d = (if d < 10 then char_of (48 + d) else char_of (87 + d))"

fun show_hex :: "nat \<Rightarrow> string" where
  "show_hex n = (if n < 16 then [hex_digit n] else show_hex (n div 16) @ [hex_digit (n mod 16)])"

declare show_hex.simps [simp del]

text \<open>The eight 16-bit groups of an address, and its longest run of at least two zero groups.\<close>

definition groups_of :: "bytes \<Rightarrow> nat list" where
  "groups_of ip = map (\<lambda>i. be_nat (slice_of ip (2 * i) (2 * i + 2))) [0..<8]"

definition zero_run :: "nat list \<Rightarrow> nat \<Rightarrow> nat" where
  "zero_run gs i = length (takeWhile (\<lambda>g. g = 0) (drop i gs))"

definition longest_zeros :: "nat list \<Rightarrow> (nat \<times> nat) option" where
  "longest_zeros gs =
     foldl (\<lambda>best i. let l = zero_run gs i in
              if 2 \<le> l \<and> (case best of None \<Rightarrow> True | Some (a, b) \<Rightarrow> b - a < l) then Some (i, i + l) else best)
       None [0..<8]"

fun colons :: "nat list \<Rightarrow> string" where
  "colons [] = []"
| "colons [g] = show_hex g"
| "colons (g # gs) = show_hex g @ CHR '':'' # colons gs"

definition show_v6 :: "bytes \<Rightarrow> string" where
  "show_v6 ip =
     (let gs = groups_of ip in
      case longest_zeros gs of
        None \<Rightarrow> colons gs
      | Some (a, b) \<Rightarrow> colons (take a gs) @ '':'' @ '':'' @ colons (drop b gs))"

definition ip_String :: "net_ip \<Rightarrow> string" where
  "ip_String ip =
     (if ip = [] then ''<nil>''
      else if length ip \<noteq> 4 \<and> length ip \<noteq> 16 then
        CHR ''?'' # concat (map (\<lambda>b. [hex_digit (unat b div 16), hex_digit (unat b mod 16)]) ip)
      else case ip_To4 ip of
             Some p4 \<Rightarrow> dotted p4
           | None \<Rightarrow> show_v6 ip)"

text \<open>\<open>netip.Addr.String\<close> and \<open>netip.AddrPort.String\<close>.\<close>

definition addr_String :: "addr \<Rightarrow> string" where
  "addr_String a =
     (case a of
        NoAddr \<Rightarrow> ''invalid IP''
      | Addr4 v \<Rightarrow> dotted (put_be 4 v)
      | Addr6 w zone \<Rightarrow>
          (if addr_Is4In6 a then ''::ffff:'' @ dotted (put_be 4 (ucast w :: 32 word)) else show_v6 (put_be 16 w)) @
          (if zone = [] then [] else CHR ''%'' # zone))"

definition addrport_String :: "addr \<times> 16 word \<Rightarrow> string" where
  "addrport_String p =
     (case p of (a, port) \<Rightarrow>
        (case a of
           NoAddr \<Rightarrow> ''invalid AddrPort''
         | Addr4 _ \<Rightarrow> addr_String a @ CHR '':'' # show_nat (unat port)
         | Addr6 _ _ \<Rightarrow> CHR ''['' # addr_String a @ '']:'' @ show_nat (unat port)))"

section \<open>IPv4 addresses have one text form\<close>

lemma is_digit_digit_char [simp]: "d < 10 \<Longrightarrow> is_digit (digit_char d)"
  by (simp add: is_digit_def)

lemma digit_value_digit_char [simp]: "d < 10 \<Longrightarrow> digit_value (digit_char d) = d"
  by (simp add: digit_value_def)

lemma digit_char_value: "is_digit c \<Longrightarrow> digit_char (digit_value c) = c"
  by (simp add: digit_char_def digit_value_def is_digit_def)

lemma digit_value_less: "is_digit c \<Longrightarrow> digit_value c < 10"
  by (auto simp: is_digit_def digit_value_def)

lemma not_digit_separators [simp]:
  "\<not> is_digit (CHR ''.'')" "\<not> is_digit (CHR '':'')" "\<not> is_digit (CHR ''%'')" "\<not> is_digit (CHR ''['')"
  "\<not> is_digit (CHR '']'')" "\<not> is_digit (CHR ''/'')" "\<not> is_digit (CHR ''@'')" "\<not> is_digit (CHR ''?'')"
  by (simp_all add: is_digit_def)

lemma show_nat_digits: "c \<in> set (show_nat n) \<Longrightarrow> is_digit c"
proof (induction n rule: show_nat.induct)
  case (1 n)
  then show ?case by (subst (asm) (2) show_nat.simps) (auto split: if_splits)
qed

lemma show_nat_neq_Nil [simp]: "show_nat n \<noteq> []"
  by (subst show_nat.simps) simp

lemma show_nat_snoc: "0 < v \<Longrightarrow> d < 10 \<Longrightarrow> show_nat (v * 10 + d) = show_nat v @ [digit_char d]"
  by (subst show_nat.simps) simp

lemma show_nat_digit: "d < 10 \<Longrightarrow> show_nat d = [digit_char d]"
  by (subst show_nat.simps) simp

text \<open>The digits of a byte, and what the parser does on them.\<close>

lemma parseIPv4Fields_digits:
  assumes "n < 256"
  shows "\<exists>c. is_digit c \<and> parseIPv4Fields prev 0 0 octets (show_nat n @ t) =
           parseIPv4Fields (Some c) n (length (show_nat n)) octets t"
proof -
  consider "n < 10" | "10 \<le> n" "n < 100" | "100 \<le> n" by linarith
  then show ?thesis
  proof cases
    case 1
    then have "show_nat n = [digit_char n]" by (rule show_nat_digit)
    with 1 show ?thesis by (intro exI [of _ "digit_char n"]) (simp add: Let_def)
  next
    case 2
    then have "0 < n div 10" "n div 10 < 10" "n mod 10 < 10" by auto
    with show_nat_snoc [of "n div 10" "n mod 10"] show_nat_digit [of "n div 10"]
    have "show_nat n = [digit_char (n div 10), digit_char (n mod 10)]" by simp
    with 2 \<open>n div 10 < 10\<close> \<open>n mod 10 < 10\<close> \<open>0 < n div 10\<close> assms show ?thesis
      by (intro exI [of _ "digit_char (n mod 10)"]) (simp add: Let_def)
  next
    case 3
    define a b where "a = n div 10 div 10" and "b = n div 10 mod 10"
    have n: "n = (a * 10 + b) * 10 + n mod 10" "n div 10 = a * 10 + b" by (simp_all add: a_def b_def)
    have ab: "0 < a" "a < 10" "b < 10" "n mod 10 < 10" using 3 assms by (auto simp: a_def b_def)
    have "show_nat n = show_nat (n div 10) @ [digit_char (n mod 10)]"
      using show_nat_snoc [of "n div 10" "n mod 10"] 3 by simp
    also have "show_nat (n div 10) = [digit_char a, digit_char b]"
      using show_nat_snoc [of a b] show_nat_digit [of a] ab n(2) by simp
    finally have "show_nat n = [digit_char a, digit_char b, digit_char (n mod 10)]" by simp
    moreover have "a * 10 + b \<le> 255" using n(2) assms by linarith
    ultimately show ?thesis using ab assms n(1)
      by (intro exI [of _ "digit_char (n mod 10)"]) (simp add: Let_def)
  qed
qed

lemma unat_byte_less [simp]: "unat (b :: byte) < 256"
  using unsigned_less [of b, where ?'a = nat] by simp

lemma parseIPv4Fields_dotted:
  assumes "length bs + length octets = 4" and "bs \<noteq> []" and "octets = [] \<or> prev \<noteq> None"
  shows "parseIPv4Fields prev 0 0 octets (dotted bs) = Some (octets @ bs)"
  using assms
proof (induction bs arbitrary: octets prev rule: dotted.induct)
  case (2 b)
  from parseIPv4Fields_digits [of "unat b" prev octets "[]"] obtain c where
    "parseIPv4Fields prev 0 0 octets (show_nat (unat b) @ []) =
      parseIPv4Fields (Some c) (unat b) (length (show_nat (unat b))) octets []" by auto
  with 2 show ?case by (simp add: show_byte_def)
next
  case (3 b b' bs)
  have t: "dotted (b' # bs) \<noteq> []" by (cases bs) (simp_all add: show_byte_def)
  from parseIPv4Fields_digits [of "unat b" prev octets "CHR ''.'' # dotted (b' # bs)"] obtain c where
    c: "is_digit c" "parseIPv4Fields prev 0 0 octets (show_nat (unat b) @ CHR ''.'' # dotted (b' # bs)) =
      parseIPv4Fields (Some c) (unat b) (length (show_nat (unat b))) octets (CHR ''.'' # dotted (b' # bs))"
    by auto
  have "c \<noteq> CHR ''.''" using c(1) by auto
  with c t 3 show ?case by (simp add: show_byte_def del: dotted.simps(3)) (simp add: show_byte_def)
qed simp

text \<open>\<open>u\<close> is the text of the current field, read so far.\<close>

definition field_read :: "string \<Rightarrow> nat \<Rightarrow> nat \<Rightarrow> bool" where
  "field_read u val digLen \<longleftrightarrow>
     (if digLen = 0 then u = [] \<and> val = 0 else u = show_nat val \<and> digLen = length u) \<and> val \<le> 255"

lemma field_read_digit:
  assumes "field_read u val digLen" and "is_digit c" and "\<not> (digLen = 1 \<and> val = 0)"
    and "val * 10 + digit_value c \<le> 255"
  shows "field_read (u @ [c]) (val * 10 + digit_value c) (digLen + 1)"
proof (cases "digLen = 0")
  case True
  with assms show ?thesis
    by (simp add: field_read_def show_nat_digit digit_value_less digit_char_value)
next
  case False
  have "0 < val"
  proof (rule ccontr)
    assume "\<not> 0 < val"
    then have "val = 0" by simp
    with assms(3) have "digLen \<noteq> 1" by simp
    with False assms(1) show False by (simp add: field_read_def \<open>val = 0\<close> show_nat_digit)
  qed
  with False assms show ?thesis
    by (simp add: field_read_def show_nat_snoc digit_value_less digit_char_value)
qed

lemma dotted_Cons: "bs \<noteq> [] \<Longrightarrow> dotted (b # bs) = show_byte b @ CHR ''.'' # dotted bs"
  by (cases bs) simp_all

lemma show_byte_of_nat: "val \<le> 255 \<Longrightarrow> show_byte (word_of_nat val) = show_nat val"
  by (simp add: show_byte_def unat_byte_of_nat)

lemma parseIPv4Fields_sound:
  assumes "parseIPv4Fields prev val digLen octets s = Some bs" and "field_read u val digLen"
    and "length octets \<le> 3" and "digLen = 0 \<longleftrightarrow> prev = None \<or> prev = Some (CHR ''.'')"
    and "digLen = 0 \<Longrightarrow> s \<noteq> [] \<or> octets = []"
  shows "\<exists>cs. bs = octets @ cs \<and> length bs = 4 \<and> dotted cs = u @ s"
  using assms
proof (induction s arbitrary: prev val digLen octets u)
  case Nil
  then have "length octets = 3" "bs = octets @ [word_of_nat val]" "digLen \<noteq> 0"
    by (auto split: if_splits)
  with Nil.prems(2) show ?case by (simp add: field_read_def show_byte_of_nat)
next
  case (Cons c s)
  show ?case
  proof (cases "is_digit c")
    case True
    with Cons.prems(1) have "parseIPv4Fields (Some c) (val * 10 + digit_value c) (digLen + 1) octets s = Some bs"
      "\<not> (digLen = 1 \<and> val = 0)" "val * 10 + digit_value c \<le> 255"
      by (auto simp: Let_def split: if_splits)
    moreover have "c \<noteq> CHR ''.''" using True by auto
    ultimately show ?thesis
      using Cons.IH [OF _ field_read_digit [OF Cons.prems(2) True]] Cons.prems(3) by fastforce
  next
    case False
    with Cons.prems(1) have c: "c = CHR ''.''" "prev \<noteq> None" "prev \<noteq> Some (CHR ''.'')" "s \<noteq> []"
      "length octets \<noteq> 3" "parseIPv4Fields (Some c) 0 0 (octets @ [word_of_nat val]) s = Some bs"
      by (auto split: if_splits)
    have u: "u = show_nat val" "val \<le> 255" using Cons.prems(2,4) c(2,3) by (auto simp: field_read_def)
    have "\<exists>cs. bs = (octets @ [word_of_nat val]) @ cs \<and> length bs = 4 \<and> dotted cs = [] @ s"
      using c Cons.prems(3) by (intro Cons.IH [OF c(6)]) (auto simp: field_read_def)
    then obtain cs where "bs = octets @ word_of_nat val # cs" "length bs = 4" "dotted cs = s"
      by auto
    moreover have "cs \<noteq> []" using c(4) \<open>dotted cs = s\<close> by auto
    ultimately show ?thesis using c(1) u by (auto simp: dotted_Cons show_byte_of_nat)
  qed
qed

lemma parseIPv4Fields_iff:
  "parseIPv4Fields None 0 0 [] s = Some bs \<longleftrightarrow> length bs = 4 \<and> s = dotted bs"
proof
  assume "parseIPv4Fields None 0 0 [] s = Some bs"
  from parseIPv4Fields_sound [OF this, of "[]"] show "length bs = 4 \<and> s = dotted bs"
    by (auto simp: field_read_def)
qed (auto intro!: parseIPv4Fields_dotted [of _ "[]", simplified])

lemma parseIPv4_iff: "parseIPv4 s = Some a \<longleftrightarrow> (\<exists>v. a = Addr4 v \<and> s = dotted (put_be 4 v))"
proof
  assume "parseIPv4 s = Some a"
  then obtain bs where "a = Addr4 (get_be bs)" "length bs = 4" "s = dotted bs"
    by (auto simp: parseIPv4_def parseIPv4Fields_iff AddrFrom4_def)
  then show "\<exists>v. a = Addr4 v \<and> s = dotted (put_be 4 v)"
    by (intro exI [of _ "get_be bs"]) (simp add: wire)
next
  assume "\<exists>v. a = Addr4 v \<and> s = dotted (put_be 4 v)"
  then obtain v where v: "a = Addr4 v" "s = dotted (put_be 4 v)" by blast
  then have "parseIPv4Fields None 0 0 [] s = Some (put_be 4 v)"
    by (simp add: parseIPv4Fields_iff)
  with v show "parseIPv4 s = Some a" by (simp add: parseIPv4_def AddrFrom4_def wire)
qed

end
