(* ===== verification/Go_URL.thy ===== *)
theory Go_URL
  imports Go_Net
begin

text \<open>
  \<open>net/url\<close> of Go 1.24, as far as a parsed URL is used: whether \<open>url.Parse\<close> accepts, and the parts of
  the URL. The hints that only steer printing (\<open>RawPath\<close>, \<open>RawFragment\<close>, \<open>OmitHost\<close>) are left out.
\<close>

record url =
  u_Scheme :: string
  u_Opaque :: string
  u_User :: "(string \<times> string option) option"
  u_Host :: string
  u_Path :: string
  u_ForceQuery :: bool
  u_RawQuery :: string
  u_Fragment :: string

definition zero_url :: url where
  "zero_url = \<lparr>u_Scheme = [], u_Opaque = [], u_User = None, u_Host = [], u_Path = [],
     u_ForceQuery = False, u_RawQuery = [], u_Fragment = []\<rparr>"

section \<open>Escapes\<close>

definition is_letter :: "char \<Rightarrow> bool" where
  "is_letter c \<longleftrightarrow> (let n = (of_char c :: nat) in 97 \<le> n \<and> n \<le> 122 \<or> 65 \<le> n \<and> n \<le> 90)"

datatype encoding = encodeHost | encodeZone | encodeOther

text \<open>\<open>shouldEscape\<close> in the modes of a host, which are the only ones that ask for it.\<close>

definition host_escape :: "char \<Rightarrow> bool" where
  "host_escape c \<longleftrightarrow> \<not> (is_letter c \<or> is_digit c \<or> c \<in> set ''!$&'' \<or> c = CHR 0x27 \<or> c \<in> set ''()*+,;=:[]<>'' \<or>
     c = CHR 0x22 \<or> c \<in> set ''-_.~'')"

text \<open>The scan for malformed and forbidden escapes, and the decoding of a text that passed it.\<close>

fun escapes_ok :: "encoding \<Rightarrow> string \<Rightarrow> bool" where
  "escapes_ok mode [] \<longleftrightarrow> True"
| "escapes_ok mode (c # s) \<longleftrightarrow>
     (if c = CHR ''%'' then
        case s of
          a # b # s' \<Rightarrow>
            (case (hex_value a, hex_value b) of
               (Some x, Some y) \<Rightarrow>
                 let is25 = (a = CHR ''2'' \<and> b = CHR ''5''); v = char_of (16 * x + y) in
                 (if mode = encodeHost \<and> x < 8 \<and> \<not> is25 then False
                  else if mode = encodeZone \<and> \<not> is25 \<and> v \<noteq> CHR '' '' \<and> host_escape v then False
                  else escapes_ok mode s')
             | _ \<Rightarrow> False)
        | _ \<Rightarrow> False
      else if (mode = encodeHost \<or> mode = encodeZone) \<and> (of_char c :: nat) < 0x80 \<and> host_escape c then False
      else escapes_ok mode s)"

fun decode :: "string \<Rightarrow> string" where
  "decode [] = []"
| "decode (c # s) =
     (if c = CHR ''%'' then
        case s of
          a # b # s' \<Rightarrow>
            (case (hex_value a, hex_value b) of
               (Some x, Some y) \<Rightarrow> char_of (16 * x + y) # decode s'
             | _ \<Rightarrow> c # decode s)
        | _ \<Rightarrow> c # decode s
      else c # decode s)"

definition unescape :: "string \<Rightarrow> encoding \<Rightarrow> string option" where
  "unescape s mode = (if escapes_ok mode s then Some (decode s) else None)"

section \<open>Authority\<close>

fun validOptionalPort :: "string \<Rightarrow> bool" where
  "validOptionalPort [] \<longleftrightarrow> True"
| "validOptionalPort (c # ds) \<longleftrightarrow> c = CHR '':'' \<and> list_all is_digit ds"

text \<open>The first occurrence of \<open>%25\<close>.\<close>

fun cut_zone :: "string \<Rightarrow> (string \<times> string) option" where
  "cut_zone s =
     (if take 3 s = ''%25'' then Some ([], s)
      else case s of
             [] \<Rightarrow> None
           | c # s' \<Rightarrow> map_option (\<lambda>(a, b). (c # a, b)) (cut_zone s'))"

declare cut_zone.simps [simp del]

definition parseHost :: "string \<Rightarrow> string option" where
  "parseHost host =
     (if host \<noteq> [] \<and> hd host = CHR ''['' then
        case last_cut (CHR '']'') host of
          None \<Rightarrow> None
        | Some (bracket, colonPort) \<Rightarrow>
            if \<not> validOptionalPort colonPort then None
            else case cut_zone bracket of
                   Some (host1, host2) \<Rightarrow>
                     (case (unescape host1 encodeHost, unescape host2 encodeZone,
                            unescape (CHR '']'' # colonPort) encodeHost) of
                        (Some host1, Some host2, Some host3) \<Rightarrow> Some (host1 @ host2 @ host3)
                      | _ \<Rightarrow> None)
                 | None \<Rightarrow> unescape host encodeHost
      else
        case last_cut (CHR '':'') host of
          Some (_, port) \<Rightarrow>
            if validOptionalPort (CHR '':'' # port) then unescape host encodeHost else None
        | None \<Rightarrow> unescape host encodeHost)"

definition validUserinfo :: "string \<Rightarrow> bool" where
  "validUserinfo s \<longleftrightarrow> list_all (\<lambda>c. is_letter c \<or> is_digit c \<or> c \<in> set ''-._:~!$&'' \<or> c = CHR 0x27 \<or>
     c \<in> set ''()*+,;=%@'') s"

definition parseAuthority :: "string \<Rightarrow> ((string \<times> string option) option \<times> string) option" where
  "parseAuthority authority =
     (case last_cut (CHR ''@'') authority of
        None \<Rightarrow> map_option (\<lambda>host. (None, host)) (parseHost authority)
      | Some (userinfo, host) \<Rightarrow>
          (case parseHost host of
             None \<Rightarrow> None
           | Some host \<Rightarrow>
               if \<not> validUserinfo userinfo then None
               else case cut_at (CHR '':'') userinfo of
                      (username, None) \<Rightarrow>
                        map_option (\<lambda>u. (Some (u, None), host)) (unescape username encodeOther)
                    | (username, Some password) \<Rightarrow>
                        (case (unescape username encodeOther, unescape password encodeOther) of
                           (Some u, Some p) \<Rightarrow> Some (Some (u, Some p), host)
                         | _ \<Rightarrow> None)))"

section \<open>Parse\<close>

text \<open>\<open>getScheme\<close>: the scheme and the rest; no scheme is the empty one.\<close>

fun scheme_scan :: "string \<Rightarrow> string \<Rightarrow> (string \<times> string) option option" where
  "scheme_scan pre [] = Some None"
| "scheme_scan pre (c # s) =
     (if is_letter c then scheme_scan (pre @ [c]) s
      else if is_digit c \<or> c \<in> set ''+-.'' then (if pre = [] then Some None else scheme_scan (pre @ [c]) s)
      else if c = CHR '':'' then (if pre = [] then None else Some (Some (pre, s)))
      else Some None)"

definition getScheme :: "string \<Rightarrow> (string \<times> string) option" where
  "getScheme rawURL =
     (case scheme_scan [] rawURL of
        None \<Rightarrow> None
      | Some None \<Rightarrow> Some ([], rawURL)
      | Some (Some (scheme, rest)) \<Rightarrow> Some (scheme, rest))"

definition to_lower :: "char \<Rightarrow> char" where
  "to_lower c = (let n = (of_char c :: nat) in if 65 \<le> n \<and> n \<le> 90 then char_of (n + 32) else c)"

definition is_ctl :: "char \<Rightarrow> bool" where
  "is_ctl c \<longleftrightarrow> (of_char c :: nat) < 0x20 \<or> (of_char c :: nat) = 0x7f"

definition split_query :: "string \<Rightarrow> bool \<times> string \<times> string" where
  "split_query rest =
     (if rest \<noteq> [] \<and> last rest = CHR ''?'' \<and> CHR ''?'' \<notin> set (butlast rest) then (True, butlast rest, [])
      else case cut_at (CHR ''?'') rest of
             (path, None) \<Rightarrow> (False, path, [])
           | (path, Some query) \<Rightarrow> (False, path, query))"

text \<open>The authority of \<open>//authority/path\<close>, up to the slash, and the path from it.\<close>

definition split_authority :: "string \<Rightarrow> string \<times> string" where
  "split_authority s =
     (case cut_at (CHR ''/'') s of
        (authority, None) \<Rightarrow> (authority, [])
      | (authority, Some path) \<Rightarrow> (authority, CHR ''/'' # path))"

definition url_parse :: "string \<Rightarrow> url option" where
  "url_parse rawURL =
     (if list_ex is_ctl rawURL then None
      else if rawURL = ''*'' then Some (zero_url\<lparr>u_Path := ''*''\<rparr>)
      else case getScheme rawURL of
        None \<Rightarrow> None
      | Some (scheme, rest) \<Rightarrow>
          let (force, rest, query) = split_query rest;
              url = zero_url\<lparr>u_Scheme := map to_lower scheme, u_ForceQuery := force, u_RawQuery := query\<rparr>
          in if take 1 rest \<noteq> ''/'' \<and> scheme \<noteq> [] then Some (url\<lparr>u_Opaque := rest\<rparr>)
             else if take 1 rest \<noteq> ''/'' \<and> CHR '':'' \<in> set (fst (cut_at (CHR ''/'') rest)) then None
             else if (scheme \<noteq> [] \<or> take 3 rest \<noteq> ''///'') \<and> take 2 rest = ''//'' then
               let (authority, path) = split_authority (drop 2 rest)
               in case parseAuthority authority of
                    None \<Rightarrow> None
                  | Some (user, host) \<Rightarrow>
                      map_option (\<lambda>p. url\<lparr>u_User := user, u_Host := host, u_Path := p\<rparr>)
                        (unescape path encodeOther)
             else map_option (\<lambda>p. url\<lparr>u_Path := p\<rparr>) (unescape rest encodeOther))"

definition url_Parse :: "string \<Rightarrow> url option" where
  "url_Parse rawURL =
     (let (u, frag) = cut_at (CHR ''#'') rawURL
      in case url_parse u of
           None \<Rightarrow> None
         | Some url \<Rightarrow>
             (case frag of
                None \<Rightarrow> Some url
              | Some frag \<Rightarrow>
                  if frag = [] then Some url
                  else map_option (\<lambda>f. url\<lparr>u_Fragment := f\<rparr>) (unescape frag encodeOther)))"

section \<open>Host and port\<close>

definition strip_brackets :: "string \<Rightarrow> string" where
  "strip_brackets host =
     (if host \<noteq> [] \<and> hd host = CHR ''['' \<and> last host = CHR '']'' then butlast (tl host) else host)"

definition splitHostPort :: "string \<Rightarrow> string \<times> string" where
  "splitHostPort hostPort =
     (case last_cut (CHR '':'') hostPort of
        Some (host, port) \<Rightarrow>
          if validOptionalPort (CHR '':'' # port) then (strip_brackets host, port)
          else (strip_brackets hostPort, [])
      | None \<Rightarrow> (strip_brackets hostPort, []))"

definition Hostname :: "url \<Rightarrow> string" where
  "Hostname u = fst (splitHostPort (u_Host u))"

definition url_Port :: "url \<Rightarrow> string" where
  "url_Port u = snd (splitHostPort (u_Host u))"

definition JoinHostPort :: "string \<Rightarrow> string \<Rightarrow> string" where
  "JoinHostPort host port =
     (if CHR '':'' \<in> set host then CHR ''['' # host @ '']:'' @ port else host @ CHR '':'' # port)"

text \<open>\<open>net.SplitHostPort\<close>, with which \<open>net\<close> takes an address apart again.\<close>

definition SplitHostPort :: "string \<Rightarrow> (string \<times> string) option" where
  "SplitHostPort hostport =
     (case last_cut (CHR '':'') hostport of
        None \<Rightarrow> None
      | Some (before, port) \<Rightarrow>
          if hd hostport = CHR ''['' then
            (case cut_at (CHR '']'') hostport of
               (_, None) \<Rightarrow> None
             | (open, Some behind) \<Rightarrow>
                 if behind = [] then None
                 else if length open + 1 \<noteq> length before then None
                 else if CHR ''['' \<in> set (tl hostport) \<or> CHR '']'' \<in> set behind then None
                 else Some (tl open, port))
          else if CHR '':'' \<in> set before then None
          else if CHR ''['' \<in> set hostport \<or> CHR '']'' \<in> set hostport then None
          else Some (before, port))"

section \<open>Lemmas\<close>

lemma digits_no_separator:
  assumes "list_all is_digit ds"
  shows "CHR '':'' \<notin> set ds" "CHR ''['' \<notin> set ds" "CHR '']'' \<notin> set ds" "CHR ''/'' \<notin> set ds" "CHR ''.'' \<notin> set ds"
    "CHR ''%'' \<notin> set ds"
  using assms by (auto simp: list_all_iff)

lemma SplitHostPort_JoinHostPort:
  assumes "CHR ''['' \<notin> set host" "CHR '']'' \<notin> set host" "list_all is_digit port"
  shows "SplitHostPort (JoinHostPort host port) = Some (host, port)"
proof (cases "CHR '':'' \<in> set host")
  case True
  have "last_cut (CHR '':'') (CHR ''['' # host @ '']:'' @ port) = Some (CHR ''['' # host @ '']'', port)"
    using last_cut_append [of "CHR '':''" port "CHR ''['' # host @ '']''"] digits_no_separator [OF assms(3)]
    by simp
  moreover have "cut_at (CHR '']'') (CHR ''['' # host @ '']:'' @ port) = (CHR ''['' # host, Some (CHR '':'' # port))"
    using cut_at_append [of "CHR '']''" "CHR ''['' # host" "CHR '':'' # port"] assms(2) by simp
  ultimately show ?thesis
    using True assms digits_no_separator [OF assms(3)] by (simp add: JoinHostPort_def SplitHostPort_def)
next
  case False
  have "last_cut (CHR '':'') (host @ CHR '':'' # port) = Some (host, port)"
    using digits_no_separator [OF assms(3)] by simp
  moreover have "hd (host @ CHR '':'' # port) \<noteq> CHR ''[''"
    using assms(1) by (cases host) auto
  ultimately show ?thesis
    using False assms digits_no_separator [OF assms(3)] by (simp add: JoinHostPort_def SplitHostPort_def)
qed

lemma splitHostPort_port_digits: "list_all is_digit (snd (splitHostPort hp))"
  by (auto simp: splitHostPort_def split: option.split)

text \<open>Characters that mean nothing to the parser of a URL, in a host and in a path.\<close>

definition plain_host :: "char \<Rightarrow> bool" where
  "plain_host c \<longleftrightarrow> is_letter c \<or> is_digit c \<or> c = CHR ''.'' \<or> c = CHR ''-'' \<or> c = CHR '':''"

definition plain_path :: "char \<Rightarrow> bool" where
  "plain_path c \<longleftrightarrow> \<not> is_ctl c \<and> c \<notin> {CHR ''#'', CHR ''?'', CHR ''%''}"

lemma plain_host_facts:
  assumes "plain_host c"
  shows "\<not> is_ctl c" "\<not> host_escape c" "c \<noteq> CHR ''#''" "c \<noteq> CHR ''?''" "c \<noteq> CHR ''%''" "c \<noteq> CHR ''/''"
    "c \<noteq> CHR ''@''" "c \<noteq> CHR ''[''"
  using assms
  by (auto simp: plain_host_def is_ctl_def host_escape_def is_letter_def is_digit_def Let_def)

lemma plain_no_separator:
  assumes "list_all plain_host h"
  shows "CHR ''#'' \<notin> set h" "CHR ''?'' \<notin> set h" "CHR ''%'' \<notin> set h" "CHR ''/'' \<notin> set h" "CHR ''@'' \<notin> set h"
    "CHR ''['' \<notin> set h" "\<not> list_ex is_ctl h"
  using assms by (auto simp: list_all_iff list_ex_iff dest: plain_host_facts)

lemma unescape_plain:
  "CHR ''%'' \<notin> set s \<Longrightarrow> (mode = encodeOther \<or> list_all (\<lambda>c. \<not> host_escape c) s) \<Longrightarrow> unescape s mode = Some s"
proof -
  assume a: "CHR ''%'' \<notin> set s" "mode = encodeOther \<or> list_all (\<lambda>c. \<not> host_escape c) s"
  have "decode s = s" using a(1) by (induction s) auto
  moreover have "escapes_ok mode s" using a by (induction s) auto
  ultimately show ?thesis by (simp add: unescape_def)
qed

lemma parseHost_plain:
  assumes "list_all plain_host h" and "CHR '':'' \<notin> set h" and "list_all is_digit port"
  shows "parseHost h = Some h" "parseHost (h @ CHR '':'' # port) = Some (h @ CHR '':'' # port)"
proof -
  have esc: "list_all (\<lambda>c. \<not> host_escape c) (h @ CHR '':'' # port)" "list_all (\<lambda>c. \<not> host_escape c) h"
  proof -
    have "is_digit c \<Longrightarrow> \<not> host_escape c" for c by (simp add: host_escape_def)
    moreover have "\<not> host_escape (CHR '':'')" by (simp add: host_escape_def)
    ultimately show "list_all (\<lambda>c. \<not> host_escape c) (h @ CHR '':'' # port)" "list_all (\<lambda>c. \<not> host_escape c) h"
      using assms(1,3) plain_host_facts(2) by (auto simp: list_all_iff)
  qed
  have pc: "CHR ''%'' \<notin> set (h @ CHR '':'' # port)"
    using plain_no_separator(3) [OF assms(1)] digits_no_separator(6) [OF assms(3)] by simp
  have "hd (h @ CHR '':'' # port) \<noteq> CHR ''[''" "h \<noteq> [] \<Longrightarrow> hd h \<noteq> CHR ''[''"
    using plain_no_separator(6) [OF assms(1)] by (cases h; auto)+
  moreover have "last_cut (CHR '':'') (h @ CHR '':'' # port) = Some (h, port)" "last_cut (CHR '':'') h = None"
    using assms(2) digits_no_separator(1) [OF assms(3)] by simp_all
  ultimately show "parseHost h = Some h" "parseHost (h @ CHR '':'' # port) = Some (h @ CHR '':'' # port)"
    using esc pc assms(3) by (auto simp: parseHost_def unescape_plain)
qed

lemma url_Parse_http:
  assumes "list_all plain_host hp" and "parseHost hp = Some host" and "list_all plain_path path"
  shows "url_Parse (''http://'' @ hp @ CHR ''/'' # path) =
    Some (zero_url\<lparr>u_Scheme := ''http'', u_Host := host, u_Path := CHR ''/'' # path\<rparr>)"
proof -
  let ?u = "''http://'' @ hp @ CHR ''/'' # path"
  let ?rest = "''//'' @ hp @ CHR ''/'' # path"
  note h = plain_no_separator [OF assms(1)]
  have p: "CHR ''#'' \<notin> set path" "CHR ''?'' \<notin> set path" "CHR ''%'' \<notin> set path" "\<not> list_ex is_ctl path"
    using assms(3) by (auto simp: list_all_iff list_ex_iff plain_path_def)
  have frag: "cut_at (CHR ''#'') ?u = (?u, None)"
    by (rule cut_at_absent) (use h p in simp)
  have scheme: "getScheme ?u = Some (''http'', ?rest)"
    by (simp add: getScheme_def is_letter_def)
  have "cut_at (CHR ''?'') ?rest = (?rest, None)"
    by (rule cut_at_absent) (use h p in simp)
  moreover have "last ?rest \<noteq> CHR ''?''"
    using p(2) by (cases path rule: rev_cases) auto
  ultimately have query: "split_query ?rest = (False, ?rest, [])"
    by (simp add: split_query_def)
  have auth: "split_authority (hp @ CHR ''/'' # path) = (hp, CHR ''/'' # path)"
    using h(4) by (simp add: split_authority_def)
  have pa: "parseAuthority hp = Some (None, host)"
  proof -
    have "last_cut (CHR ''@'') hp = None" using h(5) by simp
    then show ?thesis by (simp add: parseAuthority_def assms(2))
  qed
  have path: "unescape (CHR ''/'' # path) encodeOther = Some (CHR ''/'' # path)"
    by (rule unescape_plain) (use p in simp_all)
  have ctl: "\<not> list_ex is_ctl ?u"
    using h(7) p(4) by (simp add: is_ctl_def)
  have ne: "?u \<noteq> ''*''" by simp
  have low: "map to_lower ''http'' = ''http''" by (simp add: to_lower_def)
  have "url_parse ?u = Some (zero_url\<lparr>u_Scheme := ''http'', u_Host := host, u_Path := CHR ''/'' # path\<rparr>)"
    unfolding url_parse_def if_not_P [OF ctl] if_not_P [OF ne] scheme option.case prod.case query Let_def low
    by (simp add: auth pa path zero_url_def)
  then show ?thesis by (simp only: url_Parse_def Let_def frag prod.case option.case)
qed

end
