(* ===== verification/Go_Addr_Text.thy ===== *)
theory Go_Addr_Text
  imports Go_Net
begin

text \<open>
  The text of an address reads back as the address, for every valid \<open>netip.Addr\<close> and every \<open>net.IP\<close> of
  four or sixteen bytes: what \<open>String\<close> prints is what \<open>ParseAddr\<close> and \<open>ParseIP\<close> accept, with the
  compressed zero groups, the IPv4-mapped form and the zone of IPv6.
\<close>

section \<open>Hexadecimal groups\<close>

lemma hex_value_separators [simp]:
  "hex_value (CHR '':'') = None" "hex_value (CHR ''.'') = None" "hex_value (CHR ''%'') = None"
  by (simp_all add: hex_value_def)

lemma hex_digit_cases:
  assumes "d < 16"
  shows "hex_value (hex_digit d) = Some d" "hex_digit d \<notin> {CHR '':'', CHR ''.'', CHR ''%''}"
proof -
  from assms have "of_char (hex_digit d) = (if d < 10 then 48 + d else 87 + d)"
    by (simp add: hex_digit_def of_char_of)
  with assms show v: "hex_value (hex_digit d) = Some d" by (simp add: hex_value_def)
  then show "hex_digit d \<notin> {CHR '':'', CHR ''.'', CHR ''%''}" by auto
qed

lemma show_hex_neq_Nil [simp]: "show_hex n \<noteq> []"
  by (subst show_hex.simps) simp

lemma show_hex_chars: "c \<in> set (show_hex n) \<Longrightarrow> c \<notin> {CHR '':'', CHR ''.'', CHR ''%''}"
proof (induction n rule: show_hex.induct)
  case (1 n)
  from "1.prems" consider "n < 16" "c = hex_digit n" | "\<not> n < 16" "c \<in> set (show_hex (n div 16))" | "c = hex_digit (n mod 16)"
    by (subst (asm) show_hex.simps) (auto split: if_splits)
  then show ?case using "1.IH" hex_digit_cases(2) by cases auto
qed

lemma length_show_hex: "n < 16 ^ k \<Longrightarrow> 0 < k \<Longrightarrow> length (show_hex n) \<le> k"
proof (induction k arbitrary: n)
  case (Suc k)
  show ?case
  proof (cases "n < 16")
    case True
    then show ?thesis by (subst show_hex.simps) simp
  next
    case False
    with Suc.prems have "n div 16 < 16 ^ k" "k \<noteq> 0" by (auto simp: less_mult_imp_div_less mult.commute intro: gr0I)
    with Suc.IH [of "n div 16"] False show ?thesis by (subst show_hex.simps) simp
  qed
qed simp

lemma hex_run_show: "n < 65536 \<Longrightarrow> hex_run 0 0 (show_hex n @ t) = hex_run (length (show_hex n)) n t"
proof (induction n arbitrary: t rule: show_hex.induct)
  case (1 n)
  show ?case
  proof (cases "n < 16")
    case True
    then have "show_hex n = [hex_digit n]" by (subst show_hex.simps) simp
    with True show ?thesis by (simp add: hex_digit_cases)
  next
    case False
    then have s: "show_hex n = show_hex (n div 16) @ [hex_digit (n mod 16)]" by (subst show_hex.simps) simp
    have "length (show_hex (n div 16)) \<le> 3" using length_show_hex [of "n div 16" 3] "1.prems" by simp
    with "1.IH" [OF False] "1.prems" False show ?thesis by (simp add: s hex_digit_cases div_mult_mod_eq)
  qed
qed

lemma hex_run_stop: "t = [] \<or> hex_value (hd t) = None \<Longrightarrow> hex_run off acc t = Some (off, acc, t)"
  by (cases t) auto

lemma hex_group:
  "n < 65536 \<Longrightarrow> t = [] \<or> hex_value (hd t) = None \<Longrightarrow>
   hex_run 0 0 (show_hex n @ t) = Some (length (show_hex n), n, t)"
  by (simp only: hex_run_show hex_run_stop)

section \<open>The groups of an address\<close>

definition bytes_of_groups :: "nat list \<Rightarrow> bytes" where
  "bytes_of_groups gs = concat (map (\<lambda>g. [word_of_nat (g div 256), word_of_nat g]) gs)"

lemma bytes_of_groups_simps [simp]:
  "bytes_of_groups [] = []" "bytes_of_groups (g # gs) = word_of_nat (g div 256) # word_of_nat g # bytes_of_groups gs"
  "bytes_of_groups (gs @ gs') = bytes_of_groups gs @ bytes_of_groups gs'"
  "length (bytes_of_groups gs) = 2 * length gs"
  "bytes_of_groups (replicate n 0) = replicate (2 * n) 0"
  by (simp_all add: bytes_of_groups_def length_concat comp_def sum_list_triv) (induction n, simp_all)

lemma groups_of_less:
  assumes "g \<in> set (groups_of ip)"
  shows "g < 65536"
proof -
  from assms obtain i where "g = be_nat (slice_of ip (2 * i) (2 * i + 2))" by (auto simp: groups_of_def)
  moreover have "length (slice_of ip (2 * i) (2 * i + 2)) \<le> 2" by (simp add: slice_of_def)
  then have "(256 :: nat) ^ length (slice_of ip (2 * i) (2 * i + 2)) \<le> 256 ^ 2" by (intro power_increasing) simp_all
  ultimately show ?thesis using be_nat_less [of "slice_of ip (2 * i) (2 * i + 2)"] by simp
qed

lemma concat_slices:
  "2 * n \<le> length ip \<Longrightarrow> concat (map (\<lambda>i. slice_of ip (2 * i) (2 * i + 2)) [0..<n]) = take (2 * n) ip"
  by (induction n) (simp_all add: slice_of_def flip: take_add)

lemma bytes_of_groups_of:
  assumes "length ip = 16"
  shows "bytes_of_groups (groups_of ip) = ip"
proof -
  have "[word_of_nat (be_nat bs div 256), word_of_nat (be_nat bs)] = bs" if "length bs = 2" for bs
    using nat_be_be_nat [of bs] that by (simp add: numeral_2_eq_2)
  then have "bytes_of_groups (groups_of ip) = concat (map (\<lambda>i. slice_of ip (2 * i) (2 * i + 2)) [0..<8])"
    using assms by (auto simp: bytes_of_groups_def groups_of_def comp_def slice_of_def intro!: arg_cong [of _ _ concat])
  then show ?thesis using concat_slices [of 8 ip] assms by simp
qed

section \<open>The loop of the parser\<close>

lemma colons_Cons: "gs \<noteq> [] \<Longrightarrow> colons (g # gs) = show_hex g @ CHR '':'' # colons gs"
  by (cases gs) simp_all

lemma colons_neq_Nil: "gs \<noteq> [] \<Longrightarrow> colons gs \<noteq> []"
  by (cases gs rule: colons.cases) simp_all

lemma colons_start: "gs \<noteq> [] \<Longrightarrow> hd (colons gs) \<noteq> CHR '':''"
  using show_hex_chars [of "hd (show_hex (hd gs))" "hd gs"]
  by (cases gs rule: colons.cases) (auto simp: hd_append)

lemma colons_chars: "c \<in> set (colons gs) \<Longrightarrow> c \<noteq> CHR ''%'' \<and> c \<noteq> CHR ''.''"
  by (induction gs rule: colons.induct) (auto dest: show_hex_chars)

lemma loop_group:
  assumes "length ip < 16" and "g < 65536" and "t = [] \<or> hd t = CHR '':''"
  shows "parseIPv6_loop ip e (show_hex g @ t) =
    (let ip = ip @ [word_of_nat (g div 256), word_of_nat g]
     in case t of
          [] \<Rightarrow> Some (ip, e, [])
        | c # s \<Rightarrow>
            if s = [] then None
            else if hd s = CHR '':'' then
              if e \<noteq> None then None
              else if tl s = [] then Some (ip, Some (length ip), [])
              else parseIPv6_loop ip (Some (length ip)) (tl s)
            else parseIPv6_loop ip e s)"
proof -
  have "hex_run 0 0 (show_hex g @ t) = Some (length (show_hex g), g, t)"
    by (rule hex_group) (use assms in auto)
  with assms show ?thesis
    by (subst parseIPv6_loop.simps) (auto simp: Let_def split: list.split)
qed

lemma loop_colons:
  assumes "gs \<noteq> []" and "\<forall>g \<in> set gs. g < 65536" and "length ip + 2 * length gs \<le> 16"
  shows "parseIPv6_loop ip e (colons gs) = Some (ip @ bytes_of_groups gs, e, [])"
  using assms
proof (induction gs arbitrary: ip)
  case (Cons g gs)
  show ?case
  proof (cases "gs = []")
    case True
    with Cons.prems loop_group [of ip g "[]" e] show ?thesis by simp
  next
    case False
    note ne = colons_neq_Nil [OF False] colons_start [OF False]
    from Cons.prems loop_group [of ip g "CHR '':'' # colons gs" e] ne
    have "parseIPv6_loop ip e (colons (g # gs)) =
        parseIPv6_loop (ip @ [word_of_nat (g div 256), word_of_nat g]) e (colons gs)"
      by (simp add: colons_Cons [OF False] Let_def)
    with Cons.IH [OF False, of "ip @ [word_of_nat (g div 256), word_of_nat g]"] Cons.prems show ?thesis by simp
  qed
qed simp

lemma loop_ellipsis:
  assumes "gs \<noteq> []" and "\<forall>g \<in> set gs. g < 65536" and "length ip + 2 * length gs < 16"
  shows "parseIPv6_loop ip None (colons gs @ '':'' @ '':'' @ u) =
    (let ip = ip @ bytes_of_groups gs
     in if u = [] then Some (ip, Some (length ip), []) else parseIPv6_loop ip (Some (length ip)) u)"
  using assms
proof (induction gs arbitrary: ip)
  case (Cons g gs)
  show ?case
  proof (cases "gs = []")
    case True
    with Cons.prems loop_group [of ip g "'':'' @ '':'' @ u" None] show ?thesis by (simp add: Let_def)
  next
    case False
    note ne = colons_neq_Nil [OF False] colons_start [OF False]
    from Cons.prems loop_group [of ip g "CHR '':'' # colons gs @ '':'' @ '':'' @ u" None] ne
    have "parseIPv6_loop ip None (colons (g # gs) @ '':'' @ '':'' @ u) =
        parseIPv6_loop (ip @ [word_of_nat (g div 256), word_of_nat g]) None (colons gs @ '':'' @ '':'' @ u)"
      by (simp add: colons_Cons [OF False] Let_def)
    with Cons.IH [OF False, of "ip @ [word_of_nat (g div 256), word_of_nat g]"] Cons.prems show ?thesis
      by (simp add: Let_def)
  qed
qed simp

section \<open>The zero run\<close>

lemma zero_run_zeros:
  assumes "i \<le> length gs"
  shows "i + zero_run gs i \<le> length gs"
    and "take i gs @ replicate (zero_run gs i) 0 @ drop (i + zero_run gs i) gs = gs"
proof -
  let ?t = "takeWhile (\<lambda>g. g = 0) (drop i gs)"
  have "length ?t \<le> length (drop i gs)" by (rule length_takeWhile_le)
  with assms show "i + zero_run gs i \<le> length gs" by (simp add: zero_run_def)
  have "?t = replicate (zero_run gs i) 0"
    by (rule replicate_eqI [symmetric, OF _, THEN sym]) (auto simp: zero_run_def dest: set_takeWhileD)
  moreover have "drop (i + zero_run gs i) gs = dropWhile (\<lambda>g. g = 0) (drop i gs)"
    by (simp add: zero_run_def dropWhile_eq_drop add.commute)
  ultimately have "replicate (zero_run gs i) 0 @ drop (i + zero_run gs i) gs = drop i gs"
    by (metis takeWhile_dropWhile_id)
  then show "take i gs @ replicate (zero_run gs i) 0 @ drop (i + zero_run gs i) gs = gs" by simp
qed

lemma longest_zeros_Some:
  assumes "longest_zeros gs = Some (a, b)" and "length gs = 8"
  shows "a + 2 \<le> b" "b \<le> 8" "take a gs @ replicate (b - a) 0 @ drop b gs = gs"
proof -
  define f where "f = (\<lambda>best i. let l = zero_run gs i in
      if 2 \<le> l \<and> (case best of None \<Rightarrow> True | Some (a, b) \<Rightarrow> b - a < l) then Some (i, i + l) else best)"
  define P where "P = (\<lambda>best. \<forall>a b. best = Some (a, b) \<longrightarrow>
      a + 2 \<le> b \<and> b \<le> 8 \<and> take a gs @ replicate (b - a) 0 @ drop b gs = gs)"
  have step: "P (f best i)" if "P best" "i < 8" for best i
    using that zero_run_zeros [of i gs] assms(2) by (auto simp: P_def f_def Let_def)
  have "P None" by (simp add: P_def)
  then have "P (foldl f None is)" if "set is \<subseteq> {0..<8}" for "is"
    using that by (induction "is" rule: rev_induct) (simp_all add: step)
  from this [of "[0..<8]"] assms(1) show "a + 2 \<le> b" "b \<le> 8" "take a gs @ replicate (b - a) 0 @ drop b gs = gs"
    by (simp_all add: P_def f_def longest_zeros_def)
qed

section \<open>Addresses read back\<close>

lemma groups_facts:
  assumes "length ip = 16"
  shows "length (groups_of ip) = 8" "\<forall>g \<in> set (groups_of ip). g < 65536"
    "\<forall>g \<in> set (take a (groups_of ip)). g < 65536" "\<forall>g \<in> set (drop b (groups_of ip)). g < 65536"
  using groups_of_less by (auto simp: groups_of_def dest: in_set_takeD in_set_dropD)

lemma show_v6_compressed:
  assumes "length ip = 16" and "longest_zeros (groups_of ip) = Some (a, b)"
  shows "bytes_of_groups (take a (groups_of ip)) @ replicate (2 * (b - a)) 0 @
      bytes_of_groups (drop b (groups_of ip)) = ip" "a + 2 \<le> b" "b \<le> 8"
proof -
  note z = longest_zeros_Some [OF assms(2) groups_facts(1) [OF assms(1)]]
  from z(3) have "bytes_of_groups (take a (groups_of ip) @ replicate (b - a) 0 @ drop b (groups_of ip)) = ip"
    by (simp only: bytes_of_groups_of [OF assms(1)])
  then show "bytes_of_groups (take a (groups_of ip)) @ replicate (2 * (b - a)) 0 @
      bytes_of_groups (drop b (groups_of ip)) = ip" by simp
qed (use longest_zeros_Some [OF assms(2) groups_facts(1) [OF assms(1)]] in simp_all)

lemma parseIPv6_show:
  fixes ip :: bytes
  assumes len: "length ip = 16" and cut: "cut_at (CHR ''%'') s = (show_v6 ip, z)"
    and z: "z \<noteq> Some []" "zone = (case z of None \<Rightarrow> [] | Some z \<Rightarrow> z)"
  shows "parseIPv6 s = Some (Addr6 (get_be ip) zone)"
proof (cases "longest_zeros (groups_of ip)")
  case None
  let ?gs = "groups_of ip"
  have ne: "?gs \<noteq> []" using groups_facts(1) [OF len] by auto
  have "colons ?gs ! 0 \<noteq> CHR '':''" using colons_start [OF ne] colons_neq_Nil [OF ne] by (simp add: hd_conv_nth)
  moreover have "parseIPv6_loop [] None (colons ?gs) = Some (ip, None, [])"
    using loop_colons [OF ne groups_facts(2) [OF len], of "[]" None] groups_facts(1) [OF len] bytes_of_groups_of [OF len]
    by simp
  ultimately show ?thesis using None cut z len
    by (simp add: parseIPv6_def show_v6_def expand_ellipsis_def AddrFrom16_def addr_WithZone_def)
next
  case (Some ab)
  let ?gs = "groups_of ip"
  obtain a b where ab: "longest_zeros ?gs = Some (a, b)" using Some by (cases ab) auto
  note c = show_v6_compressed [OF len ab] and gs = groups_facts [OF len]
  have s6: "show_v6 ip = colons (take a ?gs) @ '':'' @ '':'' @ colons (drop b ?gs)" by (simp add: show_v6_def ab Let_def)
  have sum: "16 - (2 * a + 2 * (8 - b)) = 2 * (b - a)" "2 * a + 2 * (8 - b) < 16" using c(2,3) by linarith+
  show ?thesis
  proof (cases "a = 0")
    case True
    then have lead: "show_v6 ip = CHR '':'' # CHR '':'' # colons (drop b ?gs)" using s6 by simp
    show ?thesis
    proof (cases "drop b ?gs = []")
      case True
      with \<open>a = 0\<close> c have "ip = replicate (2 * b) 0" by simp
      then have "ip = put_be 16 (0 :: 128 word)" using len by simp
      moreover have "get_be (put_be 16 (0 :: 128 word)) = (0 :: 128 word)" by (rule get_put_be) simp
      ultimately have "get_be ip = (0 :: 128 word)" by simp
      with True lead cut z show ?thesis by (simp add: parseIPv6_def IPv6Unspecified_def addr_WithZone_def)
    next
      case False
      have "parseIPv6_loop [] (Some 0) (colons (drop b ?gs)) = Some (bytes_of_groups (drop b ?gs), Some 0, [])"
        using loop_colons [OF False gs(4), of "[]" "Some 0"] gs(1) by simp
      moreover have "expand_ellipsis (bytes_of_groups (drop b ?gs)) (Some 0) = Some ip"
        using c sum gs(1) True by (simp add: expand_ellipsis_def)
      ultimately show ?thesis using lead colons_neq_Nil [OF False] cut z
        by (simp add: parseIPv6_def AddrFrom16_def addr_WithZone_def)
    qed
  next
    case False
    then have ne: "take a ?gs \<noteq> []" using gs(1) by auto
    have start: "show_v6 ip ! 0 \<noteq> CHR '':''"
      using colons_start [OF ne] colons_neq_Nil [OF ne] by (simp add: s6 hd_conv_nth nth_append)
    have "a < b" using c by simp
    have len_a: "length (take a ?gs) = a" using c gs(1) by simp
    have "parseIPv6_loop [] None (show_v6 ip) =
        Some (bytes_of_groups (take a ?gs) @ bytes_of_groups (drop b ?gs), Some (2 * a), [])"
    proof (cases "drop b ?gs = []")
      case True
      with loop_ellipsis [OF ne gs(3), of "[]" "[]"] c gs(1) len_a show ?thesis by (simp add: s6 Let_def)
    next
      case False
      with loop_ellipsis [OF ne gs(3), of "[]" "colons (drop b ?gs)"] c gs(1) len_a colons_neq_Nil [OF False]
        loop_colons [OF False gs(4), of "bytes_of_groups (take a ?gs)" "Some (2 * a)"]
      show ?thesis by (simp add: s6 Let_def)
    qed
    moreover have "expand_ellipsis (bytes_of_groups (take a ?gs) @ bytes_of_groups (drop b ?gs)) (Some (2 * a)) = Some ip"
      using c sum gs(1) len_a by (simp add: expand_ellipsis_def)
    ultimately show ?thesis using start cut z
      by (simp add: parseIPv6_def AddrFrom16_def addr_WithZone_def)
  qed
qed

lemma ParseAddr_colon:
  assumes "s = u @ CHR '':'' # v" and "\<forall>c \<in> set u. c \<notin> {CHR ''.'', CHR '':'', CHR ''%''}"
  shows "ParseAddr s = parseIPv6 s"
proof -
  have "dropWhile (\<lambda>c. c \<notin> {CHR ''.'', CHR '':'', CHR ''%''}) s = CHR '':'' # v"
    unfolding assms(1) by (subst dropWhile_append2) (use assms(2) in auto)
  then show ?thesis by (simp add: ParseAddr_def)
qed

lemma colons_first: "gs \<noteq> [] \<Longrightarrow> \<exists>t. colons gs = show_hex (hd gs) @ t \<and> (t = [] \<or> hd t = CHR '':'')"
  by (cases gs rule: colons.cases) auto

lemma show_v6_shape:
  assumes "length ip = 16"
  obtains u v where "show_v6 ip = u @ CHR '':'' # v" "\<forall>c \<in> set u. c \<notin> {CHR ''.'', CHR '':'', CHR ''%''}"
    "CHR ''%'' \<notin> set v"
proof (cases "longest_zeros (groups_of ip)")
  case None
  from groups_facts(1) [OF assms] obtain g g' gs where "groups_of ip = g # g' # gs"
    by (cases "groups_of ip" rule: colons.cases) auto
  with None have "show_v6 ip = show_hex g @ CHR '':'' # colons (g' # gs)" by (simp add: show_v6_def)
  then show thesis by (rule that) (use show_hex_chars colons_chars [of _ "g' # gs"] in auto)
next
  case (Some ab)
  obtain a b where ab: "longest_zeros (groups_of ip) = Some (a, b)" using Some by (cases ab) auto
  let ?l = "take a (groups_of ip)" and ?r = "drop b (groups_of ip)"
  have s6: "show_v6 ip = colons ?l @ '':'' @ '':'' @ colons ?r" by (simp add: show_v6_def ab Let_def)
  have r: "CHR ''%'' \<notin> set (colons ?r)" "CHR ''%'' \<notin> set (colons ?l)" using colons_chars by blast+
  show thesis
  proof (cases "?l = []")
    case True
    with s6 r show thesis by (intro that [of "[]" "CHR '':'' # colons ?r"]) simp_all
  next
    case False
    from colons_first [OF this] obtain t where t: "colons ?l = show_hex (hd ?l) @ t" "t = [] \<or> hd t = CHR '':''" by blast
    obtain v where "show_v6 ip = show_hex (hd ?l) @ CHR '':'' # v" "set v \<subseteq> set (colons ?l) \<union> {CHR '':''} \<union> set (colons ?r)"
      using s6 t by (cases t) auto
    with r show_hex_chars show thesis by (intro that [of "show_hex (hd ?l)" v]) auto
  qed
qed

lemma ParseAddr_show:
  fixes ip :: bytes
  assumes "length ip = 16"
  shows "ParseAddr (show_v6 ip @ (if zone = [] then [] else CHR ''%'' # zone)) = Some (Addr6 (get_be ip) zone)"
proof -
  let ?s = "show_v6 ip @ (if zone = [] then [] else CHR ''%'' # zone)"
  obtain u v where s: "show_v6 ip = u @ CHR '':'' # v" "\<forall>c \<in> set u. c \<notin> {CHR ''.'', CHR '':'', CHR ''%''}"
    "CHR ''%'' \<notin> set v"
    using show_v6_shape [OF assms] .
  then have "CHR ''%'' \<notin> set (show_v6 ip)" by auto
  then have "cut_at (CHR ''%'') ?s = (show_v6 ip, if zone = [] then None else Some zone)" by simp
  then have "parseIPv6 ?s = Some (Addr6 (get_be ip) zone)" by (rule parseIPv6_show [OF assms]) auto
  moreover have "ParseAddr ?s = parseIPv6 ?s" by (rule ParseAddr_colon [of _ u]) (use s in auto)
  ultimately show ?thesis by simp
qed

lemma be_nat_append: "be_nat (xs @ ys) = be_nat xs * 256 ^ length ys + be_nat ys"
  by (induction ys rule: rev_induct) (simp_all add: algebra_simps flip: append_assoc)

lemma put_mapped4: "put_be 16 (mapped4 v) = v4InV6Prefix @ put_be 4 v"
proof -
  have "be_nat v4InV6Prefix = 65535" by (simp add: v4InV6Prefix_def be_nat_def)
  moreover have "unat (get_be (put_be 4 v) :: 32 word) = be_nat (put_be 4 v)" by (rule unat_get_be) simp
  then have "be_nat (put_be 4 v) = unat v" by (simp add: get_put_be)
  ultimately have "get_be (v4InV6Prefix @ put_be 4 v) = mapped4 v"
    by (simp add: get_be_def mapped4_def be_nat_append)
  then show ?thesis
    using put_get_be_n [of 16 "v4InV6Prefix @ put_be 4 v", where 'a = 128] by (simp add: v4InV6Prefix_def)
qed

lemma dotted_chars: "c \<in> set (dotted bs) \<Longrightarrow> is_digit c \<or> c = CHR ''.''"
  by (induction bs rule: dotted.induct) (auto simp: show_byte_def dest: show_nat_digits)

lemma length_show_nat: "n < 10 ^ k \<Longrightarrow> 0 < k \<Longrightarrow> length (show_nat n) \<le> k"
proof (induction k arbitrary: n)
  case (Suc k)
  show ?case
  proof (cases "n < 10")
    case True
    then show ?thesis by (subst show_nat.simps) simp
  next
    case False
    with Suc.prems have "n div 10 < 10 ^ k" "k \<noteq> 0" by (auto simp: less_mult_imp_div_less mult.commute intro: gr0I)
    with Suc.IH [of "n div 10"] False show ?thesis by (subst show_nat.simps) simp
  qed
qed simp

lemma hex_run_digits:
  "\<forall>c \<in> set ds. is_digit c \<Longrightarrow> acc < 16 ^ off \<Longrightarrow> off + length ds \<le> 4 \<Longrightarrow>
   \<exists>acc'. hex_run off acc (ds @ CHR ''.'' # t) = Some (off + length ds, acc', CHR ''.'' # t)"
proof (induction ds arbitrary: off acc)
  case (Cons c ds)
  have d: "hex_value c = Some (digit_value c)" "digit_value c < 10"
    using Cons.prems(1) digit_value_less [of c] by (auto simp: hex_value_def is_digit_def digit_value_def)
  have new: "acc * 16 + digit_value c < 16 ^ Suc off" using Cons.prems(2) d(2) by simp
  also have "\<dots> \<le> (16 :: nat) ^ 4" using Cons.prems(3) by (intro power_increasing) simp_all
  finally have "\<not> acc * 16 + digit_value c > 65535" by simp
  with d Cons.prems Cons.IH [of "acc * 16 + digit_value c" "Suc off"] new show ?case by (simp add: Let_def)
qed simp

lemma dotted4:
  assumes "length bs = 4"
  obtains b bs' where "dotted bs = show_byte b @ CHR ''.'' # dotted bs'"
proof -
  from assms obtain b b' bs' where "bs = b # b' # bs'" by (cases bs rule: dotted.cases) auto
  then show thesis by (intro that [of b "b' # bs'"]) simp
qed

lemma ParseAddr_dotted:
  assumes "length bs = 4"
  shows "ParseAddr (dotted bs) = Some (Addr4 (get_be bs))"
proof -
  obtain b bs' where d: "dotted bs = show_byte b @ CHR ''.'' # dotted bs'" using dotted4 [OF assms] .
  have "dropWhile (\<lambda>c. c \<notin> {CHR ''.'', CHR '':'', CHR ''%''}) (dotted bs) = CHR ''.'' # dotted bs'"
    unfolding d by (subst dropWhile_append2) (auto simp: show_byte_def dest: show_nat_digits)
  then have "ParseAddr (dotted bs) = parseIPv4 (dotted bs)" by (simp add: ParseAddr_def)
  moreover have "parseIPv4Fields None 0 0 [] (dotted bs) = Some bs" using assms by (simp add: parseIPv4Fields_iff)
  ultimately show ?thesis by (simp add: parseIPv4_def AddrFrom4_def)
qed

lemma parseIPv6_mapped:
  assumes "cut_at (CHR ''%'') s = (''::ffff:'' @ dotted (put_be 4 v), z)"
    and z: "z \<noteq> Some []" "zone = (case z of None \<Rightarrow> [] | Some z \<Rightarrow> z)"
  shows "parseIPv6 s = Some (Addr6 (mapped4 v) zone)"
proof -
  let ?D = "dotted (put_be 4 v)"
  obtain b bs' where d: "?D = show_byte b @ CHR ''.'' # dotted bs'" using dotted4 [of "put_be 4 v"] by auto
  have len: "length (show_byte b) \<le> 4" unfolding show_byte_def by (rule length_show_nat) (simp_all add: less_trans [OF unat_byte_less])
  have "\<forall>c \<in> set (show_byte b). is_digit c" by (auto simp: show_byte_def dest: show_nat_digits)
  from hex_run_digits [OF this, of 0 0 "dotted bs'"] len obtain acc where
    h: "hex_run 0 0 ?D = Some (length (show_byte b), acc, CHR ''.'' # dotted bs')" by (auto simp: d)
  have ne: "?D \<noteq> []" by (simp add: d)
  have "CHR '':'' \<notin> set ?D" using dotted_chars [of "CHR '':''" "put_be 4 v"] by auto
  with ne have start: "?D \<noteq> []" "hd ?D \<noteq> CHR '':''" by (metis, metis hd_in_set)
  have "of_char (hex_digit 15) = (of_char (CHR ''f'') :: nat)" by (simp add: hex_digit_def of_char_of)
  then have "hex_digit 15 = CHR ''f''" by (simp only: of_char_eq_iff)
  then have f: "show_hex 65535 = ''ffff''" by (simp add: show_hex.simps)
  have b: "(65535 :: byte) = 255" by (simp add: word_unat_eq_iff)
  have "parseIPv6_loop [] (Some 0) (''ffff'' @ CHR '':'' # ?D) = parseIPv6_loop [255, 255] (Some 0) ?D"
    using loop_group [of "[]" 65535 "CHR '':'' # ?D" "Some 0"] start by (simp add: f b Let_def)
  also have "\<dots> = Some ([255, 255] @ put_be 4 v, Some 0, [])"
    by (subst parseIPv6_loop.simps) (simp add: h parseIPv4Fields_iff show_byte_def)
  finally have "parseIPv6_loop [] (Some 0) (''ffff'' @ CHR '':'' # ?D) = Some ([255, 255] @ put_be 4 v, Some 0, [])" .
  moreover have "replicate 10 (0 :: byte) = [0, 0, 0, 0, 0, 0, 0, 0, 0, 0]" by (simp add: numeral_eq_Suc)
  then have "expand_ellipsis ([255, 255] @ put_be 4 v) (Some 0) = Some (put_be 16 (mapped4 v))"
    by (simp add: expand_ellipsis_def put_mapped4 v4InV6Prefix_def)
  ultimately show ?thesis using assms
    by (simp add: parseIPv6_def AddrFrom16_def addr_WithZone_def get_put_be)
qed

lemma ParseAddr_String:
  assumes "a \<noteq> NoAddr"
  shows "ParseAddr (addr_String a) = Some a"
proof (cases a)
  case (Addr4 v)
  then show ?thesis by (simp add: addr_String_def ParseAddr_dotted get_put_be)
next
  case (Addr6 w zone)
  let ?z = "if zone = [] then [] else CHR ''%'' # zone"
  show ?thesis
  proof (cases "addr_Is4In6 a")
    case True
    let ?v = "ucast w :: 32 word" and ?t = "''::ffff:'' @ dotted (put_be 4 (ucast w :: 32 word))"
    have w: "mapped4 ?v = w" using True Addr6 by (simp add: addr_Is4In6_def mapped4_ucast)
    have "CHR ''%'' \<notin> set ?t" using dotted_chars [of "CHR ''%''" "put_be 4 ?v"] by auto
    then have "cut_at (CHR ''%'') (?t @ ?z) = (?t, if zone = [] then None else Some zone)" by simp
    then have "parseIPv6 (?t @ ?z) = Some (Addr6 (mapped4 ?v) zone)" by (rule parseIPv6_mapped) auto
    then have "parseIPv6 (?t @ ?z) = Some (Addr6 w zone)" by (simp only: w)
    moreover have "ParseAddr (?t @ ?z) = parseIPv6 (?t @ ?z)" by (rule ParseAddr_colon [of _ "[]"]) simp_all
    ultimately show ?thesis using True Addr6 by (simp add: addr_String_def)
  next
    case False
    with Addr6 show ?thesis using ParseAddr_show [of "put_be 16 w" zone] by (simp add: addr_String_def get_put_be)
  qed
qed (use assms in simp)

text \<open>\<open>ParseIP\<close> gives the sixteen-byte form.\<close>

lemma ParseIP_String:
  "length ip = 4 \<Longrightarrow> ParseIP (ip_String ip) = v4InV6Prefix @ ip"
  "length ip = 16 \<Longrightarrow> ParseIP (ip_String ip) = ip"
proof -
  have v4: "ParseIP (dotted bs) = v4InV6Prefix @ bs" if "length bs = 4" for bs
    using that by (simp add: ParseIP_def ParseAddr_dotted addr_Zone_def addr_As16_def addr_value_def put_mapped4 put_get_be_n)
  show "ParseIP (ip_String ip) = v4InV6Prefix @ ip" if "length ip = 4"
    using that v4 [of ip] by (auto simp: ip_String_def ip_To4_def)
  show "ParseIP (ip_String ip) = ip" if len: "length ip = 16"
  proof (cases "slice_of ip 0 12 = v4InV6Prefix")
    case True
    then have "ip = v4InV6Prefix @ drop 12 ip" by (simp add: slice_of_def) (metis append_take_drop_id)
    with True len v4 [of "drop 12 ip"] show ?thesis by (auto simp: ip_String_def ip_To4_def)
  next
    case False
    with len ParseAddr_show [OF len, of "[]"] show ?thesis
      by (auto simp: ip_String_def ip_To4_def ParseIP_def addr_Zone_def addr_As16_def addr_value_def put_get_be_n)
  qed
qed

lemma ip_String_Equal:
  assumes "length ip = 4 \<or> length ip = 16"
  shows "ip_Equal (ParseIP (ip_String ip)) ip"
  using assms
proof
  assume "length ip = 4"
  moreover from this have "ParseIP (ip_String ip) = v4InV6Prefix @ ip" by (rule ParseIP_String)
  ultimately show ?thesis by (simp add: ip_Equal_def v4InV6Prefix_def slice_of_def)
qed (simp add: ParseIP_String)

end
