(* ===== verification/Gateway_Discoverer.thy ===== *)
theory Gateway_Discoverer
  imports Go_Context
begin

text \<open>
  \<open>pcp/gateway_discoverer.go\<close> and \<open>gateway.go\<close>: the default gateway of the routing table. The table
  itself is the library \<open>go-netroute\<close>, which is not part of the repository: \<open>newRouter\<close> is a
  parameter that yields a router or an error, a router maps a destination to the name of an
  interface, a gateway and a source address, each possibly nil. \<open>goos\<close> is \<open>runtime.GOOS\<close>,
  \<open>ctx_err\<close> the answer of \<open>ctx.Err()\<close>.
\<close>

type_synonym route = "string option \<times> net_ip option \<times> net_ip option"
type_synonym router = "net_ip \<Rightarrow> route or_err"

definition pcp_ErrNoNATFound :: go_err where
  "pcp_ErrNoNATFound = Sentinel ''pcp'' ''no NAT found''"

definition pcp_ErrNoInternalAddress :: go_err where
  "pcp_ErrNoInternalAddress = Sentinel ''pcp'' ''no internal address''"

definition nat_ErrNoNATFound :: go_err where
  "nat_ErrNoNATFound = Sentinel ''nat'' ''no NAT found''"

definition nat_ErrNoInternalAddress :: go_err where
  "nat_ErrNoInternalAddress = Sentinel ''nat'' ''no internal address''"

definition nat_ErrNoExternalAddress :: go_err where
  "nat_ErrNoExternalAddress = Sentinel ''nat'' ''no external address''"

section \<open>Probes\<close>

definition defaultRouteProbe4 :: "string \<Rightarrow> net_ip" where
  "defaultRouteProbe4 goos =
     (if goos = ''linux'' \<or> goos = ''android'' then net_IPv4 0 0 0 1 else IPv4zero)"

definition defaultRouteProbe6 :: "string \<Rightarrow> net_ip" where
  "defaultRouteProbe6 goos =
     (if goos = ''linux'' \<or> goos = ''android''
      then [0, 0, 0, 0, 0, 0, 0, 0, 0, 0, 0, 0, 0, 0, 0, 2] else IPv6zero)"

section \<open>Discovery\<close>

definition Discover ::
  "string \<Rightarrow> router or_err \<Rightarrow> ctx_err option \<Rightarrow> (net_ip \<times> net_ip) or_err" where
  "Discover goos newRouter ctx_err =
     (case ctx_err of
        Some e \<Rightarrow> Inl (CtxErr e)
      | None \<Rightarrow>
     (case newRouter of
        Inl err \<Rightarrow> Inl err
      | Inr router \<Rightarrow>
     (case router (defaultRouteProbe4 goos) of
        Inl err \<Rightarrow> Inl err
      | Inr (_, gateway, localIP) \<Rightarrow>
     (case gateway of
        None \<Rightarrow> Inl pcp_ErrNoNATFound
      | Some gateway \<Rightarrow>
     (case localIP of
        None \<Rightarrow> Inl pcp_ErrNoInternalAddress
      | Some localIP \<Rightarrow> Inr (gateway, localIP))))))"

definition DiscoverV6 ::
  "string \<Rightarrow> router or_err \<Rightarrow> ctx_err option \<Rightarrow> (net_ip \<times> net_ip \<times> string) or_err" where
  "DiscoverV6 goos newRouter ctx_err =
     (case ctx_err of
        Some e \<Rightarrow> Inl (CtxErr e)
      | None \<Rightarrow>
     (case newRouter of
        Inl err \<Rightarrow> Inl err
      | Inr router \<Rightarrow>
     (case router (defaultRouteProbe6 goos) of
        Inl err \<Rightarrow> Inl err
      | Inr (iface, gateway, localIP) \<Rightarrow>
     (case gateway of
        None \<Rightarrow> Inl pcp_ErrNoNATFound
      | Some gateway \<Rightarrow>
     (case localIP of
        None \<Rightarrow> Inl pcp_ErrNoInternalAddress
      | Some localIP \<Rightarrow>
          let zone = (case iface of
                        Some name \<Rightarrow> if ip_IsLinkLocalUnicast gateway then name else []
                      | None \<Rightarrow> [])
          in Inr (gateway, localIP, zone))))))"

text \<open>The gateway of the \<open>nat\<close> package, with its own copy of the IPv4 probe.\<close>

definition nat_defaultRouteProbe4 :: "string \<Rightarrow> net_ip" where
  "nat_defaultRouteProbe4 goos =
     (if goos = ''linux'' \<or> goos = ''android'' then net_IPv4 0 0 0 1 else IPv4zero)"

lemma nat_defaultRouteProbe4_eq [simp]: "nat_defaultRouteProbe4 = defaultRouteProbe4"
  by (simp add: fun_eq_iff nat_defaultRouteProbe4_def defaultRouteProbe4_def)

definition getDefaultGateway :: "string \<Rightarrow> router or_err \<Rightarrow> net_ip or_err" where
  "getDefaultGateway goos newRouter =
     (case newRouter of
        Inl err \<Rightarrow> Inl err
      | Inr router \<Rightarrow>
     (case router (nat_defaultRouteProbe4 goos) of
        Inl err \<Rightarrow> Inl err
      | Inr (_, ip, _) \<Rightarrow>
     (case ip of None \<Rightarrow> Inl nat_ErrNoNATFound | Some ip \<Rightarrow> Inr ip)))"

section \<open>Facts\<close>

lemma Discover_Inr_iff:
  "Discover goos newRouter ctx_err = Inr (gateway, localIP) \<longleftrightarrow>
     ctx_err = None \<and> (\<exists>router iface. newRouter = Inr router \<and>
       router (defaultRouteProbe4 goos) = Inr (iface, Some gateway, Some localIP))"
  by (auto simp: Discover_def split: option.splits sum.splits prod.splits)

lemma DiscoverV6_Inr_iff:
  "DiscoverV6 goos newRouter ctx_err = Inr (gateway, localIP, zone) \<longleftrightarrow>
     ctx_err = None \<and> (\<exists>router iface. newRouter = Inr router \<and>
       router (defaultRouteProbe6 goos) = Inr (iface, Some gateway, Some localIP) \<and>
       zone = (if ip_IsLinkLocalUnicast gateway then case iface of Some n \<Rightarrow> n | None \<Rightarrow> [] else []))"
  by (auto simp: DiscoverV6_def Let_def split: option.splits sum.splits prod.splits if_splits)

lemma getDefaultGateway_Inr_iff:
  "getDefaultGateway goos newRouter = Inr ip \<longleftrightarrow>
     (\<exists>router iface src. newRouter = Inr router \<and>
       router (defaultRouteProbe4 goos) = Inr (iface, Some ip, src))"
  by (auto simp: getDefaultGateway_def split: option.splits sum.splits prod.splits)

end
