(* ===== verification/Mapping_Service.thy ===== *)
theory Mapping_Service
  imports Go_Context
begin

text \<open>
  What every port mapping protocol of the program promises its callers, as a locale: operations that
  add and delete a mapping, and a predicate that says which mappings the provider remembers well
  enough to delete them later. The providers are the PCP client, the NATs built on it and the
  NAT-PMP and UPnP gateways; each theory interprets the locale on its own operations. \<open>'x\<close> is the
  outside of one call (network, context, randomness), \<open>'s\<close> the provider's state. \<open>None\<close> is a call
  that does not return.
\<close>

datatype 'x mapping_op = OpAdd 'x string int duration | OpDelete 'x string int

text \<open>A sequence of calls, with the error each of them returned.\<close>

fun run_ops ::
  "('x \<Rightarrow> string \<Rightarrow> int \<Rightarrow> duration \<Rightarrow> 's \<Rightarrow> (go_err option \<times> 's) option)
   \<Rightarrow> ('x \<Rightarrow> string \<Rightarrow> int \<Rightarrow> 's \<Rightarrow> (go_err option \<times> 's) option)
   \<Rightarrow> 'x mapping_op list \<Rightarrow> 's \<Rightarrow> (go_err option list \<times> 's) option" where
  "run_ops add del [] s = Some ([], s)"
| "run_ops add del (OpAdd x proto port lt # ops) s =
     (case add x proto port lt s of
        None \<Rightarrow> None
      | Some (e, s) \<Rightarrow> map_option (\<lambda>(es, s). (e # es, s)) (run_ops add del ops s))"
| "run_ops add del (OpDelete x proto port # ops) s =
     (case del x proto port s of
        None \<Rightarrow> None
      | Some (e, s) \<Rightarrow> map_option (\<lambda>(es, s). (e # es, s)) (run_ops add del ops s))"

lemma run_ops_append:
  "run_ops add del (ops @ ops') s =
     (case run_ops add del ops s of
        None \<Rightarrow> None
      | Some (es, s') \<Rightarrow> map_option (\<lambda>(es', s'). (es @ es', s')) (run_ops add del ops' s'))"
  by (induction add del ops s rule: run_ops.induct)
    (auto split: option.split simp: option.map_comp comp_def split_def option.map_ident)

lemma run_ops_length: "run_ops add del ops s = Some (es, s') \<Longrightarrow> length es = length ops"
  by (induction add del ops s arbitrary: es rule: run_ops.induct) (auto split: option.splits)

text \<open>
  The calls that may end the life of a mapping \<open>(proto, port)\<close>: its successful deletion, under any of
  the names the provider takes for the same (\<open>same\<close>), and an add with no lifetime, which PCP takes
  for a deletion.
\<close>

fun may_end :: "(string \<Rightarrow> int \<Rightarrow> string \<Rightarrow> int \<Rightarrow> bool) \<Rightarrow> string \<Rightarrow> int \<Rightarrow> 'x mapping_op \<times> go_err option \<Rightarrow> bool" where
  "may_end same proto port (OpAdd x proto' port' lt, e) \<longleftrightarrow> lt \<le> 0"
| "may_end same proto port (OpDelete x proto' port', e) \<longleftrightarrow> e = None \<and> same proto port proto' port'"

locale mapping_service =
  fixes add :: "'x \<Rightarrow> string \<Rightarrow> int \<Rightarrow> duration \<Rightarrow> 's \<Rightarrow> (go_err option \<times> 's) option"
    and del :: "'x \<Rightarrow> string \<Rightarrow> int \<Rightarrow> 's \<Rightarrow> (go_err option \<times> 's) option"
    and tracked :: "string \<Rightarrow> int \<Rightarrow> 's \<Rightarrow> bool"
    and same :: "string \<Rightarrow> int \<Rightarrow> string \<Rightarrow> int \<Rightarrow> bool"
  assumes add_tracks: "add x proto port lt s = Some (None, s') \<Longrightarrow> 0 < lt \<Longrightarrow> tracked proto port s'"
    and add_keeps: "add x proto port lt s = Some (r, s') \<Longrightarrow> 0 < lt \<Longrightarrow> tracked p q s \<Longrightarrow> tracked p q s'"
    and delete_forgets: "del x proto port s = Some (None, s') \<Longrightarrow> \<not> tracked proto port s'"
    and delete_failed: "del x proto port s = Some (Some e, s') \<Longrightarrow> tracked p q s' \<longleftrightarrow> tracked p q s"
    and delete_others: "del x proto port s = Some (r, s') \<Longrightarrow> \<not> same p q proto port \<Longrightarrow>
           tracked p q s' \<longleftrightarrow> tracked p q s"
begin

lemma run_keeps:
  assumes "run_ops add del ops s = Some (es, s')" and "tracked proto port s"
    and "\<forall>oe \<in> set (zip ops es). \<not> may_end same proto port oe"
  shows "tracked proto port s'"
  using assms
proof (induction ops arbitrary: s es)
  case (Cons op ops)
  show ?case
  proof (cases op)
    case (OpAdd x proto' port' lt)
    with Cons.prems(1) obtain r s1 es1 where "add x proto' port' lt s = Some (r, s1)"
      "run_ops add del ops s1 = Some (es1, s')" "es = r # es1"
      by (auto split: option.splits)
    with Cons.prems(2,3) OpAdd show ?thesis by (intro Cons.IH [of s1 es1]) (auto intro: add_keeps)
  next
    case (OpDelete x proto' port')
    with Cons.prems(1) obtain r s1 es1 where d: "del x proto' port' s = Some (r, s1)"
      "run_ops add del ops s1 = Some (es1, s')" "es = r # es1"
      by (auto split: option.splits)
    have "tracked proto port s1"
    proof (cases r)
      case None
      with Cons.prems(3) OpDelete d have "\<not> same proto port proto' port'" by simp
      with d(1) Cons.prems(2) show ?thesis by (simp add: delete_others)
    next
      case (Some e)
      with d(1) Cons.prems(2) show ?thesis by (simp add: delete_failed)
    qed
    with Cons.prems(3) d show ?thesis by (intro Cons.IH [of s1 es1]) auto
  qed
qed simp

text \<open>A mapping that was added is remembered until its deletion succeeds.\<close>

lemma added_stays_tracked:
  assumes "add x proto port lt s = Some (None, s1)" and "0 < lt"
    and "run_ops add del ops s1 = Some (es, s')"
    and "\<forall>oe \<in> set (zip ops es). \<not> may_end same proto port oe"
  shows "tracked proto port s'"
  using run_keeps [OF assms(3) add_tracks [OF assms(1,2)] assms(4)] .

text \<open>The same within a longer sequence of calls.\<close>

lemma added_in_run:
  assumes "run_ops add del (before @ OpAdd x proto port lt # after) s = Some (es, s')" and "0 < lt"
    and "es ! length before = None"
    and "\<forall>oe \<in> set (zip after (drop (Suc (length before)) es)). \<not> may_end same proto port oe"
  shows "tracked proto port s'"
proof -
  from assms(1) obtain es1 s1 es2 where b: "run_ops add del before s = Some (es1, s1)"
    "run_ops add del (OpAdd x proto port lt # after) s1 = Some (es2, s')" "es = es1 @ es2"
    by (auto simp: run_ops_append split: option.splits)
  from b(2) obtain e s2 es3 where a: "add x proto port lt s1 = Some (e, s2)"
    "run_ops add del after s2 = Some (es3, s')" "es2 = e # es3"
    by (auto split: option.splits)
  from b(1) have len: "length es1 = length before" by (rule run_ops_length)
  with assms(3) a(3) b(3) have "e = None" by (simp add: nth_append)
  moreover from len assms(4) a(3) b(3)
  have "\<forall>oe \<in> set (zip after es3). \<not> may_end same proto port oe" by simp
  ultimately show ?thesis using added_stays_tracked a(1,2) assms(2) by blast
qed

end

text \<open>
  Providers whose calls all return: \<open>ok\<close> says of a state that no lock is held for ever and the like.
\<close>

locale answering =
  fixes add :: "'x \<Rightarrow> string \<Rightarrow> int \<Rightarrow> duration \<Rightarrow> 's \<Rightarrow> (go_err option \<times> 's) option"
    and del :: "'x \<Rightarrow> string \<Rightarrow> int \<Rightarrow> 's \<Rightarrow> (go_err option \<times> 's) option"
    and ok :: "'s \<Rightarrow> bool"
  assumes add_answers: "ok s \<Longrightarrow> \<exists>e s'. add x proto port lt s = Some (e, s') \<and> ok s'"
    and delete_answers: "ok s \<Longrightarrow> \<exists>e s'. del x proto port s = Some (e, s') \<and> ok s'"
begin

lemma run_returns: "ok s \<Longrightarrow> \<exists>es s'. run_ops add del ops s = Some (es, s') \<and> ok s'"
proof (induction ops arbitrary: s)
  case (Cons op ops)
  show ?case
  proof (cases op)
    case (OpAdd x proto port lt)
    from add_answers [OF Cons.prems] obtain e s1 where "add x proto port lt s = Some (e, s1)" "ok s1" by blast
    with Cons.IH [OF this(2)] OpAdd show ?thesis by auto
  next
    case (OpDelete x proto port)
    from delete_answers [OF Cons.prems] obtain e s1 where "del x proto port s = Some (e, s1)" "ok s1" by blast
    with Cons.IH [OF this(2)] OpDelete show ?thesis by auto
  qed
qed simp

end

end
