(* ===== verification/Upnp_NAT.thy ===== *)
theory Upnp_NAT
  imports Random_Port Go_URL Go_Addr_Text Gateway_Discoverer Mapping_Service
begin

text \<open>
  The UPnP gateway of \<open>upnp.go\<close>: \<open>upnp_NAT\<close> and its methods. The SOAP client is the library
  \<open>goupnp\<close>, which is not part of the repository; its calls are the functions of \<open>upnp_client\<close>, the code's
  interface \<open>upnp_NAT_Client\<close>, over a state \<open>'d\<close> of the outside: the device and the network. \<open>mu\<close> is held
  over the whole of \<open>AddPortMapping\<close> and \<open>DeletePortMapping\<close>, so that calls follow one another; the
  model takes each call as one step.
\<close>

section \<open>The gateway\<close>

record add_request =
  ar_RemoteHost :: string
  ar_ExternalPort :: "16 word"
  ar_Protocol :: string
  ar_InternalPort :: "16 word"
  ar_InternalClient :: string
  ar_Enabled :: bool
  ar_Description :: string
  ar_LeaseDuration :: "32 word"

record 'd upnp_client =
  uc_GetExternalIPAddress :: "ctx \<Rightarrow> 'd \<Rightarrow> string or_err \<times> 'd"
  uc_AddPortMapping :: "ctx \<Rightarrow> add_request \<Rightarrow> 'd \<Rightarrow> go_err option \<times> 'd"
  uc_DeletePortMapping :: "ctx \<Rightarrow> string \<Rightarrow> 16 word \<Rightarrow> string \<Rightarrow> 'd \<Rightarrow> go_err option \<times> 'd"
  uc_GetNATRSIPStatus :: "ctx \<Rightarrow> 'd \<Rightarrow> (bool \<times> bool) or_err \<times> 'd"

record upnpMappingKey =
  uk_protocol :: string
  uk_port :: "16 word"

text \<open>Of the root device only the base URL is used.\<close>

record 'd upnp_NAT =
  up_c :: "'d upnp_client"
  up_typ :: string
  up_URLBase :: url
  up_ports :: "upnpMappingKey \<rightharpoonup> 16 word"

definition newUPNPNAT :: "'d upnp_client \<Rightarrow> string \<Rightarrow> url \<Rightarrow> 'd upnp_NAT" where
  "newUPNPNAT client typ base =
     \<lparr>up_c = client, up_typ = typ, up_URLBase = base, up_ports = Map.empty\<rparr>"

definition upnp_Type :: "'d upnp_NAT \<Rightarrow> string" where
  "upnp_Type u = up_typ u"

section \<open>Addresses\<close>

definition defaultHTTPPort :: string where
  "defaultHTTPPort = ''80''"

definition deviceTimeout :: duration where
  "deviceTimeout = 10 * second"

definition errNoDeviceHost :: go_err where
  "errNoDeviceHost = Sentinel ''nat'' ''device description has no host''"

definition deviceHostPort :: "url \<Rightarrow> string or_err" where
  "deviceHostPort base =
     (let host = Hostname base
      in if host = [] then Inl errNoDeviceHost
         else let port = url_Port base; port = (if port = [] then defaultHTTPPort else port)
              in Inr (JoinHostPort host port))"

text \<open>
  \<open>dial\<close> is \<open>DialContext(ctx, "udp", host)\<close>: an error, or the local address of the connection, with
  \<open>None\<close> for an address that is not a UDP address. \<open>resolve\<close> is \<open>net.ResolveUDPAddr\<close>.
\<close>

definition upnp_internalAddress ::
  "(ctx \<Rightarrow> string \<Rightarrow> net_ip option or_err) \<Rightarrow> ctx \<Rightarrow> 'd upnp_NAT \<Rightarrow> net_ip or_err" where
  "upnp_internalAddress dial ctx u =
     (case deviceHostPort (up_URLBase u) of
        Inl err \<Rightarrow> Inl err
      | Inr host \<Rightarrow>
     (case dial ctx host of
        Inl err \<Rightarrow> Inl (Errorf ''resolve local address for %s: %w'' [AStr host, AErr err])
      | Inr None \<Rightarrow> Inl nat_ErrNoInternalAddress
      | Inr (Some ip) \<Rightarrow> Inr ip))"

definition upnp_GetInternalAddress ::
  "(ctx \<Rightarrow> string \<Rightarrow> net_ip option or_err) \<Rightarrow> 'd upnp_NAT \<Rightarrow> net_ip or_err" where
  "upnp_GetInternalAddress dial u = upnp_internalAddress dial (WithTimeout Background deviceTimeout) u"

definition upnp_GetDeviceAddress :: "(string \<Rightarrow> net_ip or_err) \<Rightarrow> 'd upnp_NAT \<Rightarrow> net_ip or_err" where
  "upnp_GetDeviceAddress resolve u =
     (case deviceHostPort (up_URLBase u) of
        Inl err \<Rightarrow> Inl err
      | Inr host \<Rightarrow> (case resolve host of Inl err \<Rightarrow> Inl err | Inr ip \<Rightarrow> Inr ip))"

definition upnp_GetExternalAddress :: "'d upnp_NAT \<Rightarrow> 'd \<Rightarrow> net_ip or_err \<times> 'd" where
  "upnp_GetExternalAddress u d =
     (let (r, d) = uc_GetExternalIPAddress (up_c u) (WithTimeout Background deviceTimeout) d
      in case r of
           Inl err \<Rightarrow> (Inl err, d)
         | Inr ipString \<Rightarrow>
             let ip = ParseIP ipString
             in if ip = [] then (Inl nat_ErrNoExternalAddress, d) else (Inr ip, d))"

section \<open>Mappings\<close>

definition mapProtocol :: "string \<Rightarrow> string or_err" where
  "mapProtocol s =
     (if s = ''udp'' then Inr ''UDP''
      else if s = ''tcp'' then Inr ''TCP''
      else Inl (Errorf ''invalid protocol: %s'' [AStr s]))"

definition upnp_key :: "string \<Rightarrow> int \<Rightarrow> upnpMappingKey" where
  "upnp_key proto internalPort = \<lparr>uk_protocol = proto, uk_port = word_of_int internalPort\<rparr>"

definition upnp_request ::
  "string \<Rightarrow> upnpMappingKey \<Rightarrow> net_ip \<Rightarrow> string \<Rightarrow> duration \<Rightarrow> 16 word \<Rightarrow> add_request" where
  "upnp_request proto key ip description timeout externalPort =
     \<lparr>ar_RemoteHost = [], ar_ExternalPort = externalPort, ar_Protocol = proto,
      ar_InternalPort = uk_port key, ar_InternalClient = ip_String ip, ar_Enabled = True,
      ar_Description = description, ar_LeaseDuration = word_of_int (timeout sdiv second)\<rparr>"

text \<open>The renewal of a cached port: whether it was granted, and the port requested if one was.\<close>

definition upnp_renew ::
  "(16 word \<Rightarrow> 'd \<Rightarrow> go_err option \<times> 'd) \<Rightarrow> 16 word \<Rightarrow> 'd \<Rightarrow> bool \<times> 16 word list \<times> 'd" where
  "upnp_renew call externalPort d =
     (if externalPort > 0
      then let (err, d) = call externalPort d in (err = None, [externalPort], d)
      else (False, [], d))"

text \<open>The result carries the requests made, in order.\<close>

definition upnp_AddPortMapping ::
  "(ctx \<Rightarrow> string \<Rightarrow> net_ip option or_err) \<Rightarrow> (nat \<Rightarrow> nat) \<Rightarrow> ctx \<Rightarrow> string \<Rightarrow> int \<Rightarrow> string \<Rightarrow> duration
   \<Rightarrow> 'd upnp_NAT \<Rightarrow> 'd \<Rightarrow> int or_err \<times> add_request list \<times> 'd upnp_NAT \<times> 'd" where
  "upnp_AddPortMapping dial rand ctx protocol internalPort description timeout u d =
     (case mapProtocol protocol of
        Inl err \<Rightarrow> (Inl err, [], u, d)
      | Inr proto \<Rightarrow>
     (case upnp_internalAddress dial ctx u of
        Inl err \<Rightarrow> (Inl (Errorf ''get internal address: %w'' [AErr err]), [], u, d)
      | Inr ip \<Rightarrow>
          let key = upnp_key proto internalPort;
              request = upnp_request proto key ip description timeout;
              call = (\<lambda>p. uc_AddPortMapping (up_c u) ctx (request p));
              externalPort = (case up_ports u key of Some p \<Rightarrow> p | None \<Rightarrow> 0);
              (renewed, ps, d) = upnp_renew call externalPort d
          in if renewed then (Inr (uint externalPort), map request ps, u, d)
             else
               let (granted, err, tried, d) =
                     try_ports 3 call (\<lambda>i. word_of_int (randomPort (rand i))) 0 None d
               in case granted of
                    Some p \<Rightarrow> (Inr (uint p), map request (ps @ tried), u\<lparr>up_ports := (up_ports u)(key \<mapsto> p)\<rparr>, d)
                  | None \<Rightarrow> ((case err of Some e \<Rightarrow> Inl e | None \<Rightarrow> Inr 0), map request (ps @ tried), u, d)))"

definition upnp_DeletePortMapping ::
  "ctx \<Rightarrow> string \<Rightarrow> int \<Rightarrow> 'd upnp_NAT \<Rightarrow> 'd \<Rightarrow> go_err option \<times> 'd upnp_NAT \<times> 'd" where
  "upnp_DeletePortMapping ctx protocol internalPort u d =
     (case mapProtocol protocol of
        Inl err \<Rightarrow> (Some err, u, d)
      | Inr proto \<Rightarrow>
          let key = upnp_key proto internalPort
          in case up_ports u key of
               None \<Rightarrow> (None, u, d)
             | Some externalPort \<Rightarrow>
                 let (err, d) = uc_DeletePortMapping (up_c u) ctx [] externalPort proto d
                 in case err of
                      Some err \<Rightarrow> (Some err, u, d)
                    | None \<Rightarrow> (None, u\<lparr>up_ports := (up_ports u)(key := None)\<rparr>, d))"

section \<open>The outcomes of an add\<close>

lemma randomPort_word:
  fixes p :: "16 word"
  assumes "p = word_of_int (randomPort r)"
  shows "uint p = randomPort r" and "0 < p"
proof -
  show "uint p = randomPort r"
    using randomPort_range [of r] by (simp add: assms unsigned_of_int take_bit_int_eq_self)
  with randomPort_range [of r] show "0 < p" by (simp add: word_less_def)
qed

text \<open>The ports an add may ask for, in order: the cached one, then three draws.\<close>

definition upnp_ports_tried :: "(nat \<Rightarrow> nat) \<Rightarrow> 16 word option \<Rightarrow> 16 word list" where
  "upnp_ports_tried rand cached =
     (case cached of Some p \<Rightarrow> if 0 < p then [p] else [] | None \<Rightarrow> []) @
     map (\<lambda>i. word_of_int (randomPort (rand i))) [0, 1, 2]"

lemma upnp_Add_cases:
  assumes "upnp_AddPortMapping dial rand ctx protocol internalPort description timeout u d = (r, reqs, u', d')"
  obtains (Rejected) e where "r = Inl e" "reqs = []" "u' = u" "d' = d"
    "\<nexists>proto ip. mapProtocol protocol = Inr proto \<and> upnp_internalAddress dial ctx u = Inr ip"
  | (Asked) proto ip ps granted err where
    "mapProtocol protocol = Inr proto" "upnp_internalAddress dial ctx u = Inr ip"
    "reqs = map (upnp_request proto (upnp_key proto internalPort) ip description timeout) ps"
    "requests (\<lambda>p. uc_AddPortMapping (up_c u) ctx
       (upnp_request proto (upnp_key proto internalPort) ip description timeout p)) d ps granted err d'"
    "ps \<noteq> []" "length ps \<le> 4"
    "\<forall>p \<in> set ps. 0 < p \<and> (up_ports u (upnp_key proto internalPort) = Some p \<or>
       10000 \<le> uint p \<and> uint p \<le> 65534)"
    "\<forall>p. up_ports u (upnp_key proto internalPort) = Some p \<longrightarrow> 0 < p \<longrightarrow> hd ps = p"
    "case granted of
       Some p \<Rightarrow> r = Inr (uint p) \<and> u' = u\<lparr>up_ports := (up_ports u)(upnp_key proto internalPort \<mapsto> p)\<rparr>
     | None \<Rightarrow> (\<exists>e. err = Some e \<and> r = Inl e) \<and> u' = u"
    "prefix ps (upnp_ports_tried rand (up_ports u (upnp_key proto internalPort)))"
    "granted = None \<longrightarrow> ps = upnp_ports_tried rand (up_ports u (upnp_key proto internalPort))"
proof (cases "\<exists>proto ip. mapProtocol protocol = Inr proto \<and> upnp_internalAddress dial ctx u = Inr ip")
  case False
  then have "\<exists>e. r = Inl e \<and> reqs = [] \<and> u' = u \<and> d' = d"
    using assms by (auto simp: upnp_AddPortMapping_def split: sum.splits)
  then show ?thesis using Rejected False by blast
next
  case True
  then obtain proto ip where pi: "mapProtocol protocol = Inr proto" "upnp_internalAddress dial ctx u = Inr ip"
    by blast
  define key where "key = upnp_key proto internalPort"
  define req where "req = upnp_request proto key ip description timeout"
  define call where "call = (\<lambda>p. uc_AddPortMapping (up_c u) ctx (req p))"
  define ep where "ep = (case up_ports u key of Some p \<Rightarrow> p | None \<Rightarrow> 0)"
  obtain renewed ps d1 where ren: "upnp_renew call ep d = (renewed, ps, d1)"
    by (cases "upnp_renew call ep d") auto
  obtain granted err tried d2 where
    t: "try_ports 3 call (\<lambda>i. word_of_int (randomPort (rand i))) 0 None d1 = (granted, err, tried, d2)"
    by (metis prod_cases4)
  have ps: "ps = (if 0 < ep then [ep] else [])" "0 < ep \<Longrightarrow> up_ports u key = Some ep"
    using ren by (auto simp: upnp_renew_def ep_def split: if_splits prod.splits option.splits)
  have first: "ps = [p]" if "up_ports u (upnp_key proto internalPort) = Some p" "0 < p" for p
    using that ps(1) by (simp add: ep_def key_def)
  have cands: "upnp_ports_tried rand (up_ports u (upnp_key proto internalPort)) =
      ps @ map (\<lambda>i. word_of_int (randomPort (rand i))) [0..<0 + 3]"
    by (simp add: upnp_ports_tried_def ps(1) ep_def key_def numeral_3_eq_3 numeral_2_eq_2 word_greater_zero_iff
        split: option.split)
  have eq: "upnp_AddPortMapping dial rand ctx protocol internalPort description timeout u d =
      (if renewed then (Inr (uint ep), map req ps, u, d1)
       else case granted of
              Some p \<Rightarrow> (Inr (uint p), map req (ps @ tried), u\<lparr>up_ports := (up_ports u)(key \<mapsto> p)\<rparr>, d2)
            | None \<Rightarrow> ((case err of Some e \<Rightarrow> Inl e | None \<Rightarrow> Inr 0), map req (ps @ tried), u, d2))"
    using ren t unfolding call_def req_def key_def ep_def
    by (cases renewed) (simp_all add: upnp_AddPortMapping_def pi Let_def)
  show ?thesis
  proof (cases renewed)
    case True
    with ren have "0 < ep" "call ep d = (None, d1)"
      by (auto simp: upnp_renew_def split: if_splits prod.splits)
    moreover have "r = Inr (uint ep)" "reqs = map req ps" "u' = u" "d' = d1"
      using True assms by (simp_all add: eq)
    moreover have "prefix ps (upnp_ports_tried rand (up_ports u (upnp_key proto internalPort)))"
      by (simp add: cands)
    ultimately show ?thesis using ps pi
      by (intro Asked [of proto ip ps "Some ep" None])
        (auto simp: req_def key_def call_def fun_upd_idem intro: requests.Granted)
  next
    case False
    from try_ports_result [OF t] have tr: "requests call d1 tried granted err d2" "tried \<noteq> []"
      "set tried \<subseteq> range (\<lambda>i. word_of_int (randomPort (rand i)))" by auto
    have all: "requests call d (ps @ tried) granted err d2"
    proof (cases "0 < ep")
      case True
      with False ren obtain e where "call ep d = (Some e, d1)"
        by (auto simp: upnp_renew_def split: prod.splits)
      with tr(1,2) True ps(1) show ?thesis by (auto intro: requests.Refused)
    qed (use ren tr(1) in \<open>simp add: upnp_renew_def\<close>)
    have rng: "0 < p \<and> 10000 \<le> uint p \<and> uint p \<le> 65534" if "p \<in> set tried" for p
    proof -
      from that tr(3) obtain i where "p = word_of_int (randomPort (rand i))" by blast
      from randomPort_word [OF this] randomPort_range [of "rand i"] show ?thesis by simp
    qed
    have err: "granted = None \<Longrightarrow> err \<noteq> None" using requests_None [OF tr(1) _ tr(2)] by simp
    have "reqs = map req (ps @ tried)" and "case granted of
        Some p \<Rightarrow> r = Inr (uint p) \<and> u' = u\<lparr>up_ports := (up_ports u)(key \<mapsto> p)\<rparr>
      | None \<Rightarrow> (\<exists>e. err = Some e \<and> r = Inl e) \<and> u' = u" and d': "d' = d2"
      using False assms err by (auto simp: eq split: option.splits)
    note out = this(1,2) [unfolded req_def key_def]
    note asked = Asked [OF pi out(1) all [folded d', unfolded call_def req_def key_def]]
    show ?thesis
    proof (rule asked)
      show "ps @ tried \<noteq> []" using tr(2) by simp
      show "length (ps @ tried) \<le> 4" using try_ports_length [OF t] by (simp add: ps(1))
      show "\<forall>p \<in> set (ps @ tried). 0 < p \<and> (up_ports u (upnp_key proto internalPort) = Some p \<or>
          10000 \<le> uint p \<and> uint p \<le> 65534)"
        using rng ps by (auto simp: key_def split: if_splits)
      show "\<forall>p. up_ports u (upnp_key proto internalPort) = Some p \<longrightarrow> 0 < p \<longrightarrow> hd (ps @ tried) = p"
        using first by auto
      show "case granted of
          Some p \<Rightarrow> r = Inr (uint p) \<and> u' = u\<lparr>up_ports := (up_ports u)(upnp_key proto internalPort \<mapsto> p)\<rparr>
        | None \<Rightarrow> (\<exists>e. err = Some e \<and> r = Inl e) \<and> u' = u" by (rule out(2))
      show "prefix (ps @ tried) (upnp_ports_tried rand (up_ports u (upnp_key proto internalPort)))"
        "granted = None \<longrightarrow> ps @ tried = upnp_ports_tried rand (up_ports u (upnp_key proto internalPort))"
        unfolding cands using try_ports_order [OF t] by simp_all
    qed
  qed
qed

lemma upnp_Add_frame:
  assumes "upnp_AddPortMapping dial rand ctx protocol internalPort description timeout u d = (r, reqs, u', d')"
  shows "up_c u' = up_c u" "up_typ u' = up_typ u" "up_URLBase u' = up_URLBase u"
    and "r = Inl e \<Longrightarrow> u' = u"
  by (rule upnp_Add_cases [OF assms]; auto split: option.splits)+

lemma upnp_Delete_cases:
  assumes "upnp_DeletePortMapping ctx protocol internalPort u d = (err, u', d')"
  obtains (Rejected) e where "mapProtocol protocol = Inl e" "err = Some e" "u' = u" "d' = d"
  | (Unknown) proto where "mapProtocol protocol = Inr proto" "up_ports u (upnp_key proto internalPort) = None"
    "err = None" "u' = u" "d' = d"
  | (Asked) proto p where "mapProtocol protocol = Inr proto" "up_ports u (upnp_key proto internalPort) = Some p"
    "uc_DeletePortMapping (up_c u) ctx [] p proto d = (err, d')"
    "u' = (if err = None then u\<lparr>up_ports := (up_ports u)(upnp_key proto internalPort := None)\<rparr> else u)"
proof (cases "mapProtocol protocol")
  case (Inl e)
  with assms show ?thesis by (intro Rejected [of e]) (simp_all add: upnp_DeletePortMapping_def)
next
  case (Inr proto)
  show ?thesis
  proof (cases "up_ports u (upnp_key proto internalPort)")
    case None
    with assms Inr show ?thesis by (intro Unknown [of proto]) (simp_all add: upnp_DeletePortMapping_def Let_def)
  next
    case (Some p)
    obtain e d1 where "uc_DeletePortMapping (up_c u) ctx [] p proto d = (e, d1)" by fastforce
    with assms Inr Some show ?thesis
      by (intro Asked [of proto p]; cases e) (auto simp: upnp_DeletePortMapping_def Let_def)
  qed
qed

lemma mapProtocol_Inr: "mapProtocol s = Inr proto \<Longrightarrow> proto \<in> {''UDP'', ''TCP''}"
  by (auto simp: mapProtocol_def split: if_splits)

section \<open>As a provider of mappings\<close>

text \<open>The outside of one call, and its state when the call is made.\<close>

record 'd upnp_env =
  ue_dial :: "ctx \<Rightarrow> string \<Rightarrow> net_ip option or_err"
  ue_rand :: "nat \<Rightarrow> nat"
  ue_ctx :: ctx
  ue_description :: string
  ue_state :: 'd

definition upnp_add ::
  "'d upnp_env \<Rightarrow> string \<Rightarrow> int \<Rightarrow> duration \<Rightarrow> 'd upnp_NAT \<Rightarrow> (go_err option \<times> 'd upnp_NAT) option" where
  "upnp_add x protocol port timeout u =
     (let (r, reqs, u', d') =
            upnp_AddPortMapping (ue_dial x) (ue_rand x) (ue_ctx x) protocol port (ue_description x) timeout u (ue_state x)
      in Some (err_of r, u'))"

definition upnp_del ::
  "'d upnp_env \<Rightarrow> string \<Rightarrow> int \<Rightarrow> 'd upnp_NAT \<Rightarrow> (go_err option \<times> 'd upnp_NAT) option" where
  "upnp_del x protocol port u =
     (let (err, u', d') = upnp_DeletePortMapping (ue_ctx x) protocol port u (ue_state x) in Some (err, u'))"

definition upnp_tracked :: "string \<Rightarrow> int \<Rightarrow> 'd upnp_NAT \<Rightarrow> bool" where
  "upnp_tracked protocol port u \<longleftrightarrow>
     (case mapProtocol protocol of
        Inl _ \<Rightarrow> False
      | Inr proto \<Rightarrow> up_ports u (upnp_key proto port) \<noteq> None)"

definition upnp_same :: "string \<Rightarrow> int \<Rightarrow> string \<Rightarrow> int \<Rightarrow> bool" where
  "upnp_same p q p' q' \<longleftrightarrow>
     mapProtocol p = mapProtocol p' \<and> (word_of_int q :: 16 word) = word_of_int q'"

lemma upnp_key_eq_iff [simp]:
  "upnp_key p q = upnp_key p' q' \<longleftrightarrow> p = p' \<and> (word_of_int q :: 16 word) = word_of_int q'"
  by (simp add: upnp_key_def)

lemma upnp_addD:
  assumes "upnp_add x protocol port timeout u = Some (e, u')"
  obtains r reqs d' where
    "upnp_AddPortMapping (ue_dial x) (ue_rand x) (ue_ctx x) protocol port (ue_description x) timeout u (ue_state x) = (r, reqs, u', d')"
    "e = err_of r"
  using assms by (auto simp: upnp_add_def split: prod.splits)

lemma upnp_delD:
  assumes "upnp_del x protocol port u = Some (e, u')"
  obtains d' where "upnp_DeletePortMapping (ue_ctx x) protocol port u (ue_state x) = (e, u', d')"
  using assms by (auto simp: upnp_del_def split: prod.splits)

interpretation upnp: mapping_service upnp_add upnp_del upnp_tracked upnp_same
proof
  fix x :: "'d upnp_env" and proto port lt u u'
  assume "upnp_add x proto port lt u = Some (None, u')"
  then obtain r reqs d' where
    a: "upnp_AddPortMapping (ue_dial x) (ue_rand x) (ue_ctx x) proto port (ue_description x) lt u (ue_state x) = (r, reqs, u', d')"
    "err_of r = None"
    by (elim upnp_addD) simp
  from a(1) show "upnp_tracked proto port u'"
    by (rule upnp_Add_cases) (use a(2) in \<open>auto simp: upnp_tracked_def split: option.splits\<close>)
next
  fix x :: "'d upnp_env" and proto port lt u r u' p q
  assume "upnp_add x proto port lt u = Some (r, u')" and t: "upnp_tracked p q u"
  then obtain r' reqs d' where
    a: "upnp_AddPortMapping (ue_dial x) (ue_rand x) (ue_ctx x) proto port (ue_description x) lt u (ue_state x) = (r', reqs, u', d')"
    by (elim upnp_addD) simp
  show "upnp_tracked p q u'"
    by (rule upnp_Add_cases [OF a])
      (use t in \<open>auto simp: upnp_tracked_def split: option.splits sum.splits\<close>)
next
  fix x :: "'d upnp_env" and proto port u u'
  assume "upnp_del x proto port u = Some (None, u')"
  then obtain d' where d: "upnp_DeletePortMapping (ue_ctx x) proto port u (ue_state x) = (None, u', d')"
    by (rule upnp_delD)
  show "\<not> upnp_tracked proto port u'"
    by (rule upnp_Delete_cases [OF d]) (auto simp: upnp_tracked_def)
next
  fix x :: "'d upnp_env" and proto port u e u' p q
  assume "upnp_del x proto port u = Some (Some e, u')"
  then obtain d' where d: "upnp_DeletePortMapping (ue_ctx x) proto port u (ue_state x) = (Some e, u', d')"
    by (rule upnp_delD)
  show "upnp_tracked p q u' \<longleftrightarrow> upnp_tracked p q u"
    by (rule upnp_Delete_cases [OF d]) auto
next
  fix x :: "'d upnp_env" and proto port u u' p q and r :: "go_err option"
  assume "upnp_del x proto port u = Some (r, u')" and o: "\<not> upnp_same p q proto port"
  then obtain d' where d: "upnp_DeletePortMapping (ue_ctx x) proto port u (ue_state x) = (r, u', d')"
    by (elim upnp_delD)
  show "upnp_tracked p q u' \<longleftrightarrow> upnp_tracked p q u"
    by (rule upnp_Delete_cases [OF d])
      (use o in \<open>auto simp: upnp_tracked_def upnp_same_def split: sum.split\<close>)
qed

section \<open>The gateway's table against the cache\<close>

text \<open>
  What the code relies on, for the set \<open>mine d\<close> of mappings (external port and protocol) that the device
  holds for this host: an \<open>AddPortMapping\<close> makes no other mapping than the one it asks for, a granted
  \<open>DeletePortMapping\<close> removes the one it names, and neither does anything else to the table but lose
  mappings. An error says nothing: the answer of a request that the device carried out may be lost, so
  that an add or a delete with an error may have been done.
\<close>

definition igd_contract :: "'d upnp_client \<Rightarrow> ('d \<Rightarrow> (16 word \<times> string) set) \<Rightarrow> bool" where
  "igd_contract c mine \<longleftrightarrow>
     (\<forall>ctx r d e d'. uc_AddPortMapping c ctx r d = (e, d') \<longrightarrow>
        mine d' \<subseteq> insert (ar_ExternalPort r, ar_Protocol r) (mine d)) \<and>
     (\<forall>ctx h p proto d d'. uc_DeletePortMapping c ctx h p proto d = (None, d') \<longrightarrow> mine d' \<subseteq> mine d - {(p, proto)}) \<and>
     (\<forall>ctx h p proto d e d'. uc_DeletePortMapping c ctx h p proto d = (Some e, d') \<longrightarrow> mine d' \<subseteq> mine d)"

text \<open>The cache holds only what the device can have been asked for.\<close>

definition upnp_wf :: "'d upnp_NAT \<Rightarrow> bool" where
  "upnp_wf u \<longleftrightarrow> (\<forall>k p. up_ports u k = Some p \<longrightarrow> uk_protocol k \<in> {''UDP'', ''TCP''} \<and> 0 < p)"

lemma upnp_Add_wf:
  assumes "upnp_AddPortMapping dial rand ctx protocol internalPort description timeout u d = (r, reqs, u', d')"
    and "upnp_wf u"
  shows "upnp_wf u'"
proof (rule upnp_Add_cases [OF assms(1)])
  fix proto ip ps granted err
  assume a: "mapProtocol protocol = Inr proto"
    "requests (\<lambda>p. uc_AddPortMapping (up_c u) ctx
       (upnp_request proto (upnp_key proto internalPort) ip description timeout p)) d ps granted err d'"
    "\<forall>p \<in> set ps. 0 < p \<and> (up_ports u (upnp_key proto internalPort) = Some p \<or> 10000 \<le> uint p \<and> uint p \<le> 65534)"
    "case granted of
       Some p \<Rightarrow> r = Inr (uint p) \<and> u' = u\<lparr>up_ports := (up_ports u)(upnp_key proto internalPort \<mapsto> p)\<rparr>
     | None \<Rightarrow> (\<exists>e. err = Some e \<and> r = Inl e) \<and> u' = u"
  show "upnp_wf u'"
  proof (cases granted)
    case (Some p)
    from requests_Some [OF a(2) Some] a(3) have "0 < p" by (metis last_in_set)
    with Some a(4) assms(2) mapProtocol_Inr [OF a(1)] show ?thesis
      by (auto simp: upnp_wf_def upnp_key_def)
  qed (use a(4) assms(2) in simp)
qed (use assms(2) in simp)

lemma upnp_Delete_wf:
  assumes "upnp_DeletePortMapping ctx protocol internalPort u d = (err, u', d')" and "upnp_wf u"
  shows "upnp_wf u'"
  by (rule upnp_Delete_cases [OF assms(1)]) (use assms(2) in \<open>auto simp: upnp_wf_def\<close>)

lemma igd_Add_requests:
  assumes "requests (\<lambda>p. uc_AddPortMapping c ctx (upnp_request proto key ip description timeout p)) d ps granted err d'"
    and "igd_contract c mine"
  shows "mine d' \<subseteq> mine d \<union> (\<lambda>p. (p, proto)) ` set ps"
  using assms(1)
proof (induction rule: requests.induct)
  case (Granted p d d')
  with assms(2) show ?case by (fastforce simp: igd_contract_def upnp_request_def)
next
  case (Refused p d e d1 ps r err d')
  from Refused.hyps(1) assms(2) have "mine d1 \<subseteq> insert (p, proto) (mine d)"
    by (fastforce simp: igd_contract_def upnp_request_def)
  with Refused.IH show ?case by auto
qed simp

lemma upnp_Delete_frame:
  assumes "upnp_DeletePortMapping ctx protocol internalPort u d = (err, u', d')"
  shows "up_c u' = up_c u"
  by (rule upnp_Delete_cases [OF assms]) auto

section \<open>Properties\<close>

text \<open>
  A device that keeps a table and follows a script of refusals, and a home network that reaches it
  from 192.168.1.7.
\<close>

definition table_igd :: "((16 word \<times> string) list \<times> bool list) upnp_client" where
  "table_igd =
     \<lparr>uc_GetExternalIPAddress = (\<lambda>_ d. (Inr ''203.0.113.1'', d)),
      uc_AddPortMapping = (\<lambda>_ r (t, refuse).
        case refuse of
          True # refuse \<Rightarrow> (Some (ExtErr ''busy''), (t, refuse))
        | _ \<Rightarrow> (None, (List.insert (ar_ExternalPort r, ar_Protocol r) t, tl refuse))),
      uc_DeletePortMapping = (\<lambda>_ _ p proto (t, refuse).
        case refuse of
          True # refuse \<Rightarrow> (Some (ExtErr ''busy''), (t, refuse))
        | _ \<Rightarrow> (None, (removeAll (p, proto) t, tl refuse))),
      uc_GetNATRSIPStatus = (\<lambda>_ d. (Inr (False, True), d))\<rparr>"

definition home_base :: url where
  "home_base = zero_url\<lparr>u_Scheme := ''http'', u_Host := ''192.168.1.1:5000'', u_Path := ''/''\<rparr>"

definition home_dial :: "ctx \<Rightarrow> string \<Rightarrow> net_ip option or_err" where
  "home_dial ctx host =
     (if host = ''192.168.1.1:5000'' then Inr (Some [192, 168, 1, 7]) else Inl (ExtErr ''no route to host''))"

abbreviation home_upnp :: "((16 word \<times> string) list \<times> bool list) upnp_NAT" where
  "home_upnp \<equiv> newUPNPNAT table_igd ''UPnP unicast (IP1)'' home_base"

lemma table_igd_contract: "igd_contract table_igd (\<lambda>d. set (fst d))"
  by (auto simp: igd_contract_def table_igd_def split: list.splits bool.splits)

lemma home_base_host: "deviceHostPort home_base = Inr ''192.168.1.1:5000''"
  by (simp add: deviceHostPort_def home_base_def zero_url_def Hostname_def url_Port_def splitHostPort_def
      strip_brackets_def is_digit_def JoinHostPort_def Let_def)

lemma home_internal:
  "up_URLBase u = home_base \<Longrightarrow> upnp_internalAddress home_dial ctx u = Inr [192, 168, 1, 7]"
  by (simp add: upnp_internalAddress_def home_base_host home_dial_def)

lemma mapProtocol_simps [simp]: "mapProtocol ''udp'' = Inr ''UDP''" "mapProtocol ''tcp'' = Inr ''TCP''"
  by (simp_all add: mapProtocol_def)

lemma randomPort_small: "r < 55535 \<Longrightarrow> randomPort r = int r + 10000"
  by (simp add: randomPort_def Intn_def)

lemmas upnp_run_simps =
  upnp_AddPortMapping_def upnp_DeletePortMapping_def upnp_renew_def newUPNPNAT_def home_internal
  table_igd_def upnp_request_def upnp_key_def randomPort_small numeral_3_eq_3 Let_def

text \<open>A first add, the second add of the same port when the renewal is refused, and a delete.\<close>

lemma home_add:
  "upnp_AddPortMapping home_dial (\<lambda>i. i) Caller ''udp'' 51820 ''wg'' (3600 * second) home_upnp ([], []) =
     (Inr 10000, [upnp_request ''UDP'' (upnp_key ''UDP'' 51820) [192, 168, 1, 7] ''wg'' (3600 * second) 10000],
      home_upnp\<lparr>up_ports := [upnp_key ''UDP'' 51820 \<mapsto> 10000]\<rparr>, ([(10000, ''UDP'')], []))"
  by (simp add: upnp_run_simps)

lemma home_add_again:
  "upnp_AddPortMapping home_dial (\<lambda>i. i + 7) Caller ''udp'' 51820 ''wg'' (3600 * second)
     (home_upnp\<lparr>up_ports := [upnp_key ''UDP'' 51820 \<mapsto> 10000]\<rparr>) ([(10000, ''UDP'')], [True]) =
     (Inr 10007,
      [upnp_request ''UDP'' (upnp_key ''UDP'' 51820) [192, 168, 1, 7] ''wg'' (3600 * second) 10000,
       upnp_request ''UDP'' (upnp_key ''UDP'' 51820) [192, 168, 1, 7] ''wg'' (3600 * second) 10007],
      home_upnp\<lparr>up_ports := [upnp_key ''UDP'' 51820 \<mapsto> 10007]\<rparr>, ([(10007, ''UDP''), (10000, ''UDP'')], []))"
  by (simp add: upnp_run_simps)

lemma home_delete:
  "upnp_DeletePortMapping Caller ''udp'' 51820
     (home_upnp\<lparr>up_ports := [upnp_key ''UDP'' 51820 \<mapsto> 10007]\<rparr>) ([(10007, ''UDP''), (10000, ''UDP'')], []) =
     (None, home_upnp, ([(10000, ''UDP'')], []))"
  by (simp add: upnp_run_simps)

text \<open>
  When the renewal of a mapping is refused and another port is granted, the gateway object forgets
  the first port: if no other entry has it, no later delete can name it, although the device may still
  hold the mapping.
\<close>

theorem upnp_refused_renewal_orphans:
  assumes "upnp_AddPortMapping dial rand ctx protocol ip descr timeout u d = (Inr q, reqs, u', d')"
    and "mapProtocol protocol = Inr proto" and "up_ports u (upnp_key proto ip) = Some p" and "q \<noteq> uint p"
    and "\<And>k. uk_protocol k = proto \<Longrightarrow> up_ports u k = Some p \<Longrightarrow> k = upnp_key proto ip"
  shows "uk_protocol k = proto \<Longrightarrow> up_ports u' k \<noteq> Some p"
  by (rule upnp_Add_cases [OF assms(1)])
    (use assms(2,3,4,5) in \<open>auto split: option.splits\<close>)

theorem upnp_refused_renewal_orphans_witness:
  "up_ports (home_upnp\<lparr>up_ports := [upnp_key ''UDP'' 51820 \<mapsto> 10007]\<rparr>) (upnp_key ''UDP'' 51820) \<noteq> Some 10000 \<and>
   upnp_DeletePortMapping Caller ''udp'' 51820
     (home_upnp\<lparr>up_ports := [upnp_key ''UDP'' 51820 \<mapsto> 10007]\<rparr>) ([(10007, ''UDP''), (10000, ''UDP'')], []) =
     (None, home_upnp, ([(10000, ''UDP'')], []))"
proof (rule conjI [OF upnp_refused_renewal_orphans [OF home_add_again, where proto = "''UDP''"] home_delete])
  show "k = upnp_key ''UDP'' 51820"
    if "up_ports (home_upnp\<lparr>up_ports := [upnp_key ''UDP'' 51820 \<mapsto> 10000]\<rparr>) k = Some 10000" for k
    using that by (auto split: if_splits)
qed (simp_all add: upnp_key_def)

text \<open>
  The same without a refusal: when the device makes the first mapping of an add but its answer is lost,
  the add goes on to another port, and the first mapping is one that no call on the gateway object names.
\<close>

definition lossy_igd :: "((16 word \<times> string) list \<times> bool list) upnp_client" where
  "lossy_igd = table_igd\<lparr>uc_AddPortMapping := (\<lambda>_ r (t, lose).
     (if lose \<noteq> [] \<and> hd lose then Some (ExtErr ''timeout'') else None,
      (List.insert (ar_ExternalPort r, ar_Protocol r) t, tl lose)))\<rparr>"

lemma lossy_igd_contract: "igd_contract lossy_igd (\<lambda>d. set (fst d))"
  using table_igd_contract by (auto simp: igd_contract_def lossy_igd_def)

theorem upnp_lost_answer_orphans:
  "\<exists>u. upnp_AddPortMapping home_dial (\<lambda>i. i) Caller ''udp'' 51820 ''wg'' (3600 * second)
        (newUPNPNAT lossy_igd ''UPnP unicast (IP1)'' home_base) ([], [True]) =
       (Inr 10001,
        [upnp_request ''UDP'' (upnp_key ''UDP'' 51820) [192, 168, 1, 7] ''wg'' (3600 * second) 10000,
         upnp_request ''UDP'' (upnp_key ''UDP'' 51820) [192, 168, 1, 7] ''wg'' (3600 * second) 10001],
        u, ([(10001, ''UDP''), (10000, ''UDP'')], [])) \<and>
     up_ports u = [upnp_key ''UDP'' 51820 \<mapsto> 10001] \<and>
     (\<exists>u'. upnp_DeletePortMapping Caller ''udp'' 51820 u ([(10001, ''UDP''), (10000, ''UDP'')], []) =
       (None, u', ([(10000, ''UDP'')], [])) \<and> up_ports u' = Map.empty)"
  by (simp add: upnp_run_simps lossy_igd_def)

text \<open>
  A mapping made through a UPnP gateway stays deletable: after a successful add, and whatever adds
  and deletes of other mappings follow, failing or not, a delete of that mapping asks the device to
  remove the cached external port under the protocol of the mapping. UDP and TCP mappings of one
  internal port are different mappings, and a failed delete does not count.
\<close>

theorem upnp_mapping_stays_deletable:
  assumes "upnp_add x protocol ip lifetime u = Some (None, u1)" and "0 < lifetime"
    and "run_ops upnp_add upnp_del ops u1 = Some (es, u2)"
    and "\<forall>oe \<in> set (zip ops es). \<not> may_end upnp_same protocol ip oe"
  shows "\<exists>proto p. mapProtocol protocol = Inr proto \<and> up_ports u2 (upnp_key proto ip) = Some p \<and>
     fst (upnp_DeletePortMapping ctx protocol ip u2 d) = fst (uc_DeletePortMapping (up_c u2) ctx [] p proto d)"
proof -
  from upnp.added_stays_tracked [OF assms] obtain proto p where
    t: "mapProtocol protocol = Inr proto" "up_ports u2 (upnp_key proto ip) = Some p"
    by (auto simp: upnp_tracked_def split: sum.splits)
  obtain e d' where "uc_DeletePortMapping (up_c u2) ctx [] p proto d = (e, d')" by fastforce
  with t show ?thesis by (cases e) (simp_all add: upnp_DeletePortMapping_def Let_def)
qed

theorem upnp_mapping_stays_deletable_witness:
  "\<exists>proto p. mapProtocol ''udp'' = Inr proto \<and>
     up_ports (home_upnp\<lparr>up_ports := [upnp_key ''UDP'' 51820 \<mapsto> 10000]\<rparr>) (upnp_key proto 51820) = Some p"
proof -
  let ?x = "\<lparr>ue_dial = home_dial, ue_rand = (\<lambda>i. i), ue_ctx = Caller, ue_description = [], ue_state = ([], [])\<rparr>"
  let ?u = "home_upnp\<lparr>up_ports := [upnp_key ''UDP'' 51820 \<mapsto> 10000]\<rparr>"
  let ?busy = "\<lparr>ue_dial = home_dial, ue_rand = (\<lambda>i. i), ue_ctx = Caller, ue_description = [], ue_state = ([(10000, ''UDP'')], [True])\<rparr>"
  have add: "upnp_add ?x ''udp'' 51820 (3600 * second) home_upnp = Some (None, ?u)"
    by (simp add: upnp_add_def upnp_run_simps)
  have run: "run_ops upnp_add upnp_del
      [OpDelete ?x ''tcp'' 51820, OpDelete ?busy ''udp'' 51820] ?u = Some ([None, Some (ExtErr ''busy'')], ?u)"
    by (simp add: upnp_del_def upnp_run_simps)
  have live: "\<forall>oe \<in> set (zip [OpDelete ?x ''tcp'' 51820, OpDelete ?busy ''udp'' 51820] [None, Some (ExtErr ''busy'')]).
      \<not> may_end upnp_same ''udp'' 51820 oe"
    by (simp add: upnp_same_def)
  from upnp_mapping_stays_deletable [OF add _ run live, where ctx = Caller and d = "([], [])"] show ?thesis
    by (auto simp: second_def)
qed

text \<open>
  C27. What a UPnP add does on every branch. An unknown protocol or an unknown own address is reported,
  and no request is made. Otherwise the device is asked for the cached external port if there is one, then
  for three random ports from 10000 to 65534, in this order, each as long as the one before was refused:
  the first port that is granted ends the call, and is returned and cached; when all are refused the error
  of the last request is returned and the cache is as it was. Every request asks for the caller's port and
  its lifetime in whole seconds, as long as they fit the fields of the protocol, on behalf of the host's
  own address, in a text that reads back as this address, be it IPv4 or IPv6.
\<close>

theorem upnp_add_outcome:
  assumes "0 \<le> internalPort" "internalPort < 65536" and "0 \<le> timeout" "timeout < 2 ^ 32 * second"
    and "upnp_AddPortMapping dial rand ctx protocol internalPort description timeout u d = (r, reqs, u', d')"
  shows "case mapProtocol protocol of
      Inl e \<Rightarrow> protocol \<notin> {''udp'', ''tcp''} \<and> r = Inl e \<and> reqs = [] \<and> u' = u \<and> d' = d
    | Inr proto \<Rightarrow>
    (case upnp_internalAddress dial ctx u of
      Inl e \<Rightarrow> r = Inl (Errorf ''get internal address: %w'' [AErr e]) \<and> reqs = [] \<and> u' = u \<and> d' = d
    | Inr ip \<Rightarrow>
       (let key = \<lparr>uk_protocol = proto, uk_port = word_of_int internalPort\<rparr>;
            request = (\<lambda>p. \<lparr>ar_RemoteHost = [], ar_ExternalPort = p, ar_Protocol = proto,
              ar_InternalPort = word_of_int internalPort, ar_InternalClient = ip_String ip, ar_Enabled = True,
              ar_Description = description, ar_LeaseDuration = word_of_int (timeout div second)\<rparr>);
            ports = (case up_ports u key of Some p \<Rightarrow> if 0 < p then [p] else [] | None \<Rightarrow> []) @
              map (\<lambda>i. word_of_int (10000 + int (rand i mod 55535))) [0, 1, 2]
        in \<exists>ps granted err.
             requests (\<lambda>p. uc_AddPortMapping (up_c u) ctx (request p)) d ps granted err d' \<and>
             prefix ps ports \<and> (granted = None \<longrightarrow> ps = ports) \<and> reqs = map request ps \<and>
             (case granted of
                Some p \<Rightarrow> r = Inr (uint p) \<and> u' = u\<lparr>up_ports := (up_ports u)(key \<mapsto> p)\<rparr>
              | None \<Rightarrow> (\<exists>e. err = Some e \<and> r = Inl e) \<and> u' = u)) \<and>
       uint (word_of_int internalPort :: 16 word) = internalPort \<and>
       uint (word_of_int (timeout div second) :: 32 word) = timeout div second \<and>
       (length ip = 4 \<or> length ip = 16 \<longrightarrow> ip_Equal (ParseIP (ip_String ip)) ip))"
proof -
  have secs: "timeout sdiv second = timeout div second"
    using assms(3) by (simp add: signed_divide_int_def second_def sgn_if)
  have lease: "uint (word_of_int (timeout div second) :: 32 word) = timeout div second"
  proof -
    have "0 \<le> timeout div second" "timeout div second < 2 ^ 32"
      using assms(3,4) by (simp_all add: second_def div_less_iff_less_mult)
    then show ?thesis by (simp add: unsigned_of_int take_bit_int_eq_self)
  qed
  have port: "uint (word_of_int internalPort :: 16 word) = internalPort"
    using assms(1,2) by (simp add: unsigned_of_int take_bit_int_eq_self)
  have draw: "(word_of_int (randomPort n) :: 16 word) = word_of_int (10000 + int (n mod 55535))" for n
    by (simp add: randomPort_def Intn_def add.commute)
  show ?thesis
  proof (cases "\<exists>proto ip. mapProtocol protocol = Inr proto \<and> upnp_internalAddress dial ctx u = Inr ip")
    case False
    with assms(5) show ?thesis
      by (auto simp: upnp_AddPortMapping_def mapProtocol_def split: sum.splits if_splits)
  next
    case True
    with assms(5) show ?thesis
    proof (elim upnp_Add_cases)
      fix proto ip ps granted err
      assume c: "mapProtocol protocol = Inr proto" "upnp_internalAddress dial ctx u = Inr ip"
        "reqs = map (upnp_request proto (upnp_key proto internalPort) ip description timeout) ps"
        "requests (\<lambda>p. uc_AddPortMapping (up_c u) ctx
           (upnp_request proto (upnp_key proto internalPort) ip description timeout p)) d ps granted err d'"
        "case granted of
           Some p \<Rightarrow> r = Inr (uint p) \<and> u' = u\<lparr>up_ports := (up_ports u)(upnp_key proto internalPort \<mapsto> p)\<rparr>
         | None \<Rightarrow> (\<exists>e. err = Some e \<and> r = Inl e) \<and> u' = u"
        "prefix ps (upnp_ports_tried rand (up_ports u (upnp_key proto internalPort)))"
        "granted = None \<longrightarrow> ps = upnp_ports_tried rand (up_ports u (upnp_key proto internalPort))"
      note c = c [unfolded upnp_ports_tried_def draw upnp_request_def secs upnp_key_def upnpMappingKey.simps]
      show ?thesis unfolding c(1,2) sum.case Let_def
        by (intro conjI exI [of _ ps] exI [of _ granted] exI [of _ err])
          (use c lease port in \<open>simp_all add: ip_String_Equal\<close>)
    qed blast
  qed
qed

text \<open>The witness: the renewal of the cached port is refused, the first draw is granted.\<close>

theorem upnp_add_outcome_witness:
  "\<exists>ps granted err. ps = [10000, 10007] \<and> granted = Some 10007 \<and>
     requests (\<lambda>p. uc_AddPortMapping table_igd Caller
       \<lparr>ar_RemoteHost = [], ar_ExternalPort = p, ar_Protocol = ''UDP'', ar_InternalPort = 51820,
        ar_InternalClient = ip_String [192, 168, 1, 7], ar_Enabled = True, ar_Description = ''wg'',
        ar_LeaseDuration = 3600\<rparr>) ([(10000, ''UDP'')], [True]) ps granted err ([(10007, ''UDP''), (10000, ''UDP'')], []) \<and>
     ip_Equal (ParseIP (ip_String [192, 168, 1, 7])) [192, 168, 1, 7]"
proof -
  let ?u = "home_upnp\<lparr>up_ports := [upnp_key ''UDP'' 51820 \<mapsto> 10000]\<rparr>"
  have ip: "upnp_internalAddress home_dial Caller ?u = Inr [192, 168, 1, 7]"
    by (rule home_internal) (simp add: newUPNPNAT_def)
  have bounds: "(0::int) \<le> 51820" "(51820::int) < 65536" "0 \<le> 3600 * second" "3600 * second < 2 ^ 32 * second"
    by (simp_all add: second_def)
  have req: "upnp_request ''UDP'' (upnp_key ''UDP'' 51820) [192, 168, 1, 7] ''wg'' (3600 * second) p =
      \<lparr>ar_RemoteHost = [], ar_ExternalPort = p, ar_Protocol = ''UDP'', ar_InternalPort = 51820,
       ar_InternalClient = ip_String [192, 168, 1, 7], ar_Enabled = True, ar_Description = ''wg'',
       ar_LeaseDuration = 3600\<rparr>" for p
    by (simp add: upnp_request_def upnp_key_def second_def)
  from upnp_add_outcome [OF bounds home_add_again] obtain ps granted err where
    w: "requests (\<lambda>p. uc_AddPortMapping (up_c ?u) Caller
         (upnp_request ''UDP'' (upnp_key ''UDP'' 51820) [192, 168, 1, 7] ''wg'' (3600 * second) p))
         ([(10000, ''UDP'')], [True]) ps granted err ([(10007, ''UDP''), (10000, ''UDP'')], [])"
      "map (upnp_request ''UDP'' (upnp_key ''UDP'' 51820) [192, 168, 1, 7] ''wg'' (3600 * second)) [10000, 10007] =
       map (upnp_request ''UDP'' (upnp_key ''UDP'' 51820) [192, 168, 1, 7] ''wg'' (3600 * second)) ps"
      "case granted of Some p \<Rightarrow> (Inr 10007 :: int or_err) = Inr (uint p) | None \<Rightarrow> False"
    and same: "ip_Equal (ParseIP (ip_String [192, 168, 1, 7])) [192, 168, 1, 7]"
    unfolding req ip mapProtocol_simps sum.case by (auto simp: req Let_def second_def split: option.splits)
  have "ps = [10000, 10007]"
    using w(2) by (auto simp: req map_eq_Cons_conv eq_commute [of "_ # _"])
  moreover have "granted = Some 10007"
    using w(3) by (auto split: option.splits simp: word_uint_eq_iff)
  ultimately show ?thesis using w(1) same by (auto simp: req newUPNPNAT_def)
qed

text \<open>
  C34. The cache is well formed in every state a gateway object can be in: its keys name UDP or TCP and
  its ports are not zero, from the new object on and through every add and delete; so every port an add
  returns is between 1 and 65535.
\<close>

theorem upnp_cache_wf:
  assumes "upnp_wf u"
    and "upnp_AddPortMapping dial rand ctx protocol ip descr timeout u d = (r, reqs, u1, d1)"
    and "upnp_DeletePortMapping ctx' protocol' ip' u d' = (err, u2, d2)"
  shows "upnp_wf (newUPNPNAT c typ base) \<and> upnp_wf u1 \<and> upnp_wf u2 \<and>
    (case r of Inr port \<Rightarrow> 1 \<le> port \<and> port \<le> 65535 | Inl _ \<Rightarrow> True)"
proof -
  have wf: "upnp_wf (newUPNPNAT c typ base)" "upnp_wf u1" "upnp_wf u2"
    using upnp_Add_wf [OF assms(2,1)] upnp_Delete_wf [OF assms(3,1)]
    by (simp_all add: upnp_wf_def newUPNPNAT_def)
  from assms(2) have "case r of Inr port \<Rightarrow> 1 \<le> port \<and> port \<le> 65535 | Inl _ \<Rightarrow> True"
  proof (rule upnp_Add_cases)
    fix proto addr ps granted err
    assume "case granted of
        Some p \<Rightarrow> r = Inr (uint p) \<and> u1 = u\<lparr>up_ports := (up_ports u)(upnp_key proto ip \<mapsto> p)\<rparr>
      | None \<Rightarrow> (\<exists>e. err = Some e \<and> r = Inl e) \<and> u1 = u"
    moreover have "0 < p" if "up_ports u1 (upnp_key proto ip) = Some p" for p
      using that wf(2) by (simp add: upnp_wf_def)
    moreover have "1 \<le> uint p \<and> uint p \<le> 65535" if "0 < p" for p :: "16 word"
      using that unsigned_less [of p, where ?'a = int] by (simp add: word_less_def)
    ultimately show ?thesis by (auto split: option.splits)
  qed simp
  with wf show ?thesis by blast
qed

theorem upnp_cache_wf_witness:
  "upnp_wf (home_upnp\<lparr>up_ports := [upnp_key ''UDP'' 51820 \<mapsto> 10000]\<rparr>)"
proof -
  have "upnp_wf home_upnp" by (simp add: upnp_wf_def newUPNPNAT_def)
  moreover have "upnp_DeletePortMapping Caller ''tcp'' 51820 home_upnp ([], []) = (None, home_upnp, ([], []))"
    by (simp add: upnp_run_simps)
  ultimately show ?thesis using upnp_cache_wf [OF _ home_add] by blast
qed

text \<open>
  C35. The address at which a device is called is its own: \<open>net\<close> reads from it exactly the host of the
  device's base URL and its port, or 80 when the URL has none, also for an IPv6 host, which the address
  brackets. (A host that itself contains a bracket has no address.)
\<close>

theorem device_host_port_roundtrip:
  assumes "Hostname base \<noteq> []" and "CHR ''['' \<notin> set (Hostname base)" and "CHR '']'' \<notin> set (Hostname base)"
  shows "\<exists>a. deviceHostPort base = Inr a \<and>
     SplitHostPort a = Some (Hostname base, if url_Port base = [] then ''80'' else url_Port base) \<and>
     list_all is_digit (if url_Port base = [] then ''80'' else url_Port base)"
proof -
  let ?port = "if url_Port base = [] then ''80'' else url_Port base"
  have digits: "list_all is_digit ?port"
    by (simp add: url_Port_def splitHostPort_port_digits) (simp add: is_digit_def)
  have "deviceHostPort base = Inr (JoinHostPort (Hostname base) ?port)"
    using assms(1) by (simp add: deviceHostPort_def defaultHTTPPort_def Let_def)
  with SplitHostPort_JoinHostPort [OF assms(2,3) digits] digits show ?thesis by blast
qed

theorem device_host_port_roundtrip_witness:
  "\<exists>a. deviceHostPort (zero_url\<lparr>u_Host := ''[fe80::1]''\<rparr>) = Inr a \<and> SplitHostPort a = Some (''fe80::1'', ''80'')"
proof -
  have "Hostname (zero_url\<lparr>u_Host := ''[fe80::1]''\<rparr>) = ''fe80::1''" "url_Port (zero_url\<lparr>u_Host := ''[fe80::1]''\<rparr>) = []"
    by (simp_all add: Hostname_def url_Port_def splitHostPort_def strip_brackets_def zero_url_def is_digit_def)
  with device_host_port_roundtrip [of "zero_url\<lparr>u_Host := ''[fe80::1]''\<rparr>"] show ?thesis by auto
qed

end
