(* ===== verification/Upnp_Conc.thy ===== *)
theory Upnp_Conc
  imports Upnp_NAT
begin

text \<open>
  Goroutines that share a UPnP gateway object (\<open>upnp.go\<close>): \<open>AddPortMapping\<close> and \<open>DeletePortMapping\<close> cut
  at every request to the device and at the lock \<open>mu\<close>, one step per request, with whatever interleaving.
  The calls are shown to be atomic: what the goroutines get, and the object and device they leave, is
  what the same calls give one after the other, in the order in which they returned.
\<close>

section \<open>Calls\<close>

datatype upnp_op =
    AddOp "ctx \<Rightarrow> string \<Rightarrow> net_ip option or_err" "nat \<Rightarrow> nat" ctx string int string duration
  | DeleteOp ctx string int

text \<open>What a call returns; for an add also the ports whose requests got an error.\<close>

datatype upnp_result = Added "int or_err" "16 word list" | Deleted "go_err option"

text \<open>The operations of \<open>Upnp_NAT\<close>, one call at a time.\<close>

fun atomic :: "upnp_op \<Rightarrow> 'd upnp_NAT \<Rightarrow> 'd \<Rightarrow> upnp_result \<times> 'd upnp_NAT \<times> 'd" where
  "atomic (AddOp dial rand ctx protocol internalPort description timeout) u d =
     (let (r, reqs, u', d') = upnp_AddPortMapping dial rand ctx protocol internalPort description timeout u d;
          ports = map ar_ExternalPort reqs;
          refused = (case r of Inl _ \<Rightarrow> ports | Inr _ \<Rightarrow> butlast ports)
      in (Added r refused, u', d'))"
| "atomic (DeleteOp ctx protocol internalPort) u d =
     (let (err, u', d') = upnp_DeletePortMapping ctx protocol internalPort u d in (Deleted err, u', d'))"

text \<open>The checks before the lock: an error they return, or the protocol and address the call goes on with.\<close>

fun checked :: "upnp_op \<Rightarrow> 'd upnp_NAT \<Rightarrow> upnp_result + string \<times> net_ip" where
  "checked (AddOp dial rand ctx protocol internalPort description timeout) u =
     (case mapProtocol protocol of
        Inl err \<Rightarrow> Inl (Added (Inl err) [])
      | Inr proto \<Rightarrow>
     (case upnp_internalAddress dial ctx u of
        Inl err \<Rightarrow> Inl (Added (Inl (Errorf ''get internal address: %w'' [AErr err])) [])
      | Inr ip \<Rightarrow> Inr (proto, ip)))"
| "checked (DeleteOp ctx protocol internalPort) u =
     (case mapProtocol protocol of Inl err \<Rightarrow> Inl (Deleted (Some err)) | Inr proto \<Rightarrow> Inr (proto, []))"

text \<open>The request of an add for an external port, the \<open>i\<close>-th port it draws, and the entry it makes.\<close>

fun op_call :: "upnp_op \<Rightarrow> string \<times> net_ip \<Rightarrow> 'd upnp_NAT \<Rightarrow> 16 word \<Rightarrow> 'd \<Rightarrow> go_err option \<times> 'd" where
  "op_call (AddOp dial rand ctx protocol internalPort description timeout) (proto, ip) u =
     (\<lambda>p. uc_AddPortMapping (up_c u) ctx (upnp_request proto (upnp_key proto internalPort) ip description timeout p))"
| "op_call (DeleteOp ctx protocol internalPort) (proto, ip) u =
     (\<lambda>p. uc_DeletePortMapping (up_c u) ctx [] p proto)"

fun op_draw :: "upnp_op \<Rightarrow> nat \<Rightarrow> 16 word" where
  "op_draw (AddOp dial rand ctx protocol internalPort description timeout) i = word_of_int (randomPort (rand i))"
| "op_draw (DeleteOp ctx protocol internalPort) i = 0"

fun op_key :: "upnp_op \<Rightarrow> string \<times> net_ip \<Rightarrow> upnpMappingKey" where
  "op_key (AddOp dial rand ctx protocol internalPort description timeout) x = upnp_key (fst x) internalPort"
| "op_key (DeleteOp ctx protocol internalPort) x = upnp_key (fst x) internalPort"

fun is_add :: "upnp_op \<Rightarrow> bool" where
  "is_add (AddOp dial rand ctx protocol internalPort description timeout) = True"
| "is_add (DeleteOp ctx protocol internalPort) = False"

section \<open>Goroutines\<close>

text \<open>
  \<open>Entered\<close> and \<open>Trying\<close> hold the lock; \<open>Trying\<close> is in the loop of draws, with the number of draws made,
  the error of the last request, and the ports whose requests got an error so far.
\<close>

datatype upnp_pc =
    Resting
  | Waiting upnp_op
  | Entered upnp_op "string \<times> net_ip"
  | Trying upnp_op "string \<times> net_ip" nat "go_err option" "16 word list"

record 'd upnp_world =
  uw_nat :: "'d upnp_NAT"
  uw_device :: 'd
  uw_mu :: "nat option"
  uw_pc :: "nat \<Rightarrow> upnp_pc"
  uw_log :: "(upnp_op \<times> upnp_result) list"

definition set_port :: "upnpMappingKey \<Rightarrow> 16 word option \<Rightarrow> 'd upnp_NAT \<Rightarrow> 'd upnp_NAT" where
  "set_port key p u = u\<lparr>up_ports := (up_ports u)(key := p)\<rparr>"

text \<open>A call returns, with the lock released if it holds it.\<close>

definition returns :: "nat \<Rightarrow> upnp_op \<Rightarrow> upnp_result \<Rightarrow> 'd upnp_world \<Rightarrow> 'd upnp_world" where
  "returns t op r w =
     w\<lparr>uw_mu := (if uw_mu w = Some t then None else uw_mu w), uw_pc := (uw_pc w)(t := Resting),
       uw_log := uw_log w @ [(op, r)]\<rparr>"

inductive conc_step :: "('d \<Rightarrow> 'd \<Rightarrow> bool) \<Rightarrow> 'd upnp_world \<Rightarrow> 'd upnp_world \<Rightarrow> bool" for elapse where
  Call: "uw_pc w t = Resting \<Longrightarrow> conc_step elapse w (w\<lparr>uw_pc := (uw_pc w)(t := Waiting op)\<rparr>)"
| Reject: "uw_pc w t = Waiting op \<Longrightarrow> checked op (uw_nat w) = Inl r \<Longrightarrow> conc_step elapse w (returns t op r w)"
| Lock: "uw_pc w t = Waiting op \<Longrightarrow> checked op (uw_nat w) = Inr x \<Longrightarrow> uw_mu w = None \<Longrightarrow>
    conc_step elapse w (w\<lparr>uw_mu := Some t, uw_pc := (uw_pc w)(t := Entered op x)\<rparr>)"
| Fresh: "uw_pc w t = Entered op x \<Longrightarrow> is_add op \<Longrightarrow> up_ports (uw_nat w) (op_key op x) \<in> {None, Some 0} \<Longrightarrow>
    conc_step elapse w (w\<lparr>uw_pc := (uw_pc w)(t := Trying op x 0 None [])\<rparr>)"
| Renewed: "uw_pc w t = Entered op x \<Longrightarrow> is_add op \<Longrightarrow> up_ports (uw_nat w) (op_key op x) = Some p \<Longrightarrow> 0 < p \<Longrightarrow>
    op_call op x (uw_nat w) p (uw_device w) = (None, d) \<Longrightarrow>
    conc_step elapse w (returns t op (Added (Inr (uint p)) []) (w\<lparr>uw_device := d\<rparr>))"
| Refused: "uw_pc w t = Entered op x \<Longrightarrow> is_add op \<Longrightarrow> up_ports (uw_nat w) (op_key op x) = Some p \<Longrightarrow> 0 < p \<Longrightarrow>
    op_call op x (uw_nat w) p (uw_device w) = (Some e, d) \<Longrightarrow>
    conc_step elapse w (w\<lparr>uw_device := d, uw_pc := (uw_pc w)(t := Trying op x 0 (Some e) [p])\<rparr>)"
| Granted: "uw_pc w t = Trying op x i err refused \<Longrightarrow> i < 3 \<Longrightarrow>
    op_call op x (uw_nat w) (op_draw op i) (uw_device w) = (None, d) \<Longrightarrow>
    conc_step elapse w (returns t op (Added (Inr (uint (op_draw op i))) refused)
      (w\<lparr>uw_nat := set_port (op_key op x) (Some (op_draw op i)) (uw_nat w), uw_device := d\<rparr>))"
| Again: "uw_pc w t = Trying op x i err refused \<Longrightarrow> i < 3 \<Longrightarrow>
    op_call op x (uw_nat w) (op_draw op i) (uw_device w) = (Some e, d) \<Longrightarrow>
    conc_step elapse w (w\<lparr>uw_device := d, uw_pc := (uw_pc w)(t := Trying op x (Suc i) (Some e) (refused @ [op_draw op i]))\<rparr>)"
| GiveUp: "uw_pc w t = Trying op x 3 (Some e) refused \<Longrightarrow>
    conc_step elapse w (returns t op (Added (Inl e) refused) w)"
| Missing: "uw_pc w t = Entered op x \<Longrightarrow> \<not> is_add op \<Longrightarrow> up_ports (uw_nat w) (op_key op x) = None \<Longrightarrow>
    conc_step elapse w (returns t op (Deleted None) w)"
| Deleting: "uw_pc w t = Entered op x \<Longrightarrow> \<not> is_add op \<Longrightarrow> up_ports (uw_nat w) (op_key op x) = Some p \<Longrightarrow>
    op_call op x (uw_nat w) p (uw_device w) = (err, d) \<Longrightarrow>
    conc_step elapse w (returns t op (Deleted err)
      (w\<lparr>uw_nat := (if err = None then set_port (op_key op x) None (uw_nat w) else uw_nat w), uw_device := d\<rparr>))"
| Elapse: "uw_mu w = None \<Longrightarrow> elapse (uw_device w) d \<Longrightarrow> conc_step elapse w (w\<lparr>uw_device := d\<rparr>)"

inductive_cases conc_stepE: "conc_step elapse w w'"

section \<open>One call at a time\<close>

inductive upnp_seq ::
  "('d \<Rightarrow> 'd \<Rightarrow> bool) \<Rightarrow> 'd upnp_NAT \<times> 'd \<Rightarrow> (upnp_op \<times> upnp_result) list \<Rightarrow> 'd upnp_NAT \<times> 'd \<Rightarrow> bool"
  for elapse s0 where
  None: "upnp_seq elapse s0 [] s0"
| Op: "upnp_seq elapse s0 hist (u, d) \<Longrightarrow> atomic op u d = (r, u', d') \<Longrightarrow> upnp_seq elapse s0 (hist @ [(op, r)]) (u', d')"
| Time: "upnp_seq elapse s0 hist (u, d) \<Longrightarrow> elapse d d' \<Longrightarrow> upnp_seq elapse s0 hist (u, d')"

text \<open>What is left of a call that holds the lock, done at once.\<close>

fun finish :: "upnp_pc \<Rightarrow> 'd upnp_NAT \<Rightarrow> 'd \<Rightarrow> upnp_result \<times> 'd upnp_NAT \<times> 'd" where
  "finish (Trying op x i err refused) u d =
     (let (granted, err, tried, d) = try_ports (3 - i) (op_call op x u) (op_draw op) i err d
      in case granted of
           Some p \<Rightarrow> (Added (Inr (uint p)) (refused @ butlast tried), set_port (op_key op x) (Some p) u, d)
         | None \<Rightarrow> (Added (case err of Some e \<Rightarrow> Inl e | None \<Rightarrow> Inr 0) (refused @ tried), u, d))"
| "finish (Entered op x) u d = atomic op u d"
| "finish _ u d = (Deleted None, u, d)"

fun doing :: "upnp_pc \<Rightarrow> upnp_op option" where
  "doing (Trying op x i err refused) = Some op"
| "doing (Entered op x) = Some op"
| "doing _ = None"

fun pc_fine :: "upnp_pc \<Rightarrow> 'd upnp_NAT \<Rightarrow> bool" where
  "pc_fine (Trying op x i err refused) u \<longleftrightarrow> is_add op \<and> checked op u = Inr x \<and> i \<le> 3 \<and> (0 < i \<longrightarrow> err \<noteq> None)"
| "pc_fine (Entered op x) u \<longleftrightarrow> checked op u = Inr x"
| "pc_fine _ u \<longleftrightarrow> True"

lemma atomic_rejected: "checked op u = Inl r \<Longrightarrow> atomic op u d = (r, u, d)"
  by (cases op) (auto simp: upnp_AddPortMapping_def upnp_DeletePortMapping_def split: sum.splits)

lemma finish_trying:
  assumes "i < 3"
  shows "op_call op x u (op_draw op i) d = (None, d') \<Longrightarrow>
      finish (Trying op x i err refused) u d =
        (Added (Inr (uint (op_draw op i))) refused, set_port (op_key op x) (Some (op_draw op i)) u, d')"
    and "op_call op x u (op_draw op i) d = (Some e, d') \<Longrightarrow>
      finish (Trying op x i err refused) u d = finish (Trying op x (Suc i) (Some e) (refused @ [op_draw op i])) u d'"
proof -
  have k: "3 - i = Suc (3 - Suc i)" using assms by simp
  show "op_call op x u (op_draw op i) d = (None, d') \<Longrightarrow>
      finish (Trying op x i err refused) u d =
        (Added (Inr (uint (op_draw op i))) refused, set_port (op_key op x) (Some (op_draw op i)) u, d')"
    unfolding finish.simps k by (simp add: Let_def)
  assume c: "op_call op x u (op_draw op i) d = (Some e, d')"
  obtain g e2 tried d2 where
    t: "try_ports (3 - Suc i) (op_call op x u) (op_draw op) (Suc i) (Some e) d' = (g, e2, tried, d2)"
    by (metis prod_cases4)
  have "tried \<noteq> []" if "g = Some p" for p using requests_Some [OF conjunct1 [OF try_ports_result [OF t]] that] by simp
  with c t show "finish (Trying op x i err refused) u d =
      finish (Trying op x (Suc i) (Some e) (refused @ [op_draw op i])) u d'"
    unfolding finish.simps k by (simp add: Let_def split: option.split)
qed

lemma upnp_request_port [simp]: "ar_ExternalPort (upnp_request proto key ip description timeout p) = p"
  by (simp add: upnp_request_def)

lemma try_ports_err: "try_ports (Suc k) call port i err d = try_ports (Suc k) call port i err' d"
  by (simp add: Let_def)

lemma atomic_add:
  assumes "is_add op" and "checked op u = Inr x"
  shows "up_ports u (op_key op x) \<in> {None, Some 0} \<Longrightarrow> atomic op u d = finish (Trying op x 0 None []) u d"
    and "up_ports u (op_key op x) = Some p \<Longrightarrow> 0 < p \<Longrightarrow> op_call op x u p d = (None, d') \<Longrightarrow>
      atomic op u d = (Added (Inr (uint p)) [], u, d')"
    and "up_ports u (op_key op x) = Some p \<Longrightarrow> 0 < p \<Longrightarrow> op_call op x u p d = (Some e, d') \<Longrightarrow>
      atomic op u d = finish (Trying op x 0 (Some e) [p]) u d'"
proof -
  from assms obtain dial rand ctx protocol ip descr timeout where
    op: "op = AddOp dial rand ctx protocol ip descr timeout" by (cases op) auto
  from assms(2) obtain proto addr where x: "x = (proto, addr)" "mapProtocol protocol = Inr proto"
    "upnp_internalAddress dial ctx u = Inr addr" by (auto simp: op split: sum.splits)
  define call where "call = op_call op x u"
  define draw where "draw = op_draw op"
  have call: "call = (\<lambda>p. uc_AddPortMapping (up_c u) ctx (upnp_request proto (upnp_key proto ip) addr descr timeout p))"
    and draw: "draw = (\<lambda>i. word_of_int (randomPort (rand i)))"
    by (simp_all add: call_def draw_def op x fun_eq_iff)
  have key: "op_key op x = upnp_key proto ip" by (simp add: op x)
  note defs = upnp_AddPortMapping_def upnp_renew_def x set_port_def Let_def comp_def
  have fin: "finish (Trying op x 0 err r) u d =
      (let (granted, err, tried, d) = try_ports 3 call draw 0 None d
       in case granted of
            Some p \<Rightarrow> (Added (Inr (uint p)) (r @ butlast tried), set_port (op_key op x) (Some p) u, d)
          | None \<Rightarrow> (Added (case err of Some e \<Rightarrow> Inl e | None \<Rightarrow> Inr 0) (r @ tried), u, d))" for err r d
    using try_ports_err [of 2 call draw 0 err d None] by (simp add: call_def draw_def numeral_3_eq_3 numeral_2_eq_2)
  show "atomic op u d = finish (Trying op x 0 None []) u d" if "up_ports u (op_key op x) \<in> {None, Some 0}"
  proof -
    obtain granted err tried d2 where t: "try_ports 3 call draw 0 None d = (granted, err, tried, d2)"
      by (metis prod_cases4)
    have "granted = None \<Longrightarrow> err \<noteq> None"
      using requests_None [OF conjunct1 [OF try_ports_result [OF t]]] try_ports_result [OF t] by simp
    moreover have "(case up_ports u (upnp_key proto ip) of Some p \<Rightarrow> p | None \<Rightarrow> 0) = 0" using that by (auto simp: key)
    ultimately show ?thesis
      unfolding fin using t by (cases granted; cases err) (simp_all add: op defs call [symmetric] draw [symmetric])
  qed
  show "atomic op u d = (Added (Inr (uint p)) [], u, d')"
    if "up_ports u (op_key op x) = Some p" "0 < p" "op_call op x u p d = (None, d')"
    using that by (simp add: op defs)
  show "atomic op u d = finish (Trying op x 0 (Some e) [p]) u d'"
    if "up_ports u (op_key op x) = Some p" "0 < p" "op_call op x u p d = (Some e, d')"
  proof -
    obtain granted err tried d2 where t: "try_ports 3 call draw 0 None d' = (granted, err, tried, d2)"
      by (metis prod_cases4)
    have "granted = None \<Longrightarrow> err \<noteq> None" "tried \<noteq> []"
      using requests_None [OF conjunct1 [OF try_ports_result [OF t]]] try_ports_result [OF t] by simp_all
    moreover have req: "uc_AddPortMapping (up_c u) ctx (upnp_request proto (upnp_key proto ip) addr descr timeout p) d =
        (Some e, d')" using that(3) by (simp add: op x)
    ultimately show ?thesis
      unfolding fin using that(1,2) req t
      by (cases granted; cases err) (simp_all add: op key defs call [symmetric] draw [symmetric])
  qed
qed

lemma atomic_delete:
  assumes "\<not> is_add op" and "checked op u = Inr x"
  shows "up_ports u (op_key op x) = None \<Longrightarrow> atomic op u d = (Deleted None, u, d)"
    and "up_ports u (op_key op x) = Some p \<Longrightarrow> op_call op x u p d = (err, d') \<Longrightarrow>
      atomic op u d = (Deleted err, if err = None then set_port (op_key op x) None u else u, d')"
  using assms
  by (cases op; auto simp: upnp_DeletePortMapping_def set_port_def split: sum.splits option.split)+

section \<open>The invariant\<close>

definition conc_inv :: "('d \<Rightarrow> 'd \<Rightarrow> bool) \<Rightarrow> 'd upnp_NAT \<times> 'd \<Rightarrow> 'd upnp_world \<Rightarrow> bool" where
  "conc_inv elapse s0 w \<longleftrightarrow>
     (\<forall>t. doing (uw_pc w t) \<noteq> None \<longleftrightarrow> uw_mu w = Some t) \<and> (\<forall>t. pc_fine (uw_pc w t) (uw_nat w)) \<and>
     (case uw_mu w of
        None \<Rightarrow> upnp_seq elapse s0 (uw_log w) (uw_nat w, uw_device w)
      | Some t \<Rightarrow> \<exists>d op. upnp_seq elapse s0 (uw_log w) (uw_nat w, d) \<and> doing (uw_pc w t) = Some op \<and>
          finish (uw_pc w t) (uw_nat w) (uw_device w) = atomic op (uw_nat w) d)"

lemma checked_set_port [simp]: "checked op (set_port key p u) = checked op u"
  by (cases op) (auto simp: set_port_def upnp_internalAddress_def split: sum.split)

lemma pc_fine_set_port [simp]: "pc_fine pc (set_port key p u) = pc_fine pc u"
  by (cases pc) simp_all

text \<open>The steps of the call that holds the lock: it goes on, or it returns.\<close>

lemma conc_inv_on:
  assumes "conc_inv elapse s0 w" and "doing (uw_pc w t) = Some op" and "doing p = Some op" and "pc_fine p (uw_nat w)"
    and "finish p (uw_nat w) d = finish (uw_pc w t) (uw_nat w) (uw_device w)"
  shows "conc_inv elapse s0 (w\<lparr>uw_device := d, uw_pc := (uw_pc w)(t := p)\<rparr>)"
proof -
  from assms(1,2) have mu: "uw_mu w = Some t" by (auto simp: conc_inv_def)
  with assms show ?thesis by (auto simp: conc_inv_def)
qed

lemma conc_inv_return:
  assumes inv: "conc_inv elapse s0 w" and pc: "doing (uw_pc w t) = Some op"
    and fin: "finish (uw_pc w t) (uw_nat w) (uw_device w) = (r, u, d)" and "\<And>p. pc_fine p u = pc_fine p (uw_nat w)"
  shows "conc_inv elapse s0 (returns t op r (w\<lparr>uw_nat := u, uw_device := d\<rparr>))"
proof -
  from inv pc have mu: "uw_mu w = Some t" by (auto simp: conc_inv_def)
  with inv pc fin obtain d1 where "upnp_seq elapse s0 (uw_log w) (uw_nat w, d1)" "atomic op (uw_nat w) d1 = (r, u, d)"
    by (auto simp: conc_inv_def)
  then have "upnp_seq elapse s0 (uw_log w @ [(op, r)]) (u, d)" by (rule upnp_seq.Op)
  moreover have "doing (uw_pc w t') = None" if "t' \<noteq> t" for t' using inv mu that by (auto simp: conc_inv_def)
  ultimately show ?thesis using mu inv assms(4) by (auto simp: conc_inv_def returns_def)
qed

lemma conc_inv_step: "conc_step elapse w w' \<Longrightarrow> conc_inv elapse s0 w \<Longrightarrow> conc_inv elapse s0 w'"
proof (induction rule: conc_step.induct)
  case (Call w t op)
  then have "uw_mu w \<noteq> Some t" by (auto simp: conc_inv_def)
  with Call show ?case by (auto simp: conc_inv_def split: option.splits)
next
  case (Reject w t op r)
  then have t: "uw_mu w \<noteq> Some t" by (auto simp: conc_inv_def)
  note rej = upnp_seq.Op [OF _ atomic_rejected [OF Reject.hyps(2)]]
  from Reject t show ?case by (auto simp: conc_inv_def returns_def split: option.splits intro: rej)
next
  case (Lock w t op x)
  then show ?case by (auto simp: conc_inv_def)
next
  case (Fresh w t op x)
  then have fine: "checked op (uw_nat w) = Inr x" by (auto simp: conc_inv_def dest: spec [of _ t])
  have "conc_inv elapse s0 (w\<lparr>uw_device := uw_device w, uw_pc := (uw_pc w)(t := Trying op x 0 None [])\<rparr>)"
    by (rule conc_inv_on [OF Fresh.prems]) (use Fresh.hyps fine atomic_add(1) [OF Fresh.hyps(2) fine] in simp_all)
  then show ?case by simp
next
  case (Renewed w t op x p d)
  then have fine: "checked op (uw_nat w) = Inr x" by (auto simp: conc_inv_def dest: spec [of _ t])
  have "conc_inv elapse s0 (returns t op (Added (Inr (uint p)) []) (w\<lparr>uw_nat := uw_nat w, uw_device := d\<rparr>))"
    by (rule conc_inv_return [OF Renewed.prems])
      (use Renewed.hyps atomic_add(2) [OF Renewed.hyps(2) fine Renewed.hyps(3,4,5)] in simp_all)
  then show ?case by simp
next
  case (Refused w t op x p e d)
  then have fine: "checked op (uw_nat w) = Inr x" by (auto simp: conc_inv_def dest: spec [of _ t])
  show ?case
    by (rule conc_inv_on [OF Refused.prems])
      (use Refused.hyps fine atomic_add(3) [OF Refused.hyps(2) fine Refused.hyps(3,4,5)] in simp_all)
next
  case (Granted w t op x i err refused d)
  show ?case
    by (rule conc_inv_return [OF Granted.prems])
      (use Granted.hyps finish_trying(1) [OF Granted.hyps(2,3)] in simp_all)
next
  case (Again w t op x i err refused e d)
  then have "pc_fine (Trying op x i err refused) (uw_nat w)" by (metis conc_inv_def)
  then show ?case
    by (intro conc_inv_on [OF Again.prems])
      (use Again.hyps finish_trying(2) [OF Again.hyps(2,3)] in simp_all)
next
  case (GiveUp w t op x e refused)
  have "conc_inv elapse s0 (returns t op (Added (Inl e) refused) (w\<lparr>uw_nat := uw_nat w, uw_device := uw_device w\<rparr>))"
    by (rule conc_inv_return [OF GiveUp.prems]) (use GiveUp.hyps in simp_all)
  then show ?case by simp
next
  case (Missing w t op x)
  then have fine: "checked op (uw_nat w) = Inr x" by (auto simp: conc_inv_def dest: spec [of _ t])
  have "conc_inv elapse s0 (returns t op (Deleted None) (w\<lparr>uw_nat := uw_nat w, uw_device := uw_device w\<rparr>))"
    by (rule conc_inv_return [OF Missing.prems])
      (use Missing.hyps atomic_delete(1) [OF Missing.hyps(2) fine Missing.hyps(3)] in simp_all)
  then show ?case by simp
next
  case (Deleting w t op x p err d)
  then have fine: "checked op (uw_nat w) = Inr x" by (auto simp: conc_inv_def dest: spec [of _ t])
  show ?case
    by (rule conc_inv_return [OF Deleting.prems])
      (use Deleting.hyps atomic_delete(2) [OF Deleting.hyps(2) fine Deleting.hyps(3,4)] in simp_all)
next
  case (Elapse w d)
  then show ?case by (auto simp: conc_inv_def intro: upnp_seq.Time)
qed

definition start_world :: "'d upnp_NAT \<times> 'd \<Rightarrow> 'd upnp_world" where
  "start_world s0 = \<lparr>uw_nat = fst s0, uw_device = snd s0, uw_mu = None, uw_pc = (\<lambda>_. Resting), uw_log = []\<rparr>"

lemma conc_inv_run: "(conc_step elapse)\<^sup>*\<^sup>* (start_world s0) w \<Longrightarrow> conc_inv elapse s0 w"
proof (induction rule: rtranclp_induct)
  case base
  show ?case using upnp_seq.None [of elapse s0] by (simp add: conc_inv_def start_world_def)
qed (rule conc_inv_step)

section \<open>The lock holder goes on\<close>

definition busy_steps :: "'d upnp_world \<Rightarrow> nat" where
  "busy_steps w = (case uw_mu w of
     None \<Rightarrow> 0
   | Some t \<Rightarrow> (case uw_pc w t of Trying op x i err refused \<Rightarrow> 4 - i | _ \<Rightarrow> 5))"

text \<open>The steps of the goroutine that holds the lock.\<close>

definition holder_step :: "'d upnp_world \<Rightarrow> 'd upnp_world \<Rightarrow> bool" where
  "holder_step w w' \<longleftrightarrow> conc_step (\<lambda>_ _. False) w w' \<and>
     (\<exists>t p. uw_mu w = Some t \<and> uw_mu w' \<in> {None, Some t} \<and> uw_pc w' = (uw_pc w)(t := p))"

lemma conc_step_mono: "conc_step (\<lambda>_ _. False) w w' \<Longrightarrow> conc_step elapse w w'"
  by (induction rule: conc_step.induct) ((rule conc_step.intros; assumption) | simp)+

lemma holder_progressI:
  assumes "conc_step (\<lambda>_ _. False) w w'" and "uw_mu w = Some t" and "uw_mu w' \<in> {None, Some t}"
    and "uw_pc w' = (uw_pc w)(t := p)" and "busy_steps w' < busy_steps w"
  shows "\<exists>w'. holder_step w w' \<and> busy_steps w' < busy_steps w"
  using assms by (auto simp: holder_step_def)

lemma entered_progress:
  assumes t: "uw_mu w = Some t" and pc: "uw_pc w t = Entered op x"
  shows "\<exists>w'. holder_step w w' \<and> busy_steps w' < busy_steps w"
proof (cases "is_add op")
  case add: True
  show ?thesis
  proof (cases "up_ports (uw_nat w) (op_key op x) \<in> {None, Some 0}")
    case True
    show ?thesis
      by (rule holder_progressI [OF conc_step.Fresh [OF pc add True] t]) (simp_all add: t pc busy_steps_def)
  next
    case False
    then obtain p where p: "up_ports (uw_nat w) (op_key op x) = Some p" "0 < p" by (auto simp: word_greater_zero_iff)
    obtain e d where c: "op_call op x (uw_nat w) p (uw_device w) = (e, d)" by fastforce
    show ?thesis
    proof (cases e)
      case None
      show ?thesis
        by (rule holder_progressI [OF conc_step.Renewed [OF pc add p c [unfolded None]] t])
          (simp_all add: t pc busy_steps_def returns_def)
    next
      case (Some err)
      show ?thesis
        by (rule holder_progressI [OF conc_step.Refused [OF pc add p c [unfolded Some]] t])
          (simp_all add: t pc busy_steps_def)
    qed
  qed
next
  case delete: False
  show ?thesis
  proof (cases "up_ports (uw_nat w) (op_key op x)")
    case None
    show ?thesis
      by (rule holder_progressI [OF conc_step.Missing [OF pc delete None] t])
        (simp_all add: t pc busy_steps_def returns_def)
  next
    case (Some p)
    obtain e d where c: "op_call op x (uw_nat w) p (uw_device w) = (e, d)" by fastforce
    show ?thesis
      by (rule holder_progressI [OF conc_step.Deleting [OF pc delete Some c] t])
        (simp_all add: t pc busy_steps_def returns_def)
  qed
qed

lemma trying_progress:
  assumes t: "uw_mu w = Some t" and pc: "uw_pc w t = Trying op x i err refused" and fine: "pc_fine (uw_pc w t) (uw_nat w)"
  shows "\<exists>w'. holder_step w w' \<and> busy_steps w' < busy_steps w"
proof (cases "i < 3")
  case True
  obtain e d where c: "op_call op x (uw_nat w) (op_draw op i) (uw_device w) = (e, d)" by fastforce
  show ?thesis
  proof (cases e)
    case None
    show ?thesis
      by (rule holder_progressI [OF conc_step.Granted [OF pc True c [unfolded None]] t])
        (use True in \<open>simp_all add: t pc busy_steps_def returns_def\<close>)
  next
    case (Some err)
    show ?thesis
      by (rule holder_progressI [OF conc_step.Again [OF pc True c [unfolded Some]] t])
        (use True in \<open>simp_all add: t pc busy_steps_def\<close>)
  qed
next
  case False
  with fine pc obtain e where pc3: "uw_pc w t = Trying op x 3 (Some e) refused" by auto
  show ?thesis
    by (rule holder_progressI [OF conc_step.GiveUp [OF pc3] t]) (simp_all add: t pc3 busy_steps_def returns_def)
qed

lemma holder_progress:
  assumes "conc_inv elapse s0 w" and "uw_mu w \<noteq> None"
  shows "\<exists>w'. holder_step w w' \<and> busy_steps w' < busy_steps w"
proof -
  obtain t where t: "uw_mu w = Some t" using assms(2) by blast
  have "pc_fine (uw_pc w t) (uw_nat w)" and "doing (uw_pc w t) \<noteq> None" using assms(1) t by (auto simp: conc_inv_def)
  then show ?thesis using entered_progress [OF t] trying_progress [OF t] by (cases "uw_pc w t") simp_all
qed

section \<open>Properties\<close>

text \<open>
  C21. Calls on a shared gateway object are atomic: whatever the interleaving of the goroutines, when
  none holds the lock the object and the device are as after the same calls made one after the other,
  in the order in which they returned, and each call returned what it returns then. And the goroutine
  that holds the lock can always go on to the end of its call, in at most five steps.
\<close>

theorem upnp_calls_atomic:
  assumes "(conc_step elapse)\<^sup>*\<^sup>* (start_world s0) w"
  shows "(uw_mu w = None \<longrightarrow> upnp_seq elapse s0 (uw_log w) (uw_nat w, uw_device w)) \<and>
    (\<exists>k w'. k \<le> 5 \<and> (holder_step ^^ k) w w' \<and> uw_mu w' = None \<and>
       upnp_seq elapse s0 (uw_log w') (uw_nat w', uw_device w'))"
proof -
  have "\<exists>k w'. k \<le> busy_steps w \<and> (holder_step ^^ k) w w' \<and> uw_mu w' = None \<and> conc_inv elapse s0 w'"
    if "conc_inv elapse s0 w" for w
    using that
  proof (induction "busy_steps w" arbitrary: w rule: less_induct)
    case less
    show ?case
    proof (cases "uw_mu w = None")
      case True
      with less.prems show ?thesis by (intro exI [of _ 0]) auto
    next
      case False
      from holder_progress [OF less.prems False] obtain w1 where w1: "holder_step w w1" "busy_steps w1 < busy_steps w"
        by blast
      then have "conc_inv elapse s0 w1"
        using conc_inv_step [OF conc_step_mono less.prems] by (auto simp: holder_step_def)
      from less.hyps [OF w1(2) this] obtain k w' where
        "k \<le> busy_steps w1" "(holder_step ^^ k) w1 w'" "uw_mu w' = None" "conc_inv elapse s0 w'" by blast
      moreover from w1(1) this(2) have "(holder_step ^^ Suc k) w w'" by (rule relpowp_Suc_I2)
      ultimately show ?thesis using w1(2) by (meson Suc_leI le_less_trans)
    qed
  qed
  from this [OF conc_inv_run [OF assms]] obtain k w' where
    k: "k \<le> busy_steps w" "(holder_step ^^ k) w w'" "uw_mu w' = None" "conc_inv elapse s0 w'" by blast
  moreover have "busy_steps w \<le> 5" by (auto simp: busy_steps_def split: option.split upnp_pc.split)
  moreover have "upnp_seq elapse s0 (uw_log w') (uw_nat w', uw_device w')" using k(3,4) by (simp add: conc_inv_def)
  moreover have "uw_mu w = None \<longrightarrow> upnp_seq elapse s0 (uw_log w) (uw_nat w, uw_device w)"
    using conc_inv_run [OF assms] by (auto simp: conc_inv_def)
  ultimately show ?thesis by (meson order_trans)
qed

fun op_protocol :: "upnp_op \<Rightarrow> string" where
  "op_protocol (AddOp dial rand ctx protocol internalPort description timeout) = protocol"
| "op_protocol (DeleteOp ctx protocol internalPort) = protocol"

text \<open>The calls in \<open>hist\<close> include an add whose request for the mapping got an error.\<close>

definition answered_error :: "(upnp_op \<times> upnp_result) list \<Rightarrow> 16 word \<Rightarrow> string \<Rightarrow> bool" where
  "answered_error hist p proto \<longleftrightarrow>
     (\<exists>op r refused. (op, Added r refused) \<in> set hist \<and> mapProtocol (op_protocol op) = Inr proto \<and> p \<in> set refused)"

text \<open>Every mapping at the device is one the cache names, or one whose request got an error.\<close>

definition accounted ::
  "('d \<Rightarrow> (16 word \<times> string) set) \<Rightarrow> (upnp_op \<times> upnp_result) list \<Rightarrow> 'd upnp_NAT \<Rightarrow> 'd \<Rightarrow> bool" where
  "accounted mine hist u d \<longleftrightarrow>
     (\<forall>(p, proto) \<in> mine d.
        (\<exists>port. up_ports u \<lparr>uk_protocol = proto, uk_port = port\<rparr> = Some p) \<or> answered_error hist p proto)"

lemma answered_error_app: "answered_error hist p proto \<Longrightarrow> answered_error (hist @ hist') p proto"
  by (auto simp: answered_error_def)

lemma accounted_mono:
  "accounted mine hist u d \<Longrightarrow> mine d' \<subseteq> mine d \<Longrightarrow> accounted mine (hist @ hist') u d'"
  by (fastforce simp: accounted_def dest: answered_error_app)

text \<open>An entry that an add overwrites is the first port that the add asked for, in vain.\<close>

lemma add_accounted:
  assumes a: "upnp_AddPortMapping dial rand ctx protocol ip descr timeout u d = (r, reqs, u', d')"
    and c: "igd_contract (up_c u) mine" and old: "accounted mine hist u d" and wf: "upnp_wf u"
  shows "accounted mine (hist @ [(AddOp dial rand ctx protocol ip descr timeout,
      Added r (case r of Inl _ \<Rightarrow> map ar_ExternalPort reqs | Inr _ \<Rightarrow> butlast (map ar_ExternalPort reqs)))]) u' d'"
    (is "accounted mine (hist @ [(?op, Added r ?refused)]) u' d'")
  using a
proof (rule upnp_Add_cases)
  fix proto addr ps granted err
  let ?key = "upnp_key proto ip" and ?h = "hist @ [(?op, Added r ?refused)]"
  assume b: "mapProtocol protocol = Inr proto" "reqs = map (upnp_request proto ?key addr descr timeout) ps"
    "requests (\<lambda>p. uc_AddPortMapping (up_c u) ctx (upnp_request proto ?key addr descr timeout p)) d ps granted err d'"
    "ps \<noteq> []" "\<forall>p. up_ports u ?key = Some p \<longrightarrow> 0 < p \<longrightarrow> hd ps = p"
    "case granted of
       Some p \<Rightarrow> r = Inr (uint p) \<and> u' = u\<lparr>up_ports := (up_ports u)(?key \<mapsto> p)\<rparr>
     | None \<Rightarrow> (\<exists>e. err = Some e \<and> r = Inl e) \<and> u' = u"
  have ports: "map ar_ExternalPort reqs = ps" by (simp add: b(2) upnp_request_def comp_def)
  have new: "mine d' \<subseteq> mine d \<union> (\<lambda>p. (p, proto)) ` set ps" by (rule igd_Add_requests [OF b(3) c])
  have refused: "answered_error ?h q proto" if "q \<in> set ?refused" for q
    unfolding answered_error_def
    using that b(1) by (intro exI [of _ ?op] exI [of _ r] exI [of _ ?refused]) simp
  have "(\<exists>port. up_ports u' \<lparr>uk_protocol = pr, uk_port = port\<rparr> = Some q) \<or> answered_error ?h q pr"
    if m: "(q, pr) \<in> mine d'" for q pr
  proof (cases granted)
    case None
    with b(6) have r: "?refused = ps" and u': "u' = u" by (auto simp: ports)
    from m new consider "(q, pr) \<in> mine d" | "q \<in> set ps" "pr = proto" by auto
    then show ?thesis
    proof cases
      case 1
      with old show ?thesis unfolding u' by (auto simp: accounted_def intro: answered_error_app)
    next
      case 2
      with refused [of q] show ?thesis unfolding r by simp
    qed
  next
    case (Some p)
    with b(6) have r: "?refused = butlast ps" and u': "up_ports u' = (up_ports u)(?key \<mapsto> p)" by (auto simp: ports)
    have "last ps = p" using requests_Some [OF b(3) Some] by simp
    with b(4) have ps: "ps = butlast ps @ [p]" by (metis append_butlast_last_id)
    have asked: ?thesis if "pr = proto" "q \<in> set ps"
    proof (cases "q = p")
      case True
      with u' that(1) have "up_ports u' \<lparr>uk_protocol = pr, uk_port = word_of_int ip\<rparr> = Some q"
        by (simp add: upnp_key_def)
      then show ?thesis by blast
    next
      case False
      with that(2) ps have "q \<in> set (butlast ps)" by (metis Un_iff empty_iff empty_set set_ConsD set_append)
      with refused [of q] that(1) show ?thesis unfolding r by simp
    qed
    show ?thesis
    proof (cases "(q, pr) \<in> mine d")
      case False
      with m new asked show ?thesis by auto
    next
      case True
      with old consider port where "up_ports u \<lparr>uk_protocol = pr, uk_port = port\<rparr> = Some q" | "answered_error hist q pr"
        by (auto simp: accounted_def)
      then show ?thesis
      proof cases
        case 1
        show ?thesis
        proof (cases "\<lparr>uk_protocol = pr, uk_port = port\<rparr> = ?key")
          case True
          with 1 wf b(5) have "hd ps = q" by (auto simp: upnp_wf_def)
          with b(4) have "q \<in> set ps" by auto
          with True show ?thesis by (intro asked) (simp_all add: upnp_key_def)
        next
          case False
          with 1 u' have "up_ports u' \<lparr>uk_protocol = pr, uk_port = port\<rparr> = Some q" by simp
          then show ?thesis by blast
        qed
      qed (simp add: answered_error_app)
    qed
  qed
  then show ?thesis unfolding accounted_def by blast
qed (use old in \<open>auto intro: accounted_mono\<close>)

lemma delete_accounted:
  assumes "upnp_DeletePortMapping ctx protocol ip u d = (err, u', d')"
    and "igd_contract (up_c u) mine" and "accounted mine hist u d"
  shows "accounted mine (hist @ hist') u' d'"
proof (rule upnp_Delete_cases [OF assms(1)])
  fix proto p
  let ?key = "upnp_key proto ip"
  assume a: "up_ports u ?key = Some p" "uc_DeletePortMapping (up_c u) ctx [] p proto d = (err, d')"
    "u' = (if err = None then u\<lparr>up_ports := (up_ports u)(?key := None)\<rparr> else u)"
  show ?thesis
  proof (cases err)
    case None
    with a(2) assms(2) have new: "mine d' \<subseteq> mine d - {(p, proto)}" by (simp add: igd_contract_def)
    {
      fix q pr
      assume m: "(q, pr) \<in> mine d'"
      with new have "(q, pr) \<in> mine d" and ne: "(q, pr) \<noteq> (p, proto)" by auto
      with assms(3) consider port where "up_ports u \<lparr>uk_protocol = pr, uk_port = port\<rparr> = Some q" |
        "answered_error hist q pr" by (auto simp: accounted_def)
      then have "(\<exists>port. up_ports u' \<lparr>uk_protocol = pr, uk_port = port\<rparr> = Some q) \<or> answered_error (hist @ hist') q pr"
      proof cases
        case 1
        with ne a(1) have "\<lparr>uk_protocol = pr, uk_port = port\<rparr> \<noteq> ?key" by (auto simp: upnp_key_def)
        with 1 a(3) None have "up_ports u' \<lparr>uk_protocol = pr, uk_port = port\<rparr> = Some q" by simp
        then show ?thesis by blast
      qed (simp add: answered_error_app)
    }
    then show ?thesis unfolding accounted_def by blast
  next
    case (Some e)
    with a(2) assms(2) have "mine d' \<subseteq> mine d" by (simp add: igd_contract_def)
    with Some a(3) assms(3) show ?thesis by (simp add: accounted_mono)
  qed
qed (use assms(3) in \<open>simp_all add: accounted_mono\<close>)

lemma seq_accounted:
  assumes "upnp_seq (\<lambda>d d'. mine d' \<subseteq> mine d) (newUPNPNAT c typ base, d0) hist s"
    and "igd_contract c mine" and "mine d0 = {}"
  shows "accounted mine hist (fst s) (snd s) \<and> upnp_wf (fst s) \<and> up_c (fst s) = c"
  using assms(1)
proof (induction rule: upnp_seq.induct)
  case None
  then show ?case using assms(3) by (simp add: accounted_def upnp_wf_def newUPNPNAT_def)
next
  case (Op hist u d op r u' d')
  have IH: "accounted mine hist u d" "upnp_wf u" "igd_contract (up_c u) mine" "up_c u = c"
    using Op.IH assms(2) by simp_all
  show ?case
  proof (cases op)
    case (AddOp dial rand ctx protocol ip descr timeout)
    obtain x reqs where a: "upnp_AddPortMapping dial rand ctx protocol ip descr timeout u d = (x, reqs, u', d')"
      and r: "r = Added x (case x of Inl _ \<Rightarrow> map ar_ExternalPort reqs | Inr _ \<Rightarrow> butlast (map ar_ExternalPort reqs))"
      using Op.hyps(2) AddOp by (auto simp: Let_def split: prod.splits)
    with add_accounted [OF a IH(3,1,2)] upnp_Add_wf [OF a IH(2)] upnp_Add_frame(1) [OF a] AddOp IH(4)
    show ?thesis by simp
  next
    case (DeleteOp ctx protocol ip)
    with Op.hyps(2) obtain err where a: "upnp_DeletePortMapping ctx protocol ip u d = (err, u', d')"
      by (auto split: prod.splits)
    with delete_accounted [OF a IH(3,1)] upnp_Delete_wf [OF a IH(2)] upnp_Delete_frame [OF a] IH(4)
    show ?thesis by simp
  qed
next
  case (Time hist u d d')
  then show ?case using accounted_mono [of mine hist u d d' "[]"] by simp
qed

text \<open>
  C8. However many goroutines share the gateway object, and whatever answers get lost: at every moment
  when no call is at the device, each mapping that the device holds for this host either has its external
  port in the object's cache, so that a delete can name it, or is one whose own request was answered with
  an error. This holds after any interleaving of adds, deletes and expiries, failing or not. What the
  device is taken to do is \<open>igd_contract\<close>: an error of a request does not exclude that it was carried out.
\<close>

theorem shared_mappings_known:
  assumes "(conc_step (\<lambda>d d'. mine d' \<subseteq> mine d))\<^sup>*\<^sup>* (start_world (newUPNPNAT c typ base, d0)) w"
    and "igd_contract c mine" and "mine d0 = {}" and "uw_mu w = None"
  shows "\<forall>(p, proto) \<in> mine (uw_device w).
      (\<exists>port. up_ports (uw_nat w) \<lparr>uk_protocol = proto, uk_port = port\<rparr> = Some p) \<or>
      (\<exists>op r refused. (op, Added r refused) \<in> set (uw_log w) \<and> mapProtocol (op_protocol op) = Inr proto \<and>
         p \<in> set refused)"
proof -
  from conc_inv_run [OF assms(1)] assms(4)
  have "upnp_seq (\<lambda>d d'. mine d' \<subseteq> mine d) (newUPNPNAT c typ base, d0) (uw_log w) (uw_nat w, uw_device w)"
    by (simp add: conc_inv_def)
  from seq_accounted [OF this assms(2,3)] show ?thesis by (simp add: accounted_def answered_error_def)
qed

text \<open>Two goroutines add the same mapping; the second waits for the first and then renews its port.\<close>

definition wg_add :: upnp_op where
  "wg_add = AddOp home_dial (\<lambda>i. i) Caller ''udp'' 51820 ''wg'' (3600 * second)"

lemma wg_add_simps [simp]:
  "is_add wg_add" "up_URLBase u = home_base \<Longrightarrow> checked wg_add u = Inr (''UDP'', [192, 168, 1, 7])"
  "op_key wg_add (''UDP'', ip) = upnp_key ''UDP'' 51820" "op_draw wg_add 0 = 10000"
  by (simp_all add: wg_add_def home_internal randomPort_small)

lemma wg_add_call:
  "up_c u = table_igd \<Longrightarrow> op_call wg_add (''UDP'', ip) u p (tab, []) = (None, (List.insert (p, ''UDP'') tab, []))"
  by (simp add: wg_add_def table_igd_def upnp_request_def)

lemma home_upnp_fields: "up_URLBase home_upnp = home_base" "up_c home_upnp = table_igd" "up_ports home_upnp = Map.empty"
  by (simp_all add: newUPNPNAT_def)

lemma two_adders:
  "\<exists>w. (conc_step elapse)\<^sup>*\<^sup>* (start_world (home_upnp, ([], []))) w \<and> uw_mu w = None \<and>
     uw_log w = [(wg_add, Added (Inr 10000) []), (wg_add, Added (Inr 10000) [])] \<and>
     fst (uw_device w) = [(10000, ''UDP'')] \<and> uw_nat w = set_port (upnp_key ''UDP'' 51820) (Some 10000) home_upnp"
proof -
  let ?x = "(''UDP'', [192, 168, 1, 7]) :: string \<times> net_ip" and ?u = "set_port (upnp_key ''UDP'' 51820) (Some 10000) home_upnp"
  let ?w = "\<lambda>u d mu pcs log. \<lparr>uw_nat = u, uw_device = d, uw_mu = mu, uw_pc = pcs, uw_log = log\<rparr> ::
     ((16 word \<times> string) list \<times> bool list) upnp_world"
  let ?r = "\<lambda>_ :: nat. Resting" and ?e = "([], []) :: (16 word \<times> string) list \<times> bool list"
  let ?one = "[(wg_add, Added (Inr 10000) [])]" and ?d = "([(10000, ''UDP'')], []) :: (16 word \<times> string) list \<times> bool list"
  note set = set_port_def home_upnp_fields
  have 0: "start_world (home_upnp, ?e) = ?w home_upnp ?e None ?r []" by (simp add: start_world_def)
  have 1: "conc_step elapse (?w home_upnp ?e None ?r []) (?w home_upnp ?e None (?r(0 := Waiting wg_add)) [])"
    using conc_step.Call [of "?w home_upnp ?e None ?r []" 0 elapse wg_add] by simp
  have 2: "conc_step elapse (?w home_upnp ?e None (?r(0 := Waiting wg_add)) [])
      (?w home_upnp ?e None (?r(0 := Waiting wg_add, 1 := Waiting wg_add)) [])"
    using conc_step.Call [of "?w home_upnp ?e None (?r(0 := Waiting wg_add)) []" 1 elapse wg_add] by simp
  have 3: "conc_step elapse (?w home_upnp ?e None (?r(0 := Waiting wg_add, 1 := Waiting wg_add)) [])
      (?w home_upnp ?e (Some 0) (?r(0 := Entered wg_add ?x, 1 := Waiting wg_add)) [])"
    using conc_step.Lock [of "?w home_upnp ?e None (?r(0 := Waiting wg_add, 1 := Waiting wg_add)) []" 0 wg_add ?x elapse]
    by (simp add: home_upnp_fields fun_upd_twist)
  have 4: "conc_step elapse (?w home_upnp ?e (Some 0) (?r(0 := Entered wg_add ?x, 1 := Waiting wg_add)) [])
      (?w home_upnp ?e (Some 0) (?r(0 := Trying wg_add ?x 0 None [], 1 := Waiting wg_add)) [])"
    using conc_step.Fresh [of "?w home_upnp ?e (Some 0) (?r(0 := Entered wg_add ?x, 1 := Waiting wg_add)) []" 0 wg_add ?x elapse]
    by (simp add: home_upnp_fields fun_upd_twist)
  have 5: "conc_step elapse (?w home_upnp ?e (Some 0) (?r(0 := Trying wg_add ?x 0 None [], 1 := Waiting wg_add)) [])
      (?w ?u ?d None (?r(1 := Waiting wg_add)) ?one)"
    using conc_step.Granted [of "?w home_upnp ?e (Some 0) (?r(0 := Trying wg_add ?x 0 None [], 1 := Waiting wg_add)) []"
        0 wg_add ?x 0 None "[]" ?d elapse]
    by (simp add: home_upnp_fields wg_add_call returns_def fun_upd_twist fun_upd_idem)
  have 6: "conc_step elapse (?w ?u ?d None (?r(1 := Waiting wg_add)) ?one)
      (?w ?u ?d (Some 1) (?r(1 := Entered wg_add ?x)) ?one)"
    using conc_step.Lock [of "?w ?u ?d None (?r(1 := Waiting wg_add)) ?one" 1 wg_add ?x elapse]
    by (simp add: home_upnp_fields)
  have 7: "conc_step elapse (?w ?u ?d (Some 1) (?r(1 := Entered wg_add ?x)) ?one)
      (?w ?u ?d None ?r (?one @ [(wg_add, Added (Inr 10000) [])]))"
    using conc_step.Renewed [of "?w ?u ?d (Some 1) (?r(1 := Entered wg_add ?x)) ?one" 1 wg_add ?x 10000 ?d elapse]
    by (simp add: set wg_add_call returns_def fun_upd_idem)
  from 1 2 3 4 5 6 7 have "(conc_step elapse)\<^sup>*\<^sup>* (start_world (home_upnp, ?e))
      (?w ?u ?d None ?r (?one @ [(wg_add, Added (Inr 10000) [])]))"
    unfolding 0 by (meson converse_rtranclp_into_rtranclp rtranclp.rtrancl_refl)
  then show ?thesis by (intro exI conjI) (assumption, simp_all)
qed

theorem upnp_calls_atomic_witness:
  "\<exists>u d. upnp_seq (\<lambda>_ _. False) (home_upnp, ([], []))
     [(wg_add, Added (Inr 10000) []), (wg_add, Added (Inr 10000) [])] (u, d) \<and> fst d = [(10000, ''UDP'')]"
proof -
  obtain w where w: "(conc_step (\<lambda>_ _. False))\<^sup>*\<^sup>* (start_world (home_upnp, ([], []))) w" "uw_mu w = None"
    "uw_log w = [(wg_add, Added (Inr 10000) []), (wg_add, Added (Inr 10000) [])]" "fst (uw_device w) = [(10000, ''UDP'')]"
    using two_adders by blast
  from upnp_calls_atomic [OF w(1)] w(2,3,4) show ?thesis by metis
qed

theorem shared_mappings_known_witness:
  "\<exists>w port. (conc_step (\<lambda>d d'. set (fst d') \<subseteq> set (fst d)))\<^sup>*\<^sup>* (start_world (home_upnp, ([], []))) w \<and>
     length (uw_log w) = 2 \<and> set (fst (uw_device w)) = {(10000, ''UDP'')} \<and>
     up_ports (uw_nat w) \<lparr>uk_protocol = ''UDP'', uk_port = port\<rparr> = Some 10000"
proof -
  obtain w where w: "(conc_step (\<lambda>d d'. set (fst d') \<subseteq> set (fst d)))\<^sup>*\<^sup>* (start_world (home_upnp, ([], []))) w" "uw_mu w = None"
    "uw_log w = [(wg_add, Added (Inr 10000) []), (wg_add, Added (Inr 10000) [])]" "fst (uw_device w) = [(10000, ''UDP'')]"
    using two_adders by blast
  from shared_mappings_known [OF w(1) table_igd_contract _ w(2)] w show ?thesis by auto
qed

end
