(* ===== verification/Pcp_NAT.thy ===== *)
theory Pcp_NAT
  imports Pcp_Client Gateway_Discoverer "HOL-Library.Monad_Syntax"
begin

text \<open>
  \<open>pcp/nat.go\<close>: the dual-stack NAT of the \<open>pcp\<close> package and its discovery. A NAT owns an IPv4
  client, an IPv6 client, or both (a nil pointer is \<open>None\<close>). The goroutine that serves the IPv6
  side works on the other client and is joined before its result is read, so it is run first here.
  What the network answers depends on the context of the call: \<open>net4\<close>, \<open>net6\<close> and \<open>netr\<close> give the
  outside of the IPv4 request, the IPv6 request and the rollback. The result \<open>None\<close> is a call that
  does not return: a nil client dereferenced, or a mapping lock that is never released.
\<close>

type_synonym net_env = "ctx \<Rightarrow> call_io"

definition externalAddressTimeout :: duration where "externalAddressTimeout = 10 * second"
definition pinholeTimeout :: duration where "pinholeTimeout = 5 * second"

definition errPinholeRolledBack :: go_err where
  "errPinholeRolledBack = Sentinel ''pcp'' ''rolled back after the IPv4 mapping failed''"

definition errPinholeLeftOpen :: go_err where
  "errPinholeLeftOpen = Sentinel ''pcp'' ''left open after the IPv4 mapping failed''"

record pcp_nat =
  n_client :: "client option"
  n_client6 :: "client option"
  n_pinholeErr :: "go_err option"

definition zero_nat :: pcp_nat where
  "zero_nat = \<lparr>n_client = None, n_client6 = None, n_pinholeErr = None\<rparr>"

definition NewNAT :: "net_ip \<Rightarrow> net_ip \<Rightarrow> pcp_nat" where
  "NewNAT gateway localIP = zero_nat\<lparr>n_client := Some (SetLocalIP localIP (NewClient gateway))\<rparr>"

definition NAT_Type :: "pcp_nat \<Rightarrow> string" where
  "NAT_Type n = ''PCP''"

section \<open>The primary client\<close>

definition primary :: "pcp_nat \<Rightarrow> client or_err" where
  "primary n =
     (case n_client n of
        Some c \<Rightarrow> Inr c
      | None \<Rightarrow> (case n_client6 n of Some c \<Rightarrow> Inr c | None \<Rightarrow> Inl pcp_ErrNoNATFound))"

text \<open>The write through the pointer that \<open>primary\<close> returned.\<close>

definition set_primary :: "client \<Rightarrow> pcp_nat \<Rightarrow> pcp_nat" where
  "set_primary c n =
     (if n_client n \<noteq> None then n\<lparr>n_client := Some c\<rparr> else n\<lparr>n_client6 := Some c\<rparr>)"

definition NAT_GetDeviceAddress :: "pcp_nat \<Rightarrow> net_ip or_err" where
  "NAT_GetDeviceAddress n = (case primary n of Inl err \<Rightarrow> Inl err | Inr client \<Rightarrow> Inr (Gateway client))"

definition NAT_GetInternalAddress :: "pcp_nat \<Rightarrow> net_ip or_err" where
  "NAT_GetInternalAddress n =
     (case primary n of
        Inl err \<Rightarrow> Inl err
      | Inr client \<Rightarrow>
     (case getLocalIP client of
        Inl err \<Rightarrow> Inl (Errorf ''%w: %v'' [AErr pcp_ErrNoInternalAddress, AVal err])
      | Inr addr \<Rightarrow> Inr (addr_AsSlice addr)))"

definition NAT_GetExternalAddress ::
  "net_env \<Rightarrow> net_env \<Rightarrow> nat \<Rightarrow> int \<Rightarrow> pcp_nat \<Rightarrow> (net_ip or_err \<times> net_event list \<times> pcp_nat) option" where
  "NAT_GetExternalAddress net_add net_del t ns n =
     (case primary n of
        Inl err \<Rightarrow> Some (Inl err, [], n)
      | Inr client \<Rightarrow>
          let ctx = WithTimeout Background externalAddressTimeout
          in do {
            (r, evs, client) \<leftarrow>
              GetExternalAddress (net_add ctx) (net_del ctx) t ns client;
            Some (r, evs, set_primary client n)
          })"

section \<open>The pinhole error\<close>

definition IPv6PinholeError :: "pcp_nat \<Rightarrow> go_err option" where
  "IPv6PinholeError n = n_pinholeErr n"

definition setPinholeErr :: "go_err option \<Rightarrow> pcp_nat \<Rightarrow> pcp_nat" where
  "setPinholeErr err n =
     n\<lparr>n_pinholeErr := map_option (\<lambda>err. Errorf ''pcp ipv6: %w'' [AErr err]) err\<rparr>"

section \<open>Requests through a client pointer\<close>

text \<open>
  A method called on a nil \<open>*Client\<close> runs until it touches the client: the port checks of
  \<open>addPortMappingWithHint\<close> come first, then the lock of \<open>getLocalIP\<close> panics.
\<close>

definition ptr_AddPortMapping ::
  "call_io \<Rightarrow> nat \<Rightarrow> string \<Rightarrow> int \<Rightarrow> duration \<Rightarrow> client option
   \<Rightarrow> (map_response or_err \<times> net_event list \<times> client option) option" where
  "ptr_AddPortMapping io t protocol internalPort timeout p =
     (case p of
        None \<Rightarrow>
          if internalPort \<le> 0 \<or> internalPort > 65535
          then Some (Inl (Errorf ''invalid internal port: %d'' [AInt internalPort]), [], None)
          else None
      | Some c \<Rightarrow> do {
          (r, evs, c) \<leftarrow> AddPortMapping io t protocol internalPort timeout c;
          Some (r, evs, Some c)
        })"

definition ptr_DeletePortMapping ::
  "call_io \<Rightarrow> nat \<Rightarrow> string \<Rightarrow> int \<Rightarrow> client option
   \<Rightarrow> (go_err option \<times> net_event list \<times> client option) option" where
  "ptr_DeletePortMapping io t protocol internalPort p =
     (case p of
        None \<Rightarrow>
          if internalPort \<le> 0 \<or> internalPort > 65535
          then Some (Some (Errorf ''delete mapping: %w''
                       [AErr (Errorf ''invalid internal port: %d'' [AInt internalPort])]), [], None)
          else None
      | Some c \<Rightarrow> do {
          (r, evs, c) \<leftarrow> DeletePortMapping io t protocol internalPort c;
          Some (r, evs, Some c)
        })"

section \<open>Mappings\<close>

definition rollbackPinhole ::
  "net_env \<Rightarrow> ctx \<Rightarrow> nat \<Rightarrow> string \<Rightarrow> int \<Rightarrow> client \<Rightarrow> (go_err option \<times> net_event list \<times> client) option" where
  "rollbackPinhole netr ctx t protocol internalPort client6 =
     (let ctx = WithTimeout (WithoutCancel ctx) pinholeTimeout
      in DeletePortMapping (netr ctx) t protocol internalPort client6)"

text \<open>
  The IPv6 half of \<open>AddPortMapping\<close>: the goroutine on \<open>client6\<close>. Its error is \<open>err6\<close>, which stays
  nil when there is no IPv6 client.
\<close>

definition add_pinhole ::
  "net_env \<Rightarrow> ctx \<Rightarrow> nat \<Rightarrow> string \<Rightarrow> int \<Rightarrow> duration \<Rightarrow> client option
   \<Rightarrow> (go_err option \<times> net_event list \<times> client option) option" where
  "add_pinhole net6 ctx t6 protocol internalPort timeout client6 =
     (case client6 of
        None \<Rightarrow> Some (None, [], None)
      | Some c6 \<Rightarrow> do {
          (r6, evs6, c6) \<leftarrow> AddPortMapping (net6 (WithTimeout ctx pinholeTimeout)) t6
                             protocol internalPort timeout c6;
          Some (err_of r6, evs6, Some c6)
        })"

definition delete_pinhole ::
  "net_env \<Rightarrow> ctx \<Rightarrow> nat \<Rightarrow> string \<Rightarrow> int \<Rightarrow> client option
   \<Rightarrow> (go_err option \<times> net_event list \<times> client option) option" where
  "delete_pinhole net6 ctx t6 protocol internalPort client6 =
     (case client6 of
        None \<Rightarrow> Some (None, [], None)
      | Some c6 \<Rightarrow> do {
          (err6, evs6, c6) \<leftarrow> DeletePortMapping (net6 (WithTimeout ctx pinholeTimeout)) t6
                               protocol internalPort c6;
          Some (err6, evs6, Some c6)
        })"

text \<open>The IPv4 events and the IPv6 events are returned apart: they interleave freely.\<close>

definition NAT_AddPortMapping ::
  "net_env \<Rightarrow> net_env \<Rightarrow> net_env \<Rightarrow> ctx \<Rightarrow> nat \<Rightarrow> nat \<Rightarrow> string \<Rightarrow> int \<Rightarrow> string \<Rightarrow> duration \<Rightarrow> pcp_nat
   \<Rightarrow> (int or_err \<times> net_event list \<times> net_event list \<times> pcp_nat) option" where
  "NAT_AddPortMapping net4 net6 netr ctx t t6 protocol internalPort description timeout n =
     (case n_client n of
        None \<Rightarrow> do {
          (r, evs6, c6) \<leftarrow> ptr_AddPortMapping (net6 ctx) t protocol internalPort timeout (n_client6 n);
          let n = setPinholeErr (err_of r) (n\<lparr>n_client6 := c6\<rparr>);
          case r of
            Inl err \<Rightarrow> Some (Inl (Errorf ''add mapping: %w'' [AErr err]), [], evs6, n)
          | Inr resp \<Rightarrow> Some (Inr (uint (ExternalPort resp)), [], evs6, n)
        }
      | Some client \<Rightarrow> do {
          (err6, evs6, client6) \<leftarrow>
            add_pinhole net6 ctx t6 protocol internalPort timeout (n_client6 n);
          (r, evs, client) \<leftarrow> AddPortMapping (net4 ctx) t protocol internalPort timeout client;
          let n = n\<lparr>n_client := Some client, n_client6 := client6\<rparr>;
          case r of
            Inr resp \<Rightarrow> Some (Inr (uint (ExternalPort resp)), evs, evs6, setPinholeErr err6 n)
          | Inl err \<Rightarrow>
              (case (err6, client6) of
                 (None, Some c6) \<Rightarrow> do {
                   (rollbackErr, evsr, c6) \<leftarrow> rollbackPinhole netr ctx t protocol internalPort c6;
                   let err6 = (case rollbackErr of
                                 None \<Rightarrow> errPinholeRolledBack
                               | Some e \<Rightarrow> Errorf ''%w: %w'' [AErr errPinholeLeftOpen, AErr e]);
                   Some (Inl (Errorf ''add mapping: %w'' [AErr err]), evs, evs6 @ evsr,
                         setPinholeErr (Some err6) (n\<lparr>n_client6 := Some c6\<rparr>))
                 }
               | _ \<Rightarrow> Some (Inl (Errorf ''add mapping: %w'' [AErr err]), evs, evs6, setPinholeErr err6 n))
        })"

definition NAT_DeletePortMapping ::
  "net_env \<Rightarrow> net_env \<Rightarrow> ctx \<Rightarrow> nat \<Rightarrow> nat \<Rightarrow> string \<Rightarrow> int \<Rightarrow> pcp_nat
   \<Rightarrow> (go_err option \<times> net_event list \<times> net_event list \<times> pcp_nat) option" where
  "NAT_DeletePortMapping net4 net6 ctx t t6 protocol internalPort n =
     (case n_client n of
        None \<Rightarrow> do {
          (err, evs6, c6) \<leftarrow> ptr_DeletePortMapping (net6 ctx) t protocol internalPort (n_client6 n);
          let n = setPinholeErr err (n\<lparr>n_client6 := c6\<rparr>);
          Some (map_option (\<lambda>err. Errorf ''delete mapping: %w'' [AErr err]) err, [], evs6, n)
        }
      | Some client \<Rightarrow> do {
          (err6, evs6, client6) \<leftarrow> delete_pinhole net6 ctx t6 protocol internalPort (n_client6 n);
          (err, evs, client) \<leftarrow> DeletePortMapping (net4 ctx) t protocol internalPort client;
          let n = setPinholeErr err6 (n\<lparr>n_client := Some client, n_client6 := client6\<rparr>);
          Some (map_option (\<lambda>err. Errorf ''delete mapping: %w'' [AErr err]) err, evs, evs6, n)
        })"

section \<open>Health\<close>

text \<open>
  \<open>EpochStateLost\<close> is called, and clears the flag, only when the announcement succeeded. The
  comparison \<open>n.client6 != client\<close> is between pointers: they are the same exactly when there is no
  IPv4 client. Both announcements return on every network.
\<close>

definition announce_and_check :: "call_io \<Rightarrow> client \<Rightarrow> 32 word or_err \<times> bool \<times> net_event list \<times> client" where
  "announce_and_check io c =
     (let (r, evs, c) = Announce io c
      in case r of
           Inl err \<Rightarrow> (Inl err, False, evs, c)
         | Inr epoch \<Rightarrow> let (lost, c) = EpochStateLost c in (Inr epoch, lost, evs, c))"

definition CheckServerHealth ::
  "net_env \<Rightarrow> net_env \<Rightarrow> ctx \<Rightarrow> pcp_nat
   \<Rightarrow> (32 word \<times> bool) or_err \<times> net_event list \<times> net_event list \<times> pcp_nat" where
  "CheckServerHealth net4 net6 ctx n =
     (case primary n of
        Inl err \<Rightarrow> (Inl err, [], [], n)
      | Inr client \<Rightarrow>
          let dualStack = (n_client6 n \<noteq> None \<and> n_client n \<noteq> None);
              (r, restarted, evs, client) = announce_and_check (net4 ctx) client
          in if \<not> dualStack
             then (case r of
                     Inl err \<Rightarrow> (Inl (Errorf ''announce: %w'' [AErr err]), evs, [], set_primary client n)
                   | Inr epoch \<Rightarrow> (Inr (epoch, restarted), evs, [], set_primary client n))
             else
               let (r6, restarted6, evs6, c6) =
                     announce_and_check (net6 (WithTimeout ctx pinholeTimeout)) (the (n_client6 n));
                   n = set_primary client n\<lparr>n_client6 := Some c6\<rparr>
               in case (r, r6) of
                    (Inl err, Inl err6) \<Rightarrow>
                      (Inl (Errorf ''announce: %w; pcp ipv6: %w'' [AErr err, AErr err6]), evs, evs6, n)
                  | (Inl err, Inr epoch6) \<Rightarrow> (Inr (epoch6, restarted6), evs, evs6, n)
                  | (Inr epoch, _) \<Rightarrow> (Inr (epoch, restarted \<or> restarted6), evs, evs6, n))"

section \<open>Discovery\<close>

text \<open>The interface \<open>gatewayDiscoverer\<close>; \<open>default_discoverer\<close> is the routing table's.\<close>

record discoverer =
  gd_Discover :: "ctx \<Rightarrow> (net_ip \<times> net_ip) or_err"
  gd_DiscoverV6 :: "ctx \<Rightarrow> (net_ip \<times> net_ip \<times> string) or_err"

definition default_discoverer :: "string \<Rightarrow> router or_err \<Rightarrow> (ctx \<Rightarrow> ctx_err option) \<Rightarrow> discoverer" where
  "default_discoverer goos newRouter ctx_err =
     \<lparr>gd_Discover = (\<lambda>ctx. Discover goos newRouter (ctx_err ctx)),
      gd_DiscoverV6 = (\<lambda>ctx. DiscoverV6 goos newRouter (ctx_err ctx))\<rparr>"

definition discoverPCPIPv4 ::
  "discoverer \<Rightarrow> net_env \<Rightarrow> ctx \<Rightarrow> pcp_nat or_err \<times> net_event list" where
  "discoverPCPIPv4 gds net4 ctx =
     (case gd_Discover gds ctx of
        Inl err \<Rightarrow> (Inl (Errorf ''get default gateway: %w'' [AErr err]), [])
      | Inr (gateway, localIP) \<Rightarrow>
          let result = NewNAT gateway localIP;
              (r, evs, c) = Announce (net4 ctx) (the (n_client result))
          in case r of
               Inl err \<Rightarrow> (Inl (Errorf ''PCP announce: %w'' [AErr err]), evs)
             | Inr _ \<Rightarrow> (Inr (result\<lparr>n_client := Some c\<rparr>), evs))"

definition discoverPCPIPv6 ::
  "discoverer \<Rightarrow> net_env \<Rightarrow> ctx \<Rightarrow> client or_err \<times> net_event list" where
  "discoverPCPIPv6 gds net6 ctx =
     (case gd_DiscoverV6 gds ctx of
        Inl err \<Rightarrow> (Inl (Errorf ''get default IPv6 gateway: %w'' [AErr err]), [])
      | Inr (gateway, localIP, zone) \<Rightarrow>
          let client = NewClient gateway;
              client = (if zone \<noteq> [] then client\<lparr>c_gateway := addr_WithZone (c_gateway client) zone\<rparr>
                        else client);
              client = SetLocalIP localIP client;
              (r, evs, client) = Announce (net6 ctx) client
          in case r of
               Inl err \<Rightarrow> (Inl (Errorf ''PCP IPv6 announce: %w'' [AErr err]), evs)
             | Inr _ \<Rightarrow> (Inr client, evs))"

definition discoverPCP ::
  "discoverer \<Rightarrow> net_env \<Rightarrow> net_env \<Rightarrow> ctx \<Rightarrow> pcp_nat or_err \<times> net_event list \<times> net_event list" where
  "discoverPCP gds net4 net6 ctx =
     (let (v6, evs6) = discoverPCPIPv6 gds net6 ctx;
          (result, evs) = discoverPCPIPv4 gds net4 ctx
      in case (result, v6) of
           (Inl v4Err, Inl v6Err) \<Rightarrow> (Inl (ErrJoin v4Err v6Err), evs, evs6)
         | (Inl _, Inr c6) \<Rightarrow> (Inr (zero_nat\<lparr>n_client6 := Some c6\<rparr>), evs, evs6)
         | (Inr n, Inl _) \<Rightarrow> (Inr n, evs, evs6)
         | (Inr n, Inr c6) \<Rightarrow> (Inr (n\<lparr>n_client6 := Some c6\<rparr>), evs, evs6))"

text \<open>The exported discoveries, on the routing table; \<open>Discover\<close> is an alias.\<close>

definition DiscoverPCP ::
  "string \<Rightarrow> router or_err \<Rightarrow> (ctx \<Rightarrow> ctx_err option) \<Rightarrow> net_env \<Rightarrow> net_env \<Rightarrow> ctx
   \<Rightarrow> pcp_nat or_err \<times> net_event list \<times> net_event list" where
  "DiscoverPCP goos newRouter ctx_err = discoverPCP (default_discoverer goos newRouter ctx_err)"

definition DiscoverPCPIPv4 ::
  "string \<Rightarrow> router or_err \<Rightarrow> (ctx \<Rightarrow> ctx_err option) \<Rightarrow> net_env \<Rightarrow> ctx \<Rightarrow> pcp_nat or_err \<times> net_event list" where
  "DiscoverPCPIPv4 goos newRouter ctx_err = discoverPCPIPv4 (default_discoverer goos newRouter ctx_err)"

definition DiscoverPCPIPv6 ::
  "string \<Rightarrow> router or_err \<Rightarrow> (ctx \<Rightarrow> ctx_err option) \<Rightarrow> net_env \<Rightarrow> ctx \<Rightarrow> client or_err \<times> net_event list" where
  "DiscoverPCPIPv6 goos newRouter ctx_err = discoverPCPIPv6 (default_discoverer goos newRouter ctx_err)"

definition pcp_Discover ::
  "string \<Rightarrow> router or_err \<Rightarrow> (ctx \<Rightarrow> ctx_err option) \<Rightarrow> net_env \<Rightarrow> net_env \<Rightarrow> ctx
   \<Rightarrow> pcp_nat or_err \<times> net_event list \<times> net_event list" where
  "pcp_Discover goos newRouter ctx_err = discoverPCP (default_discoverer goos newRouter ctx_err)"

lemmas discovery_defs = DiscoverPCP_def DiscoverPCPIPv4_def DiscoverPCPIPv6_def discoverPCP_def
  discoverPCPIPv4_def discoverPCPIPv6_def default_discoverer_def Discover_def DiscoverV6_def

section \<open>The operations return\<close>

definition nat_ok :: "pcp_nat \<Rightarrow> bool" where
  "nat_ok n \<longleftrightarrow> (n_client n \<noteq> None \<or> n_client6 n \<noteq> None) \<and>
     (\<forall>c. n_client n = Some c \<longrightarrow> locks_free c) \<and> (\<forall>c. n_client6 n = Some c \<longrightarrow> locks_free c)"

lemma Add_returns:
  assumes "locks_free c"
  obtains r evs c' where "AddPortMapping io t protocol ip lifetime c = Some (r, evs, c')" "locks_free c'"
  using client_calls_end(2) [OF assms] by blast

lemma Delete_returns:
  assumes "locks_free c"
  obtains r evs c' where "DeletePortMapping io t protocol ip c = Some (r, evs, c')" "locks_free c'"
  using client_calls_end(3) [OF assms] by blast

lemma setPinholeErr_frame [simp]:
  "n_client (setPinholeErr e n) = n_client n" "n_client6 (setPinholeErr e n) = n_client6 n"
  "n_pinholeErr (setPinholeErr e n) = map_option (\<lambda>err. Errorf ''pcp ipv6: %w'' [AErr err]) e"
  by (simp_all add: setPinholeErr_def)

lemma add_pinhole_returns:
  assumes "\<forall>c. p = Some c \<longrightarrow> locks_free c"
  obtains e evs p' where "add_pinhole net6 ctx t protocol ip timeout p = Some (e, evs, p')"
    "\<forall>c. p' = Some c \<longrightarrow> locks_free c" "p' = None \<longleftrightarrow> p = None"
proof (cases p)
  case None
  then show ?thesis by (intro that [of None "[]" None]) (simp_all add: add_pinhole_def)
next
  case (Some c)
  then have "locks_free c" using assms by simp
  from Add_returns [OF this, of "net6 (WithTimeout ctx pinholeTimeout)" t protocol ip timeout]
  obtain r evs c' where "AddPortMapping (net6 (WithTimeout ctx pinholeTimeout)) t protocol ip timeout c =
      Some (r, evs, c')" "locks_free c'" .
  with Some show ?thesis by (intro that [of "err_of r" evs "Some c'"]) (simp_all add: add_pinhole_def)
qed

lemma delete_pinhole_returns:
  assumes "\<forall>c. p = Some c \<longrightarrow> locks_free c"
  obtains e evs p' where "delete_pinhole net6 ctx t protocol ip p = Some (e, evs, p')"
    "\<forall>c. p' = Some c \<longrightarrow> locks_free c" "p' = None \<longleftrightarrow> p = None"
proof (cases p)
  case None
  then show ?thesis by (intro that [of None "[]" None]) (simp_all add: delete_pinhole_def)
next
  case (Some c)
  then have "locks_free c" using assms by simp
  from Delete_returns [OF this, of "net6 (WithTimeout ctx pinholeTimeout)" t protocol ip]
  obtain r evs c' where "DeletePortMapping (net6 (WithTimeout ctx pinholeTimeout)) t protocol ip c =
      Some (r, evs, c')" "locks_free c'" .
  with Some show ?thesis by (intro that [of r evs "Some c'"]) (simp_all add: delete_pinhole_def)
qed

lemma NAT_Add_returns:
  assumes "nat_ok n"
  shows "\<exists>r evs evs6 n'. NAT_AddPortMapping net4 net6 netr ctx t t6 protocol ip descr timeout n =
           Some (r, evs, evs6, n') \<and> nat_ok n'"
proof (cases "n_client n")
  case None
  then obtain c6 where c6: "n_client6 n = Some c6" "locks_free c6"
    using assms by (auto simp: nat_ok_def)
  from Add_returns [OF c6(2), of "net6 ctx" t protocol ip timeout]
  obtain r evs c' where "AddPortMapping (net6 ctx) t protocol ip timeout c6 = Some (r, evs, c')"
    "locks_free c'" .
  with None c6 show ?thesis
    by (cases r) (simp_all add: NAT_AddPortMapping_def ptr_AddPortMapping_def nat_ok_def Let_def)
next
  case (Some c)
  then have free: "locks_free c" "\<forall>c. n_client6 n = Some c \<longrightarrow> locks_free c"
    using assms by (auto simp: nat_ok_def)
  from add_pinhole_returns [OF free(2), of net6 ctx t6 protocol ip timeout]
  obtain e6 evs6 p where 6: "add_pinhole net6 ctx t6 protocol ip timeout (n_client6 n) = Some (e6, evs6, p)"
    "\<forall>c. p = Some c \<longrightarrow> locks_free c" .
  from Add_returns [OF free(1), of "net4 ctx" t protocol ip timeout]
  obtain r evs c' where 4: "AddPortMapping (net4 ctx) t protocol ip timeout c = Some (r, evs, c')"
    "locks_free c'" .
  show ?thesis
  proof (cases "\<exists>err c6. r = Inl err \<and> e6 = None \<and> p = Some c6")
    case True
    then obtain err c6 where r: "r = Inl err" "e6 = None" "p = Some c6" by blast
    then have "locks_free c6" using 6 by simp
    from Delete_returns [OF this, of "netr (WithTimeout (WithoutCancel ctx) pinholeTimeout)" t protocol ip]
    obtain re evsr c6' where "DeletePortMapping (netr (WithTimeout (WithoutCancel ctx) pinholeTimeout)) t
        protocol ip c6 = Some (re, evsr, c6')" "locks_free c6'" .
    with Some 6 4 r show ?thesis
      by (simp add: NAT_AddPortMapping_def rollbackPinhole_def nat_ok_def Let_def)
  next
    case False
    with Some 6 4 show ?thesis
      by (auto simp: NAT_AddPortMapping_def nat_ok_def Let_def split: sum.split option.split)
  qed
qed

lemma NAT_Delete_returns:
  assumes "nat_ok n"
  shows "\<exists>r evs evs6 n'. NAT_DeletePortMapping net4 net6 ctx t t6 protocol ip n =
           Some (r, evs, evs6, n') \<and> nat_ok n'"
proof (cases "n_client n")
  case None
  then obtain c6 where c6: "n_client6 n = Some c6" "locks_free c6"
    using assms by (auto simp: nat_ok_def)
  from Delete_returns [OF c6(2), of "net6 ctx" t protocol ip]
  obtain r evs c' where "DeletePortMapping (net6 ctx) t protocol ip c6 = Some (r, evs, c')"
    "locks_free c'" .
  with None c6 show ?thesis
    by (simp add: NAT_DeletePortMapping_def ptr_DeletePortMapping_def nat_ok_def Let_def)
next
  case (Some c)
  then have free: "locks_free c" "\<forall>c. n_client6 n = Some c \<longrightarrow> locks_free c"
    using assms by (auto simp: nat_ok_def)
  from delete_pinhole_returns [OF free(2), of net6 ctx t6 protocol ip]
  obtain e6 evs6 p where 6: "delete_pinhole net6 ctx t6 protocol ip (n_client6 n) = Some (e6, evs6, p)"
    "\<forall>c. p = Some c \<longrightarrow> locks_free c" .
  from Delete_returns [OF free(1), of "net4 ctx" t protocol ip]
  obtain r evs c' where 4: "DeletePortMapping (net4 ctx) t protocol ip c = Some (r, evs, c')"
    "locks_free c'" .
  from Some 6 4 show ?thesis
    by (simp add: NAT_DeletePortMapping_def nat_ok_def Let_def)
qed

lemma NewClient_free [simp]: "locks_free (NewClient gateway)"
  by (simp add: locks_free_def NewClient_def NewClientWithTimeout_def zero_client_def split: option.split)

lemma NewClient_nonces [simp]: "c_nonces (NewClient gateway) = Map.empty"
  by (simp add: NewClient_def NewClientWithTimeout_def zero_client_def split: option.split)

lemma locks_free_update [simp]:
  "locks_free (SetLocalIP ip c) \<longleftrightarrow> locks_free c"
  "locks_free (c\<lparr>c_gateway := g\<rparr>) \<longleftrightarrow> locks_free c"
  "locks_free (snd (snd (Announce io c))) \<longleftrightarrow> locks_free c"
  by (simp_all add: locks_free_def)

lemma AnnounceD:
  assumes "Announce io c = (r, evs, c')"
  shows "c_gateway c' = c_gateway c" and "c_localIP c' = c_localIP c"
    and "locks_free c' \<longleftrightarrow> locks_free c" and "c_nonces c' = c_nonces c"
  using Announce_frame [of io c] locks_free_update(3) [of io c] assms by simp_all

lemma discoverPCPIPv4_Inr:
  assumes "discoverPCPIPv4 gds net4 ctx = (Inr n, evs)"
  obtains c gateway localIP where "n = zero_nat\<lparr>n_client := Some c\<rparr>" "locks_free c"
    "gd_Discover gds ctx = Inr (gateway, localIP)" "c_gateway c = c_gateway (NewClient gateway)"
    "c_nonces c = Map.empty"
proof -
  from assms obtain gateway localIP r c where
    "gd_Discover gds ctx = Inr (gateway, localIP)" "n = zero_nat\<lparr>n_client := Some c\<rparr>"
    "Announce (net4 ctx) (SetLocalIP localIP (NewClient gateway)) = (r, evs, c)"
    by (auto simp: discoverPCPIPv4_def NewNAT_def Let_def zero_nat_def split: sum.splits prod.splits)
  with AnnounceD(1,3,4) [OF this(3)] NewClient_nonces [of gateway] show ?thesis by (intro that [of c gateway localIP]) auto
qed

lemma discoverPCPIPv6_Inr:
  assumes "discoverPCPIPv6 gds net6 ctx = (Inr c, evs)"
  obtains gateway localIP zone where "gd_DiscoverV6 gds ctx = Inr (gateway, localIP, zone)"
    "c_gateway c = (if zone \<noteq> [] then addr_WithZone (c_gateway (NewClient gateway)) zone
                    else c_gateway (NewClient gateway))"
    "locks_free c"
proof -
  define cl where "cl = (\<lambda>gateway zone. if zone \<noteq> []
      then NewClient gateway\<lparr>c_gateway := addr_WithZone (c_gateway (NewClient gateway)) zone\<rparr>
      else NewClient gateway)"
  from assms obtain gateway localIP zone r where
    g: "gd_DiscoverV6 gds ctx = Inr (gateway, localIP, zone)"
    and a: "Announce (net6 ctx) (SetLocalIP localIP (cl gateway zone)) = (r, evs, c)"
    by (auto simp: discoverPCPIPv6_def Let_def cl_def split: sum.splits prod.splits)
  from a have "c_gateway c = c_gateway (cl gateway zone)" "locks_free c = locks_free (cl gateway zone)"
    using AnnounceD(1,3) [OF a] by simp_all
  with g show ?thesis by (intro that) (auto simp: cl_def)
qed

lemma discoverPCP_Inr:
  assumes "discoverPCP gds net4 net6 ctx = (Inr n, evs, evs6)"
  shows "nat_ok n"
proof -
  obtain v6 e6 result e4 where v: "discoverPCPIPv6 gds net6 ctx = (v6, e6)"
    "discoverPCPIPv4 gds net4 ctx = (result, e4)" by fastforce
  show ?thesis
  proof (cases result; cases v6)
    fix v4Err c6 assume "result = Inl v4Err" "v6 = Inr c6"
    with v assms show ?thesis
      by (auto simp: discoverPCP_def nat_ok_def zero_nat_def elim: discoverPCPIPv6_Inr)
  next
    fix m v6Err assume "result = Inr m" "v6 = Inl v6Err"
    with v assms show ?thesis
      by (auto simp: discoverPCP_def nat_ok_def zero_nat_def elim!: discoverPCPIPv4_Inr)
  next
    fix m c6 assume r: "result = Inr m" "v6 = Inr c6"
    then have "locks_free c6" using v(1) by (auto elim: discoverPCPIPv6_Inr)
    with v r assms show ?thesis
      by (auto simp: discoverPCP_def nat_ok_def zero_nat_def elim!: discoverPCPIPv4_Inr)
  qed (use v assms in \<open>simp add: discoverPCP_def\<close>)
qed

text \<open>The other operations keep a NAT operational.\<close>

lemma set_primary_ok:
  "nat_ok n \<Longrightarrow> locks_free c \<Longrightarrow> nat_ok (set_primary c n)"
  by (auto simp: nat_ok_def set_primary_def)

lemma primary_ok: "nat_ok n \<Longrightarrow> \<exists>c. primary n = Inr c \<and> locks_free c"
  by (auto simp: nat_ok_def primary_def split: option.split)

lemma announce_and_check_free:
  assumes "announce_and_check io c = (r, lost, evs, c')"
  shows "locks_free c' \<longleftrightarrow> locks_free c"
proof -
  obtain r1 evs1 c1 where a: "Announce io c = (r1, evs1, c1)" by (cases "Announce io c") auto
  have "locks_free (c1\<lparr>c_epochStateLost := b\<rparr>) \<longleftrightarrow> locks_free c1" for b by (simp add: locks_free_def)
  with assms a AnnounceD(3) [OF a] show ?thesis
    by (auto simp: announce_and_check_def EpochStateLost_def split: sum.splits)
qed

lemma NAT_GetExternal_returns:
  assumes "nat_ok n"
  shows "\<exists>r evs n'. NAT_GetExternalAddress net_add net_del t ns n = Some (r, evs, n') \<and> nat_ok n'"
proof -
  obtain c where c: "primary n = Inr c" "locks_free c" using primary_ok [OF assms] by blast
  from client_calls_end(4) [OF c(2)] obtain r evs c' where
    "GetExternalAddress (net_add (WithTimeout Background externalAddressTimeout))
      (net_del (WithTimeout Background externalAddressTimeout)) t ns c = Some (r, evs, c')" "locks_free c'"
    by blast
  with c set_primary_ok [OF assms] show ?thesis by (simp add: NAT_GetExternalAddress_def Let_def)
qed

lemma CheckServerHealth_ok:
  assumes "nat_ok n"
  shows "nat_ok (snd (snd (snd (CheckServerHealth net4 net6 ctx n))))"
proof -
  obtain c where c: "primary n = Inr c" "locks_free c" using primary_ok [OF assms] by blast
  obtain r restarted evs c' where a: "announce_and_check (net4 ctx) c = (r, restarted, evs, c')"
    by (cases "announce_and_check (net4 ctx) c") auto
  have free: "locks_free c'" using announce_and_check_free [OF a] c by simp
  obtain r6 restarted6 evs6 c6 where a6: "announce_and_check (net6 (WithTimeout ctx pinholeTimeout))
      (the (n_client6 n)) = (r6, restarted6, evs6, c6)"
    by (cases "announce_and_check (net6 (WithTimeout ctx pinholeTimeout)) (the (n_client6 n))") auto
  show ?thesis
  proof (cases "n_client6 n \<noteq> None \<and> n_client n \<noteq> None")
    case True
    then have "locks_free c6" using announce_and_check_free [OF a6] assms by (auto simp: nat_ok_def)
    with True free have "nat_ok (set_primary c' n\<lparr>n_client6 := Some c6\<rparr>)"
      by (auto simp: nat_ok_def set_primary_def)
    with True a a6 c show ?thesis
      by (simp add: CheckServerHealth_def Let_def split: sum.split)
  next
    case False
    with a c set_primary_ok [OF assms free] show ?thesis
      by (auto simp: CheckServerHealth_def split: sum.split)
  qed
qed

section \<open>Properties\<close>

text \<open>A NAT after any calls, in any order and on any network.\<close>

inductive used :: "pcp_nat \<Rightarrow> pcp_nat \<Rightarrow> bool" where
  used_refl: "used n n"
| used_add: "used n m \<Longrightarrow>
     NAT_AddPortMapping net4 net6 netr ctx t t6 protocol ip descr timeout m = Some (r, evs, evs6, m') \<Longrightarrow>
     used n m'"
| used_delete: "used n m \<Longrightarrow>
     NAT_DeletePortMapping net4 net6 ctx t t6 protocol ip m = Some (e, evs, evs6, m') \<Longrightarrow> used n m'"
| used_external: "used n m \<Longrightarrow>
     NAT_GetExternalAddress net_add net_del t ns m = Some (r, evs, m') \<Longrightarrow> used n m'"
| used_health: "used n m \<Longrightarrow>
     CheckServerHealth net4 net6 ctx m = (r, evs, evs6, m') \<Longrightarrow> used n m'"

lemma used_ok: "used n m \<Longrightarrow> nat_ok n \<Longrightarrow> nat_ok m"
proof (induction rule: used.induct)
  case (used_add n m net4 net6 netr ctx t t6 protocol ip descr timeout r evs evs6 m')
  with NAT_Add_returns [of m net4 net6 netr ctx t t6 protocol ip descr timeout] show ?case by auto
next
  case (used_delete n m net4 net6 ctx t t6 protocol ip e evs evs6 m')
  with NAT_Delete_returns [of m net4 net6 ctx t t6 protocol ip] show ?case by auto
next
  case (used_external n m net_add net_del t ns r evs m')
  with NAT_GetExternal_returns [of m net_add net_del t ns] show ?case by auto
next
  case (used_health n m net4 net6 ctx r evs evs6 m')
  with CheckServerHealth_ok [of m net4 net6 ctx] show ?case by auto
qed

text \<open>
  C37. A discovered NAT works: discovery that succeeds yields at least one client, and however the
  NAT was used since, every operation returns on every network; none dereferences a nil client or
  waits for a lock nobody releases.
\<close>

theorem discovered_nat_operates:
  assumes "discoverPCP gds net4 net6 ctx = (Inr n0, evs, evs6)" and "used n0 n"
  shows "(n_client n \<noteq> None \<or> n_client6 n \<noteq> None) \<and> (\<exists>c. primary n = Inr c)
    \<and> NAT_AddPortMapping net4' net6' netr ctx' t t6 protocol ip descr timeout n \<noteq> None
    \<and> NAT_DeletePortMapping net4' net6' ctx' t t6 protocol ip n \<noteq> None
    \<and> NAT_GetExternalAddress net4' net6' t ns n \<noteq> None"
proof -
  have ok: "nat_ok n" using used_ok [OF assms(2)] discoverPCP_Inr [OF assms(1)] by blast
  then have "n_client n \<noteq> None \<or> n_client6 n \<noteq> None" by (simp add: nat_ok_def)
  with primary_ok [OF ok] NAT_Add_returns [OF ok, of net4' net6' netr ctx' t t6 protocol ip descr timeout]
    NAT_Delete_returns [OF ok, of net4' net6' ctx' t t6 protocol ip]
    NAT_GetExternal_returns [OF ok, of net4' net6' t ns]
  show ?thesis by auto
qed

text \<open>A home network: its routing table, and a gateway that answers announcements.\<close>

definition home_router :: router where
  "home_router dst = (if length dst = 16 \<and> dst \<noteq> net_IPv4 0 0 0 1
     then Inr (Some ''eth0'', Some [0xFE, 0x80, 0, 0, 0, 0, 0, 0, 0, 0, 0, 0, 0, 0, 0, 1], Some [0x20, 1, 0xD, 0xB8, 0, 0, 0, 0, 0, 0, 0, 0, 0, 0, 0, 2])
     else Inr (Some ''eth0'', Some [192, 168, 1, 1], Some [192, 168, 1, 2]))"

definition home :: discoverer where
  "home = default_discoverer ''linux'' (Inr home_router) (\<lambda>_. None)"

definition announcing_env :: "net_ip \<Rightarrow> net_env" where
  "announcing_env ip ctx = \<lparr>ci_fresh = Inr 7, ci_send = silent_io\<lparr>s_once := \<lambda>_. silent_once\<lparr>io_read :=
     \<lambda>_. Inr \<lparr>dg_IP = ip, dg_Port = 5351, dg_Data = [2, 0x80, 0, 0, 0, 0, 0, 0, 0, 0, 0, 100] @ replicate 12 0\<rparr>\<rparr>\<rparr>,
     ci_now = 0, ci_oob = oob_amd64\<rparr>"

definition silent_env :: net_env where
  "silent_env ctx = failing_io 7"

lemma announcing_Announce:
  assumes "addr_IsValid (c_localIP c)" and "addr_IsValid (c_gateway c)"
    and "addr_AsSlice (c_gateway c) = ip"
  shows "\<exists>evs c'. Announce (announcing_env ip ctx) c = (Inr 100, evs, c')"
proof -
  have p: "parseResponse ([2, 0x80, 0, 0, 0, 0, 0, 0, 0, 0, 0, 100] @ replicate 12 0) =
      Inr \<lparr>r_Version = 2, r_Opcode = 0x80, r_ResultCode = 0, r_Lifetime = 0, r_Epoch = 100\<rparr>"
    by (simp add: parseResponse_def Let_def size_consts op_consts slice_of_def get_be_def be_nat_def)
  have "\<exists>evs. sendRequest (ci_send (announcing_env ip ctx)) req c =
      (Inr ([2, 0x80, 0, 0, 0, 0, 0, 0, 0, 0, 0, 100] @ replicate 12 0), evs)" for req
    using assms
    by (simp add: announcing_env_def sendRequest_def send_attempts.simps [of _ _ _ _ 0] maxRetries_def
        sendOnce_def silent_once_def Let_def ip_Equal_def gateway_udp_def responseBufferSize_def)
  then obtain evs where "sendRequest (ci_send (announcing_env ip ctx)) (buildAnnounceRequest (c_localIP c)) c =
      (Inr ([2, 0x80, 0, 0, 0, 0, 0, 0, 0, 0, 0, 100] @ replicate 12 0), evs)" by blast
  with assms(1) p show ?thesis
    by (simp add: Announce_def getLocalIP_def Let_def ResultSuccess_def del: append.simps)
qed

lemma silent_Announce:
  "\<exists>e evs. Announce (silent_env ctx) (client_v4\<lparr>c_epochStateLost := b\<rparr>) =
     (Inl e, evs, client_v4\<lparr>c_epochStateLost := b\<rparr>)"
proof -
  let ?req = "buildAnnounceRequest (Addr4 0xC0A80102)" and ?c = "client_v4\<lparr>c_epochStateLost := b\<rparr>"
  have "sendRequest silent_io ?req ?c = sendRequest silent_io ?req client_v4" by (rule sendRequest_cong) simp_all
  then have "fst (sendRequest (ci_send (silent_env ctx)) ?req ?c) =
      Inl (request_failed (Some (Errorf ''read: %w'' [AErr (ExtErr ''i/o timeout'')])))"
    by (simp add: silent_env_def failing_io_def silent_request_fails)
  then obtain e evs where "sendRequest (ci_send (silent_env ctx)) ?req ?c = (Inl e, evs)"
    by (cases "sendRequest (ci_send (silent_env ctx)) ?req ?c") simp
  then show ?thesis by (simp add: Announce_def getLocalIP_def)
qed

lemma home_discover:
  "gd_Discover home ctx = Inr ([192, 168, 1, 1], [192, 168, 1, 2])"
  "gd_DiscoverV6 home ctx =
     Inr ([0xFE, 0x80, 0, 0, 0, 0, 0, 0, 0, 0, 0, 0, 0, 0, 0, 1],
       [0x20, 1, 0xD, 0xB8, 0, 0, 0, 0, 0, 0, 0, 0, 0, 0, 0, 2], ''eth0'')"
  by (simp_all add: home_def default_discoverer_def Discover_def DiscoverV6_def home_router_def
      defaultRouteProbe4_def defaultRouteProbe6_def net_IPv4_def v4InV6Prefix_def
      ip_IsLinkLocalUnicast_def ip_To4_def slice_of_def)

text \<open>The IPv6 gateway answers, which is enough for a NAT.\<close>

lemma home_v6:
  "\<exists>c evs. discoverPCPIPv6 home (announcing_env [0xFE, 0x80, 0, 0, 0, 0, 0, 0, 0, 0, 0, 0, 0, 0, 0, 1]) ctx
     = (Inr c, evs) \<and> c_gateway c = Addr6 0xFE800000000000000000000000000001 ''eth0''"
proof -
  let ?gw = "[0xFE, 0x80, 0, 0, 0, 0, 0, 0, 0, 0, 0, 0, 0, 0, 0, 1] :: net_ip"
  let ?c = "SetLocalIP [0x20, 1, 0xD, 0xB8, 0, 0, 0, 0, 0, 0, 0, 0, 0, 0, 0, 2]
      (NewClient ?gw\<lparr>c_gateway := addr_WithZone (c_gateway (NewClient ?gw)) ''eth0''\<rparr>)"
  have gw: "c_gateway ?c = Addr6 0xFE800000000000000000000000000001 ''eth0''"
    by (simp add: NewClient_def NewClientWithTimeout_def zero_client_def AddrFromSlice_def
        AddrFrom16_def addr_Unmap_def addr_WithZone_def addr_Is4In6_def get_be_def be_nat_def)
  have ip: "addr_IsValid (c_localIP ?c)"
    by (simp add: SetLocalIP_def AddrFromSlice_def AddrFrom16_def addr_defs)
  have sl: "addr_AsSlice (c_gateway ?c) = ?gw"
    unfolding gw by (simp add: addr_defs put_be_def)
  have "addr_IsValid (c_gateway ?c)" unfolding gw by (simp add: addr_defs)
  then obtain evs c where a: "Announce (announcing_env ?gw ctx) ?c = (Inr 100, evs, c)"
    using announcing_Announce [OF ip _ sl, of ctx] by blast
  then have "discoverPCPIPv6 home (announcing_env ?gw) ctx = (Inr c, evs)"
    by (simp add: discoverPCPIPv6_def home_discover Let_def)
  moreover have "c_gateway c = Addr6 0xFE800000000000000000000000000001 ''eth0''"
    using AnnounceD(1) [OF a] gw by simp
  ultimately show ?thesis by blast
qed

lemma home_discovered:
  "\<exists>n evs evs6. discoverPCP home silent_env
     (announcing_env [0xFE, 0x80, 0, 0, 0, 0, 0, 0, 0, 0, 0, 0, 0, 0, 0, 1]) Caller = (Inr n, evs, evs6)"
proof -
  obtain c e6 where "discoverPCPIPv6 home
      (announcing_env [0xFE, 0x80, 0, 0, 0, 0, 0, 0, 0, 0, 0, 0, 0, 0, 0, 1]) Caller = (Inr c, e6)"
    using home_v6 by blast
  moreover obtain r e4 where "discoverPCPIPv4 home silent_env Caller = (r, e4)" by fastforce
  ultimately show ?thesis by (cases r) (simp_all add: discoverPCP_def)
qed

theorem discovered_nat_operates_witness:
  "\<exists>n evs evs6. discoverPCP home silent_env
     (announcing_env [0xFE, 0x80, 0, 0, 0, 0, 0, 0, 0, 0, 0, 0, 0, 0, 0, 1]) Caller = (Inr n, evs, evs6) \<and>
     NAT_AddPortMapping silent_env silent_env silent_env Caller 0 1 ''udp'' 51820 [] second n \<noteq> None"
proof -
  obtain n evs evs6 where d: "discoverPCP home silent_env
     (announcing_env [0xFE, 0x80, 0, 0, 0, 0, 0, 0, 0, 0, 0, 0, 0, 0, 0, 1]) Caller = (Inr n, evs, evs6)"
    using home_discovered by blast
  from discovered_nat_operates [OF d used_refl] d show ?thesis by blast
qed

text \<open>
  The client that IPv6 discovery returns speaks to the routing table's gateway: its packets go to
  port 5351 of the 16-byte gateway address, scoped to the interface of the route exactly when the
  gateway is link-local.
\<close>

theorem discovered_v6_addressing:
  assumes "discoverPCPIPv6 (default_discoverer goos (Inr router) ctx_err) net6 ctx = (Inr c, evs)"
    and "router (defaultRouteProbe6 goos) = Inr (Some ifname, Some gateway, src)"
    and "length gateway = 16" and "\<not> addr_Is4In6 (AddrFrom16 gateway)"
  shows "gateway_udp c = \<lparr>ua_IP = gateway, ua_Port = 5351,
           ua_Zone = (if ip_IsLinkLocalUnicast gateway then ifname else [])\<rparr>"
  using assms(1)
proof (cases rule: discoverPCPIPv6_Inr)
  case (1 gw localIP zone)
  have g: "gw = gateway" "zone = (if ip_IsLinkLocalUnicast gateway then ifname else [])"
    using 1(1) assms(2) by (auto simp: default_discoverer_def DiscoverV6_Inr_iff)
  have "c_gateway (NewClient gateway) = Addr6 (get_be gateway) []"
    using assms(3,4)
    by (auto simp: NewClient_def NewClientWithTimeout_def zero_client_def AddrFromSlice_def
        AddrFrom16_def addr_Unmap_def)
  then have "c_gateway c = Addr6 (get_be gateway) zone"
    using 1(2) g by (simp add: addr_WithZone_def)
  moreover have "put_be 16 (get_be gateway :: 128 word) = gateway"
    using assms(3) by (simp add: put_get_be_n)
  ultimately show ?thesis
    by (simp add: gateway_udp_def addr_AsSlice_def addr_Zone_def Port_def g(2))
qed

theorem discovered_v6_addressing_witness:
  "\<exists>c evs. discoverPCPIPv6 home (announcing_env [0xFE, 0x80, 0, 0, 0, 0, 0, 0, 0, 0, 0, 0, 0, 0, 0, 1]) Caller
     = (Inr c, evs) \<and>
     gateway_udp c = \<lparr>ua_IP = [0xFE, 0x80, 0, 0, 0, 0, 0, 0, 0, 0, 0, 0, 0, 0, 0, 1], ua_Port = 5351,
       ua_Zone = ''eth0''\<rparr>"
proof -
  let ?gw = "[0xFE, 0x80, 0, 0, 0, 0, 0, 0, 0, 0, 0, 0, 0, 0, 0, 1] :: net_ip"
  obtain c evs where d: "discoverPCPIPv6 home (announcing_env ?gw) Caller = (Inr c, evs)"
    using home_v6 by blast
  have r: "home_router (defaultRouteProbe6 ''linux'') = Inr (Some ''eth0'', Some ?gw,
      Some [0x20, 1, 0xD, 0xB8, 0, 0, 0, 0, 0, 0, 0, 0, 0, 0, 0, 2])"
    by (simp add: home_router_def defaultRouteProbe6_def net_IPv4_def v4InV6Prefix_def)
  have "gateway_udp c = \<lparr>ua_IP = ?gw, ua_Port = 5351, ua_Zone = ''eth0''\<rparr>"
    using discovered_v6_addressing [OF d [unfolded home_def] r]
    by (simp add: addr_Is4In6_def AddrFrom16_def get_be_def be_nat_def ip_IsLinkLocalUnicast_def
        ip_To4_def slice_of_def v4InV6Prefix_def)
  with d show ?thesis by blast
qed

section \<open>What a dual-stack call is made of\<close>

lemma NAT_Add_cases:
  assumes "NAT_AddPortMapping net4 net6 netr ctx t t6 protocol ip descr timeout n = Some (r, evs, evs6, n')"
    and "n_client n = Some c"
  obtains e6 ev6 p r4 c' where
    "add_pinhole net6 ctx t6 protocol ip timeout (n_client6 n) = Some (e6, ev6, p)"
    "AddPortMapping (net4 ctx) t protocol ip timeout c = Some (r4, evs, c')"
    "n_client n' = Some c'"
    "r = (case r4 of Inl err \<Rightarrow> Inl (Errorf ''add mapping: %w'' [AErr err])
          | Inr m \<Rightarrow> Inr (uint (ExternalPort m)))"
    "if (\<exists>err. r4 = Inl err) \<and> e6 = None \<and> p \<noteq> None
     then \<exists>c6 re evr c6'. p = Some c6 \<and>
       rollbackPinhole netr ctx t protocol ip c6 = Some (re, evr, c6') \<and> n_client6 n' = Some c6' \<and>
       n_pinholeErr n' = Some (Errorf ''pcp ipv6: %w'' [AErr (case re of None \<Rightarrow> errPinholeRolledBack
         | Some e \<Rightarrow> Errorf ''%w: %w'' [AErr errPinholeLeftOpen, AErr e])])
     else n_client6 n' = p \<and>
       n_pinholeErr n' = map_option (\<lambda>err. Errorf ''pcp ipv6: %w'' [AErr err]) e6"
proof -
  from assms obtain e6 ev6 p r4 ev4 c' where
    6: "add_pinhole net6 ctx t6 protocol ip timeout (n_client6 n) = Some (e6, ev6, p)"
    and 4: "AddPortMapping (net4 ctx) t protocol ip timeout c = Some (r4, ev4, c')"
    by (auto simp: NAT_AddPortMapping_def bind_eq_Some_conv)
  show ?thesis
  proof (cases "(\<exists>err. r4 = Inl err) \<and> e6 = None \<and> p \<noteq> None")
    case True
    then obtain err c6 where t: "r4 = Inl err" "e6 = None" "p = Some c6" by auto
    show ?thesis
      by (rule that [OF 6, of r4 c'])
        (use assms 6 4 t in \<open>auto simp: NAT_AddPortMapping_def Let_def bind_eq_Some_conv\<close>)
  next
    case False
    show ?thesis
      by (rule that [OF 6, of r4 c'])
        (use assms 6 4 False in \<open>auto simp: NAT_AddPortMapping_def Let_def bind_eq_Some_conv
          split: sum.splits option.splits\<close>)
  qed
qed

lemma NAT_Add_v4:
  assumes "NAT_AddPortMapping net4 net6 netr ctx t t6 protocol ip descr timeout n = Some (r, evs, evs6, n')"
    and "n_client n = Some c"
  shows "\<exists>r4 c'. AddPortMapping (net4 ctx) t protocol ip timeout c = Some (r4, evs, c') \<and>
    n_client n' = Some c' \<and>
    r = (case r4 of Inl err \<Rightarrow> Inl (Errorf ''add mapping: %w'' [AErr err])
         | Inr m \<Rightarrow> Inr (uint (ExternalPort m)))"
  by (rule NAT_Add_cases [OF assms], intro exI conjI)

lemma NAT_Delete_cases:
  assumes "NAT_DeletePortMapping net4 net6 ctx t t6 protocol ip n = Some (r, evs, evs6, n')"
    and "n_client n = Some c"
  obtains e6 p r4 c' where
    "delete_pinhole net6 ctx t6 protocol ip (n_client6 n) = Some (e6, evs6, p)"
    "DeletePortMapping (net4 ctx) t protocol ip c = Some (r4, evs, c')"
    "n_client n' = Some c'" "n_client6 n' = p"
    "r = map_option (\<lambda>err. Errorf ''delete mapping: %w'' [AErr err]) r4"
    "n_pinholeErr n' = map_option (\<lambda>err. Errorf ''pcp ipv6: %w'' [AErr err]) e6"
  using assms by (auto simp: NAT_DeletePortMapping_def bind_eq_Some_conv Let_def)

text \<open>
  Pinholes are best effort: on a NAT with an IPv4 client the result of adding or deleting a
  mapping, its IPv4 packets and the IPv4 client afterwards are the same whatever the IPv6 client, the
  IPv6 network and the rollback do.
\<close>

theorem pinhole_never_affects_ipv4:
  assumes "n_client n = Some c" and "n_client m = Some c"
    and "NAT_AddPortMapping net4 net6 netr ctx t t6 protocol ip descr timeout n = Some (r, evs, evs6, n')"
    and "NAT_AddPortMapping net4 net6' netr' ctx t t6' protocol ip descr timeout m = Some (r', evs', evs6', m')"
    and "NAT_DeletePortMapping net4 net6 ctx t t6 protocol ip n = Some (d, dvs, dvs6, dn)"
    and "NAT_DeletePortMapping net4 net6' ctx t t6' protocol ip m = Some (d', dvs', dvs6', dm)"
  shows "r = r' \<and> evs = evs' \<and> n_client n' = n_client m' \<and>
         d = d' \<and> dvs = dvs' \<and> n_client dn = n_client dm"
proof -
  note a = NAT_Add_v4 [OF assms(3,1)] and b = NAT_Add_v4 [OF assms(4,2)]
  have "r = r' \<and> evs = evs' \<and> n_client n' = n_client m'"
    using a b by auto
  moreover have "d = d' \<and> dvs = dvs' \<and> n_client dn = n_client dm"
    by (rule NAT_Delete_cases [OF assms(5,1)], rule NAT_Delete_cases [OF assms(6,2)]) simp
  ultimately show ?thesis by blast
qed

lemma rollback_nonces:
  assumes "AddPortMapping io t6 protocol ip timeout c6 = Some (Inr m, evs, c)"
    and "rollbackPinhole netr ctx t protocol ip c = Some (re, evr, c')"
  shows "case re of
      None \<Rightarrow> c_nonces c' \<lparr>mk_proto = Protocol m, mk_port = InternalPort m\<rparr> = None
    | Some e \<Rightarrow> c_nonces c' = c_nonces c"
proof -
  obtain rd where
    d: "addPortMappingWithHint (netr (WithTimeout (WithoutCancel ctx) pinholeTimeout)) t protocol ip 0 NoAddr 0 c
      = Some (rd, evr, c')" "re = (case rd of Inl e \<Rightarrow> Some (Errorf ''delete mapping: %w'' [AErr e]) | Inr _ \<Rightarrow> None)"
    using assms(2) by (auto simp: rollbackPinhole_def DeletePortMapping_def Let_def split: option.splits sum.splits)
  show ?thesis
  proof (cases rd)
    case (Inl e)
    with d call_failure(1) show ?thesis by simp
  next
    case (Inr m')
    have "Protocol m' = Protocol m" "InternalPort m' = InternalPort m"
      using call_success(1,2) [OF d(1) [unfolded Inr]] call_success(1,2) [OF assms(1) [unfolded AddPortMapping_def]] by auto
    with Inr d(2) call_success(3) [OF d(1) [unfolded Inr]] show ?thesis by simp
  qed
qed

text \<open>
  C6. A failed mapping never leaves a pinhole open in silence. When the IPv4 mapping fails although
  the IPv6 client opened its pinhole, either the pinhole is closed again, its nonce is gone and the
  reported error says so, or the rollback failed, the nonce is kept for a later delete and the
  reported error says that it was left open. When the pinhole had failed, that error is reported.
\<close>

theorem failed_mapping_rolls_back:
  assumes "n_client n = Some c" and "n_client6 n = Some c6"
    and "NAT_AddPortMapping net4 net6 netr ctx t t6 protocol ip descr timeout n = Some (Inl err, evs, evs6, n')"
  shows "\<exists>r6 ev6 c6a c6'. n_client6 n' = Some c6' \<and>
    AddPortMapping (net6 (WithTimeout ctx pinholeTimeout)) t6 protocol ip timeout c6 = Some (r6, ev6, c6a) \<and>
    (case r6 of
       Inl e \<Rightarrow> IPv6PinholeError n' = Some (Errorf ''pcp ipv6: %w'' [AErr e]) \<and> c6' = c6a
     | Inr m \<Rightarrow>
         (IPv6PinholeError n' = Some (Errorf ''pcp ipv6: %w'' [AErr errPinholeRolledBack]) \<and>
          c_nonces c6' \<lparr>mk_proto = Protocol m, mk_port = InternalPort m\<rparr> = None) \<or>
         (\<exists>e. IPv6PinholeError n' =
                Some (Errorf ''pcp ipv6: %w'' [AErr (Errorf ''%w: %w'' [AErr errPinholeLeftOpen, AErr e])]) \<and>
              c_nonces c6' = c_nonces c6a))"
proof (rule NAT_Add_cases [OF assms(3,1)])
  fix e6 ev6 p r4 c'
  assume add: "add_pinhole net6 ctx t6 protocol ip timeout (n_client6 n) = Some (e6, ev6, p)"
    and r: "Inl err = (case r4 of Inl err \<Rightarrow> Inl (Errorf ''add mapping: %w'' [AErr err])
          | Inr m \<Rightarrow> Inr (uint (ExternalPort m)))"
    and cases: "if (\<exists>err. r4 = Inl err) \<and> e6 = None \<and> p \<noteq> None
     then \<exists>c6 re evr c6'. p = Some c6 \<and>
       rollbackPinhole netr ctx t protocol ip c6 = Some (re, evr, c6') \<and> n_client6 n' = Some c6' \<and>
       n_pinholeErr n' = Some (Errorf ''pcp ipv6: %w'' [AErr (case re of None \<Rightarrow> errPinholeRolledBack
         | Some e \<Rightarrow> Errorf ''%w: %w'' [AErr errPinholeLeftOpen, AErr e])])
     else n_client6 n' = p \<and>
       n_pinholeErr n' = map_option (\<lambda>err. Errorf ''pcp ipv6: %w'' [AErr err]) e6"
  from add assms(2) obtain r6 c6a where
    6: "AddPortMapping (net6 (WithTimeout ctx pinholeTimeout)) t6 protocol ip timeout c6 = Some (r6, ev6, c6a)"
    "e6 = err_of r6" "p = Some c6a"
    by (auto simp: add_pinhole_def bind_eq_Some_conv)
  have r4: "\<exists>err. r4 = Inl err" using r by (cases r4) auto
  show ?thesis
  proof (cases r6)
    case (Inl e)
    with 6 cases show ?thesis by (auto simp: IPv6PinholeError_def)
  next
    case (Inr m)
    then obtain re evr c6' where
      rb: "rollbackPinhole netr ctx t protocol ip c6a = Some (re, evr, c6')" "n_client6 n' = Some c6'"
      "n_pinholeErr n' = Some (Errorf ''pcp ipv6: %w'' [AErr (case re of None \<Rightarrow> errPinholeRolledBack
         | Some e \<Rightarrow> Errorf ''%w: %w'' [AErr errPinholeLeftOpen, AErr e])])"
      using 6 cases r4 by auto
    from rollback_nonces [OF 6(1) [unfolded Inr] rb(1)] rb 6(1) Inr show ?thesis
      by (cases re) (auto simp: IPv6PinholeError_def)
  qed
qed

text \<open>A NAT with two clients, for the witnesses; any two clients will do.\<close>

definition dual_nat :: pcp_nat where
  "dual_nat = \<lparr>n_client = Some client_v4, n_client6 = Some client_v4, n_pinholeErr = None\<rparr>"

definition granting_env :: net_env where
  "granting_env ctx = granting_io 7"

lemma client_v4_locks_free [simp]: "locks_free client_v4"
  by (simp add: locks_free_def)

lemma dual_nat_ok: "nat_ok dual_nat" "nat_ok (dual_nat\<lparr>n_client6 := None\<rparr>)"
  by (simp_all add: dual_nat_def nat_ok_def)

theorem pinhole_never_affects_ipv4_witness:
  "\<exists>r evs evs6 evs6' n' m'.
     NAT_AddPortMapping granting_env silent_env silent_env Caller 0 1 ''udp'' 51820 [] second dual_nat
       = Some (r, evs, evs6, n') \<and>
     NAT_AddPortMapping granting_env silent_env silent_env Caller 0 1 ''udp'' 51820 [] second
       (dual_nat\<lparr>n_client6 := None\<rparr>) = Some (r, evs, evs6', m')"
proof -
  let ?m = "dual_nat\<lparr>n_client6 := None\<rparr>"
  obtain r evs evs6 n' where 1:
    "NAT_AddPortMapping granting_env silent_env silent_env Caller 0 1 ''udp'' 51820 [] second dual_nat
       = Some (r, evs, evs6, n')" using NAT_Add_returns [OF dual_nat_ok(1)] by blast
  obtain r' evs' evs6' m' where 2:
    "NAT_AddPortMapping granting_env silent_env silent_env Caller 0 1 ''udp'' 51820 [] second ?m
       = Some (r', evs', evs6', m')" using NAT_Add_returns [OF dual_nat_ok(2)] by blast
  obtain d dvs dvs6 dn where 3:
    "NAT_DeletePortMapping granting_env silent_env Caller 0 1 ''udp'' 51820 dual_nat
       = Some (d, dvs, dvs6, dn)" using NAT_Delete_returns [OF dual_nat_ok(1)] by blast
  obtain d' dvs' dvs6' dm where 4:
    "NAT_DeletePortMapping granting_env silent_env Caller 0 1 ''udp'' 51820 ?m
       = Some (d', dvs', dvs6', dm)" using NAT_Delete_returns [OF dual_nat_ok(2)] by blast
  have c: "n_client dual_nat = Some client_v4" "n_client ?m = Some client_v4"
    by (simp_all add: dual_nat_def)
  from pinhole_never_affects_ipv4 [OF c 1 2 3 4] 1 2 show ?thesis by blast
qed

theorem failed_mapping_rolls_back_witness:
  "\<exists>err evs evs6 n' e. NAT_AddPortMapping silent_env granting_env granting_env Caller 0 1 ''udp'' 51820 []
     (60 * second) dual_nat = Some (Inl err, evs, evs6, n') \<and> IPv6PinholeError n' = Some e"
proof -
  obtain r evs evs6 n' where a:
    "NAT_AddPortMapping silent_env granting_env granting_env Caller 0 1 ''udp'' 51820 [] (60 * second) dual_nat
       = Some (r, evs, evs6, n')" using NAT_Add_returns [OF dual_nat_ok(1)] by blast
  have c: "n_client dual_nat = Some client_v4" "n_client6 dual_nat = Some client_v4"
    by (simp_all add: dual_nat_def)
  obtain err where r: "r = Inl err"
    using NAT_Add_v4 [OF a c(1)] failed_51820
    by (auto simp: AddPortMapping_def silent_env_def)
  have "\<exists>e. IPv6PinholeError n' = Some e"
    using failed_mapping_rolls_back [OF c a [unfolded r]]
    by (elim exE conjE) (auto split: sum.splits)
  with a r show ?thesis by blast
qed

lemma time_limit_pinhole:
  "time_limit caller (WithTimeout Caller pinholeTimeout) =
     Some (case caller of None \<Rightarrow> pinholeTimeout | Some d \<Rightarrow> min pinholeTimeout d)"
  by (simp split: option.split)

text \<open>
  Work on pinholes is bounded in time, and the rollback survives cancellation. On a NAT with an
  IPv4 client, two IPv6 networks that answer alike under the contexts that leave at most five seconds,
  and two rollback networks that answer alike under such contexts that do not end with the caller's,
  give the same call: requests are made under no other context.
\<close>

theorem pinhole_contexts:
  assumes "n_client n = Some c"
    and "\<forall>x. (\<forall>caller. \<exists>d\<le>pinholeTimeout. time_limit caller x = Some d) \<longrightarrow> net6 x = net6' x"
    and "\<forall>x. (\<forall>caller. \<exists>d\<le>pinholeTimeout. time_limit caller x = Some d) \<and> \<not> follows_caller x
           \<longrightarrow> netr x = netr' x"
  shows "NAT_AddPortMapping net4 net6 netr ctx t t6 protocol ip descr timeout n =
           NAT_AddPortMapping net4 net6' netr' ctx t t6 protocol ip descr timeout n \<and>
         NAT_DeletePortMapping net4 net6 ctx t t6 protocol ip n =
           NAT_DeletePortMapping net4 net6' ctx t t6 protocol ip n \<and>
         CheckServerHealth net4 net6 ctx n = CheckServerHealth net4 net6' ctx n"
proof -
  have 6: "net6 (WithTimeout ctx pinholeTimeout) = net6' (WithTimeout ctx pinholeTimeout)"
    using assms(2) time_limit_WithTimeout by blast
  have r: "netr (WithTimeout (WithoutCancel ctx) pinholeTimeout) =
      netr' (WithTimeout (WithoutCancel ctx) pinholeTimeout)"
    using assms(3) time_limit_WithTimeout
    by (metis follows_caller.simps(3) follows_caller.simps(4))
  have "add_pinhole net6 ctx t6 protocol ip timeout p = add_pinhole net6' ctx t6 protocol ip timeout p"
    and "delete_pinhole net6 ctx t6 protocol ip p = delete_pinhole net6' ctx t6 protocol ip p" for p
    by (simp_all only: add_pinhole_def delete_pinhole_def 6)
  moreover have "rollbackPinhole netr ctx t protocol ip = rollbackPinhole netr' ctx t protocol ip"
    by (simp add: fun_eq_iff rollbackPinhole_def Let_def r)
  ultimately show ?thesis
    by (simp only: NAT_AddPortMapping_def NAT_DeletePortMapping_def CheckServerHealth_def assms(1)
        option.case 6 primary_def sum.case)
qed

theorem pinhole_contexts_witness:
  "CheckServerHealth silent_env silent_env Caller dual_nat =
   CheckServerHealth silent_env (\<lambda>x. if x = Background then granting_io 7 else failing_io 7) Caller dual_nat"
proof -
  have c: "n_client dual_nat = Some client_v4" by (simp add: dual_nat_def)
  have "\<forall>x. (\<forall>caller. \<exists>d\<le>pinholeTimeout. time_limit caller x = Some d) \<longrightarrow>
      silent_env x = (if x = Background then granting_io 7 else failing_io 7)"
    by (auto simp: silent_env_def)
  from pinhole_contexts [OF c this, of silent_env silent_env silent_env Caller 0 1 "''udp''" 1 "[]" 0]
  show ?thesis by simp
qed

text \<open>
  C22. The health verdict. On a dual-stack NAT the check fails exactly when neither server answers, with
  the errors of both; otherwise it reports the epoch of the IPv4 server if that answered, else the IPv6 one's, and a
  restart exactly when a server that answered lost state. The loss of a server that answered is
  thereby consumed, that of one that did not answer is kept for the next check.
\<close>

theorem health_verdict:
  assumes "n_client n = Some c" and "n_client6 n = Some c6"
    and "Announce (net4 ctx) c = (r4, evs, c')"
    and "Announce (net6 (WithTimeout ctx pinholeTimeout)) c6 = (r6, evs6, c6')"
  shows "(case fst (CheckServerHealth net4 net6 ctx n) of
            Inl err \<Rightarrow> (\<exists>e4 e6. r4 = Inl e4 \<and> r6 = Inl e6 \<and>
              err = Errorf ''announce: %w; pcp ipv6: %w'' [AErr e4, AErr e6])
          | Inr (epoch, restarted) \<Rightarrow>
              (r4 = Inr epoch \<or> (\<exists>e. r4 = Inl e) \<and> r6 = Inr epoch) \<and>
              (restarted \<longleftrightarrow> (err_of r4 = None \<and> c_epochStateLost c') \<or>
                             (err_of r6 = None \<and> c_epochStateLost c6'))) \<and>
         (let n' = snd (snd (snd (CheckServerHealth net4 net6 ctx n)))
          in map_option c_epochStateLost (n_client n') =
               Some (err_of r4 \<noteq> None \<and> c_epochStateLost c) \<and>
             map_option c_epochStateLost (n_client6 n') =
               Some (err_of r6 \<noteq> None \<and> c_epochStateLost c6))"
proof -
  have unchanged: "c2 = c1" if "Announce io c1 = (Inl e, ev, c2)" for io c1 e ev c2
    using Announce_client [of io c1] that by simp
  show ?thesis
    using assms(3,4) unchanged [of "net4 ctx" c] unchanged [of "net6 (WithTimeout ctx pinholeTimeout)" c6]
    by (cases r4; cases r6)
      (auto simp: CheckServerHealth_def primary_def assms(1,2) announce_and_check_def EpochStateLost_def
        set_primary_def Let_def)
qed

text \<open>The witness: the server that does not answer has lost state before, which is kept for the next check.\<close>

theorem health_verdict_witness:
  "\<exists>n'. CheckServerHealth (announcing_env [192, 168, 1, 1]) silent_env Caller
       (dual_nat\<lparr>n_client6 := Some (client_v4\<lparr>c_epochStateLost := True\<rparr>)\<rparr>) = (Inr (100, False), n') \<and>
     map_option c_epochStateLost (n_client (snd (snd n'))) = Some False \<and>
     map_option c_epochStateLost (n_client6 (snd (snd n'))) = Some True"
proof -
  let ?c6 = "client_v4\<lparr>c_epochStateLost := True\<rparr>"
  let ?n = "dual_nat\<lparr>n_client6 := Some (client_v4\<lparr>c_epochStateLost := True\<rparr>)\<rparr>"
  have c: "n_client ?n = Some client_v4" "n_client6 ?n = Some ?c6"
    by (simp_all add: dual_nat_def)
  obtain evs c' where 4: "Announce (announcing_env [192, 168, 1, 1] Caller) client_v4 = (Inr 100, evs, c')"
    using announcing_Announce [of client_v4 "[192, 168, 1, 1]" Caller]
    by (auto simp: addr_defs put_be_def)
  then have c': "\<not> c_epochStateLost c'"
    using Announce_client [of "announcing_env [192, 168, 1, 1] Caller" client_v4]
    by (simp add: updateEpochLocked_def Let_def)
  obtain e6 evs6 where 6: "Announce (silent_env (WithTimeout Caller pinholeTimeout)) ?c6 = (Inl e6, evs6, ?c6)"
    using silent_Announce by blast
  obtain r n' where r: "CheckServerHealth (announcing_env [192, 168, 1, 1]) silent_env Caller ?n = (r, n')" by (rule prod.exhaust)
  from health_verdict [where ?net4.0 = "announcing_env [192, 168, 1, 1]" and ?net6.0 = silent_env and ctx = Caller, OF c 4 6]
  show ?thesis
    using c' by (auto simp: r Let_def split: sum.splits)
qed
end
