(* ===== verification/Pcp_Service.thy ===== *)
theory Pcp_Service
  imports Pcp_NAT Mapping_Service
begin

text \<open>
  The PCP client and the PCP NAT as providers of mappings: what they remember is the nonce of a
  mapping, without which the server does not delete it. Both interpret the \<open>mapping_service\<close> locale.
\<close>

section \<open>The client\<close>

definition client_add ::
  "call_io \<times> nat \<Rightarrow> string \<Rightarrow> int \<Rightarrow> duration \<Rightarrow> client \<Rightarrow> (go_err option \<times> client) option" where
  "client_add x protocol port lifetime c =
     map_option (\<lambda>(r, evs, c). (err_of r, c)) (AddPortMapping (fst x) (snd x) protocol port lifetime c)"

definition client_del ::
  "call_io \<times> nat \<Rightarrow> string \<Rightarrow> int \<Rightarrow> client \<Rightarrow> (go_err option \<times> client) option" where
  "client_del x protocol port c =
     map_option (\<lambda>(e, evs, c). (e, c)) (DeletePortMapping (fst x) (snd x) protocol port c)"

definition client_tracked :: "string \<Rightarrow> int \<Rightarrow> client \<Rightarrow> bool" where
  "client_tracked protocol port c \<longleftrightarrow>
     (case protocolNumber protocol of
        Inl _ \<Rightarrow> False
      | Inr proto \<Rightarrow> c_nonces c \<lparr>mk_proto = proto, mk_port = word_of_int port\<rparr> \<noteq> None)"

definition client_same :: "string \<Rightarrow> int \<Rightarrow> string \<Rightarrow> int \<Rightarrow> bool" where
  "client_same p q p' q' \<longleftrightarrow>
     protocolNumber p = protocolNumber p' \<and> (word_of_int q :: 16 word) = word_of_int q'"

lemma client_addD:
  assumes "client_add x protocol port lifetime c = Some (e, c')"
  obtains r evs where "addPortMappingWithHint (fst x) (snd x) protocol port port NoAddr lifetime c = Some (r, evs, c')"
    "e = err_of r"
  using assms by (auto simp: client_add_def AddPortMapping_def)

lemma client_delD:
  assumes "client_del x protocol port c = Some (e, c')"
  obtains r evs where "addPortMappingWithHint (fst x) (snd x) protocol port 0 NoAddr 0 c = Some (r, evs, c')"
    "e = None \<longleftrightarrow> (\<exists>m. r = Inr m)"
  using assms by (auto simp: client_del_def DeletePortMapping_def split: option.splits sum.splits)

lemma client_add_keeps:
  assumes "client_add x protocol port lifetime c = Some (e, c')" and "0 < lifetime"
  shows "client_tracked p q c \<Longrightarrow> client_tracked p q c'"
proof (rule client_addD [OF assms(1)])
  fix r evs
  assume t: "client_tracked p q c"
    and a: "addPortMappingWithHint (fst x) (snd x) protocol port port NoAddr lifetime c = Some (r, evs, c')"
  have "c_nonces c' k \<noteq> None" if "c_nonces c k \<noteq> None" for k
  proof (cases r)
    case (Inl e)
    then show ?thesis using call_failure(2) a that by (fastforce simp: map_le_def dom_def)
  next
    case (Inr m)
    then show ?thesis
      using call_success(3,4) [OF a [unfolded Inr]] assms(2) that
      by (cases "k = \<lparr>mk_proto = Protocol m, mk_port = InternalPort m\<rparr>") simp_all
  qed
  with t show "client_tracked p q c'" by (auto simp: client_tracked_def split: sum.splits)
qed

lemma client_add_tracks:
  assumes "client_add x protocol port lifetime c = Some (None, c')" and "0 < lifetime"
  shows "client_tracked protocol port c'"
proof (rule client_addD [OF assms(1)])
  fix r evs
  assume a: "addPortMappingWithHint (fst x) (snd x) protocol port port NoAddr lifetime c = Some (r, evs, c')"
    and "None = err_of r"
  then obtain m where "r = Inr m" by (metis err_of_None_iff)
  from call_success [OF a [unfolded this]] assms(2) show ?thesis
    by (simp add: client_tracked_def)
qed

lemma client_delete_forgets:
  assumes "client_del x protocol port c = Some (None, c')"
  shows "\<not> client_tracked protocol port c'"
    and "\<not> client_same p q protocol port \<Longrightarrow> client_tracked p q c' \<longleftrightarrow> client_tracked p q c"
proof -
  have "\<not> client_tracked protocol port c' \<and>
      (\<not> client_same p q protocol port \<longrightarrow> client_tracked p q c' \<longleftrightarrow> client_tracked p q c)"
  proof (rule client_delD [OF assms])
    fix r evs
    assume a: "addPortMappingWithHint (fst x) (snd x) protocol port 0 NoAddr 0 c = Some (r, evs, c')"
      and "None = None \<longleftrightarrow> (\<exists>m. r = Inr m)"
    then obtain m where m: "r = Inr m" by blast
    note ok = call_success [OF a [unfolded m]]
    show ?thesis
      using ok(1-3) ok(4) [of "\<lparr>mk_proto = k, mk_port = word_of_int q\<rparr>" for k]
      by (auto simp: client_tracked_def client_same_def split: sum.split)
  qed
  then show "\<not> client_tracked protocol port c'"
    and "\<not> client_same p q protocol port \<Longrightarrow> client_tracked p q c' \<longleftrightarrow> client_tracked p q c" by blast+
qed

lemma client_delete_failed:
  assumes "client_del x protocol port c = Some (Some e, c')"
  shows "client_tracked p q c' \<longleftrightarrow> client_tracked p q c"
proof (rule client_delD [OF assms])
  fix r evs
  assume a: "addPortMappingWithHint (fst x) (snd x) protocol port 0 NoAddr 0 c = Some (r, evs, c')"
    and "Some e = None \<longleftrightarrow> (\<exists>m. r = Inr m)"
  then obtain err where "r = Inl err" by (cases r) auto
  from call_failure(1) [OF a [unfolded this]] show ?thesis by (simp add: client_tracked_def split: sum.split)
qed

interpretation pcp_client: mapping_service client_add client_del client_tracked client_same
proof
  fix x p q proto port c c' and r :: "go_err option"
  assume "client_del x proto port c = Some (r, c')" "\<not> client_same p q proto port"
  then show "client_tracked p q c' \<longleftrightarrow> client_tracked p q c"
    by (cases r) (simp_all add: client_delete_forgets client_delete_failed)
qed (fact client_add_tracks client_add_keeps client_delete_forgets client_delete_failed)+

section \<open>The NAT\<close>

text \<open>The outside of a call: networks, context and the two goroutines.\<close>

record nat_env =
  ne_net4 :: net_env
  ne_net6 :: net_env
  ne_netr :: net_env
  ne_ctx :: ctx
  ne_t :: nat
  ne_t6 :: nat

definition nat_add ::
  "nat_env \<Rightarrow> string \<Rightarrow> int \<Rightarrow> duration \<Rightarrow> pcp_nat \<Rightarrow> (go_err option \<times> pcp_nat) option" where
  "nat_add x protocol port timeout n =
     map_option (\<lambda>(r, evs, evs6, n). (err_of r, n))
       (NAT_AddPortMapping (ne_net4 x) (ne_net6 x) (ne_netr x) (ne_ctx x) (ne_t x) (ne_t6 x)
          protocol port [] timeout n)"

definition nat_del ::
  "nat_env \<Rightarrow> string \<Rightarrow> int \<Rightarrow> pcp_nat \<Rightarrow> (go_err option \<times> pcp_nat) option" where
  "nat_del x protocol port n =
     map_option (\<lambda>(e, evs, evs6, n). (e, n))
       (NAT_DeletePortMapping (ne_net4 x) (ne_net6 x) (ne_ctx x) (ne_t x) (ne_t6 x) protocol port n)"

definition nat_tracked :: "string \<Rightarrow> int \<Rightarrow> pcp_nat \<Rightarrow> bool" where
  "nat_tracked protocol port n \<longleftrightarrow>
     (case primary n of Inl _ \<Rightarrow> False | Inr c \<Rightarrow> client_tracked protocol port c)"

lemma NAT_Add_v6:
  assumes "NAT_AddPortMapping net4 net6 netr ctx t t6 protocol ip descr timeout n = Some (r, evs, evs6, n')"
    and "n_client n = None"
  shows "\<exists>r6. ptr_AddPortMapping (net6 ctx) t protocol ip timeout (n_client6 n) = Some (r6, evs6, n_client6 n') \<and>
    n_client n' = None \<and> (err_of r = None \<longleftrightarrow> err_of r6 = None)"
proof -
  from assms obtain r6 ev6 p where
    "ptr_AddPortMapping (net6 ctx) t protocol ip timeout (n_client6 n) = Some (r6, ev6, p)"
    by (auto simp: NAT_AddPortMapping_def bind_eq_Some_conv)
  with assms show ?thesis
    by (cases r6) (auto simp: NAT_AddPortMapping_def Let_def)
qed

lemma NAT_Delete_v6:
  assumes "NAT_DeletePortMapping net4 net6 ctx t t6 protocol ip n = Some (r, evs, evs6, n')"
    and "n_client n = None"
  shows "\<exists>r6. ptr_DeletePortMapping (net6 ctx) t protocol ip (n_client6 n) = Some (r6, evs6, n_client6 n') \<and>
    n_client n' = None \<and> (r = None \<longleftrightarrow> r6 = None)"
  using assms by (auto simp: NAT_DeletePortMapping_def bind_eq_Some_conv Let_def)

text \<open>Both operations act on the primary client as the client's own operations do.\<close>

lemma nat_add_primary:
  assumes "nat_add x protocol port timeout n = Some (e, n')"
  shows "(\<exists>c c' e'. primary n = Inr c \<and> primary n' = Inr c' \<and> (e = None \<longleftrightarrow> e' = None) \<and>
            (\<exists>y. client_add y protocol port timeout c = Some (e', c')))
         \<or> primary n = Inl pcp_ErrNoNATFound \<and> primary n' = Inl pcp_ErrNoNATFound \<and> e \<noteq> None"
proof (cases "n_client n")
  case (Some c)
  from assms obtain r evs evs6 where
    a: "NAT_AddPortMapping (ne_net4 x) (ne_net6 x) (ne_netr x) (ne_ctx x) (ne_t x) (ne_t6 x)
          protocol port [] timeout n = Some (r, evs, evs6, n')" "e = err_of r"
    by (auto simp: nat_add_def)
  from NAT_Add_v4 [OF a(1) Some] obtain r4 c' where
    4: "AddPortMapping (ne_net4 x (ne_ctx x)) (ne_t x) protocol port timeout c = Some (r4, evs, c')"
    "n_client n' = Some c'"
    "r = (case r4 of Inl err \<Rightarrow> Inl (Errorf ''add mapping: %w'' [AErr err]) | Inr m \<Rightarrow> Inr (uint (ExternalPort m)))"
    by blast
  then have "client_add (ne_net4 x (ne_ctx x), ne_t x) protocol port timeout c = Some (err_of r4, c')"
    by (simp add: client_add_def)
  moreover have "e = None \<longleftrightarrow> err_of r4 = None"
    using a(2) 4(3) by (cases r4) auto
  ultimately show ?thesis using Some 4(2) by (auto simp: primary_def)
next
  case None
  obtain r evs evs6 where
    a: "NAT_AddPortMapping (ne_net4 x) (ne_net6 x) (ne_netr x) (ne_ctx x) (ne_t x) (ne_t6 x)
          protocol port [] timeout n = Some (r, evs, evs6, n')" "e = err_of r"
    using assms by (auto simp: nat_add_def)
  from NAT_Add_v6 [OF a(1) None] obtain r6 where
    6: "ptr_AddPortMapping (ne_net6 x (ne_ctx x)) (ne_t x) protocol port timeout (n_client6 n) =
      Some (r6, evs6, n_client6 n')" "n_client n' = None" "e = None \<longleftrightarrow> err_of r6 = None"
    by (elim exE conjE) (rule that, simp_all add: a(2))
  show ?thesis
  proof (cases "n_client6 n")
    case Some6: (Some c6)
    with 6(1) obtain c' where c': "n_client6 n' = Some c'"
      "client_add (ne_net6 x (ne_ctx x), ne_t x) protocol port timeout c6 = Some (err_of r6, c')"
      by (cases "n_client6 n'") (auto simp: ptr_AddPortMapping_def client_add_def bind_eq_Some_conv)
    have "primary n = Inr c6" "primary n' = Inr c'"
      using None Some6 6(2) c'(1) by (simp_all add: primary_def)
    with c'(2) 6(3) show ?thesis by (intro disjI1 exI conjI)
  qed (use None 6 in \<open>auto simp: ptr_AddPortMapping_def primary_def split: if_splits\<close>)
qed

lemma nat_del_primary:
  assumes "nat_del x protocol port n = Some (e, n')"
  shows "(\<exists>c c' e'. primary n = Inr c \<and> primary n' = Inr c' \<and> (e = None \<longleftrightarrow> e' = None) \<and>
            (\<exists>y. client_del y protocol port c = Some (e', c')))
         \<or> primary n = Inl pcp_ErrNoNATFound \<and> primary n' = Inl pcp_ErrNoNATFound \<and> e \<noteq> None"
proof (cases "n_client n")
  case (Some c)
  from assms obtain evs evs6 where
    a: "NAT_DeletePortMapping (ne_net4 x) (ne_net6 x) (ne_ctx x) (ne_t x) (ne_t6 x) protocol port n =
      Some (e, evs, evs6, n')"
    by (auto simp: nat_del_def)
  show ?thesis
    by (rule NAT_Delete_cases [OF a Some])
      (auto simp: Some primary_def client_del_def intro!: exI [of _ "(ne_net4 x (ne_ctx x), ne_t x)"])
next
  case None
  obtain evs evs6 where
    a: "NAT_DeletePortMapping (ne_net4 x) (ne_net6 x) (ne_ctx x) (ne_t x) (ne_t6 x) protocol port n =
      Some (e, evs, evs6, n')"
    using assms by (auto simp: nat_del_def)
  from NAT_Delete_v6 [OF a None] obtain e6 where
    6: "ptr_DeletePortMapping (ne_net6 x (ne_ctx x)) (ne_t x) protocol port (n_client6 n) =
      Some (e6, evs6, n_client6 n')" "n_client n' = None" "e = None \<longleftrightarrow> e6 = None"
    by blast
  show ?thesis
  proof (cases "n_client6 n")
    case Some6: (Some c6)
    with 6(1) obtain c' where c': "n_client6 n' = Some c'"
      "client_del (ne_net6 x (ne_ctx x), ne_t x) protocol port c6 = Some (e6, c')"
      by (cases "n_client6 n'") (auto simp: ptr_DeletePortMapping_def client_del_def bind_eq_Some_conv)
    have "primary n = Inr c6" "primary n' = Inr c'"
      using None Some6 6(2) c'(1) by (simp_all add: primary_def)
    with c'(2) 6(3) show ?thesis by (intro disjI1 exI conjI)
  qed (use None 6 in \<open>auto simp: ptr_DeletePortMapping_def primary_def split: if_splits\<close>)
qed

interpretation pcp_nat: mapping_service nat_add nat_del nat_tracked client_same
proof
  fix x proto port lt n n'
  assume "nat_add x proto port lt n = Some (None, n')" "0 < lt"
  with nat_add_primary [of x proto port lt n None n'] show "nat_tracked proto port n'"
    by (auto simp: nat_tracked_def intro: client_add_tracks)
next
  fix x proto port lt n r n' p q
  assume "nat_add x proto port lt n = Some (r, n')" "0 < lt" "nat_tracked p q n"
  with nat_add_primary [of x proto port lt n r n'] show "nat_tracked p q n'"
    by (auto simp: nat_tracked_def intro: client_add_keeps)
next
  fix x proto port n n'
  assume "nat_del x proto port n = Some (None, n')"
  with nat_del_primary [of x proto port n None n'] show "\<not> nat_tracked proto port n'"
    by (auto simp: nat_tracked_def dest: client_delete_forgets)
next
  fix x proto port n e n' p q
  assume "nat_del x proto port n = Some (Some e, n')"
  with nat_del_primary [of x proto port n "Some e" n'] show "nat_tracked p q n' \<longleftrightarrow> nat_tracked p q n"
    by (auto simp: nat_tracked_def dest: client_delete_failed)
next
  fix x proto port n n' p q and r :: "go_err option"
  assume "nat_del x proto port n = Some (r, n')" "\<not> client_same p q proto port"
  with nat_del_primary [of x proto port n r n'] show "nat_tracked p q n' \<longleftrightarrow> nat_tracked p q n"
    by (auto simp: nat_tracked_def pcp_client.delete_others)
qed

section \<open>Properties\<close>

text \<open>
  A mapping made through the PCP NAT stays deletable: after a successful add, and whatever adds and
  deletes follow on whatever networks, failing or not, the primary client still has the nonce of the
  mapping until a delete of that mapping succeeds.
\<close>

theorem pcp_mappings_stay_deletable:
  assumes "nat_add x protocol port lifetime n = Some (None, n1)" and "0 < lifetime"
    and "run_ops nat_add nat_del ops n1 = Some (es, n2)"
    and "\<forall>oe \<in> set (zip ops es). \<not> may_end client_same protocol port oe"
  shows "\<exists>c proto. primary n2 = Inr c \<and> protocolNumber protocol = Inr proto \<and>
           c_nonces c \<lparr>mk_proto = proto, mk_port = word_of_int port\<rparr> \<noteq> None"
  using pcp_nat.added_stays_tracked [OF assms]
  by (auto simp: nat_tracked_def client_tracked_def split: sum.splits)

theorem pcp_mappings_stay_deletable_witness:
  "\<exists>n1 e n2 c proto.
     nat_add \<lparr>ne_net4 = granting_env, ne_net6 = silent_env, ne_netr = silent_env, ne_ctx = Caller, ne_t = 0, ne_t6 = 1\<rparr>
       ''udp'' 51820 (60 * second) dual_nat = Some (None, n1) \<and>
     nat_add \<lparr>ne_net4 = silent_env, ne_net6 = silent_env, ne_netr = silent_env, ne_ctx = Caller, ne_t = 0, ne_t6 = 1\<rparr>
       ''udp'' 51820 (60 * second) n1 = Some (e, n2) \<and>
     primary n2 = Inr c \<and> protocolNumber ''udp'' = Inr proto \<and>
     c_nonces c \<lparr>mk_proto = proto, mk_port = 51820\<rparr> \<noteq> None"
proof -
  let ?x = "\<lparr>ne_net4 = granting_env, ne_net6 = silent_env, ne_netr = silent_env, ne_ctx = Caller, ne_t = 0, ne_t6 = 1\<rparr>"
  let ?y = "\<lparr>ne_net4 = silent_env, ne_net6 = silent_env, ne_netr = silent_env, ne_ctx = Caller, ne_t = 0, ne_t6 = 1\<rparr>"
  obtain r evs evs6 n1 where a:
    "NAT_AddPortMapping granting_env silent_env silent_env Caller 0 1 ''udp'' 51820 [] (60 * second) dual_nat
       = Some (r, evs, evs6, n1)" and ok: "nat_ok n1"
    using NAT_Add_returns [OF dual_nat_ok(1)] by blast
  have "n_client dual_nat = Some client_v4" by (simp add: dual_nat_def)
  from NAT_Add_v4 [OF a this] granted_51820 have "\<exists>m. r = Inr (uint (ExternalPort (m :: map_response)))"
    by (auto simp: AddPortMapping_def granting_env_def)
  with a have 1: "nat_add ?x ''udp'' 51820 (60 * second) dual_nat = Some (None, n1)"
    by (auto simp: nat_add_def)
  obtain r' evs' evs6' n2 where
    "NAT_AddPortMapping silent_env silent_env silent_env Caller 0 1 ''udp'' 51820 [] (60 * second) n1
       = Some (r', evs', evs6', n2)"
    using NAT_Add_returns [OF ok] by blast
  then have 2: "nat_add ?y ''udp'' 51820 (60 * second) n1 = Some (err_of r', n2)"
    by (simp add: nat_add_def)
  from pcp_mappings_stay_deletable [OF 1, of "[OpAdd ?y ''udp'' 51820 (60 * second)]" "[err_of r']" n2] 1 2
  show ?thesis by (simp add: second_def)
qed

end
