(* ===== verification/Natpmp_NAT.thy ===== *)
theory Natpmp_NAT
  imports Random_Port Gateway_Discoverer Mapping_Service
begin

text \<open>
  \<open>natpmp.go\<close>: the NAT-PMP gateway. The protocol itself is the library \<open>go-nat-pmp\<close>, which is not
  part of the repository: its answers are arguments, one for each request of a call. The cache
  \<open>ports\<close> remembers the external port asked for, by internal port only.
\<close>

section \<open>The gateway\<close>

record natpmpNAT =
  np_gateway :: net_ip
  np_ports :: "int \<rightharpoonup> int"

text \<open>A request to the gateway: protocol, internal port, external port, lifetime in seconds.\<close>

type_synonym natpmp_request = "string \<times> int \<times> int \<times> int"

text \<open>
  What the library does of a request, in a state \<open>'d\<close> of the outside (network and gateway), and the
  draws of the random generator during one call.
\<close>

record 'd natpmp_io =
  ni_AddPortMapping :: "natpmp_request \<Rightarrow> 'd \<Rightarrow> go_err option \<times> 'd"
  ni_rand :: "nat \<Rightarrow> nat"

definition new_natpmpNAT :: "net_ip \<Rightarrow> natpmpNAT" where
  "new_natpmpNAT ip = \<lparr>np_gateway = ip, np_ports = Map.empty\<rparr>"

definition natpmp_Type :: "natpmpNAT \<Rightarrow> string" where
  "natpmp_Type n = ''NAT-PMP''"

definition natpmp_GetDeviceAddress :: "natpmpNAT \<Rightarrow> net_ip" where
  "natpmp_GetDeviceAddress n = np_gateway n"

section \<open>Addresses\<close>

datatype net_addr = IPNet ip_net | OtherAddr

fun addr_on_net :: "net_ip \<Rightarrow> net_addr list \<Rightarrow> net_ip option" where
  "addr_on_net gateway [] = None"
| "addr_on_net gateway (IPNet x # addrs) =
     (if ipnet_Contains x gateway then Some (net_IP x) else addr_on_net gateway addrs)"
| "addr_on_net gateway (OtherAddr # addrs) = addr_on_net gateway addrs"

text \<open>The loop over the interfaces, each with the answer of its \<open>Addrs\<close>.\<close>

fun find_internal :: "net_ip \<Rightarrow> net_addr list or_err list \<Rightarrow> net_ip or_err" where
  "find_internal gateway [] = Inl nat_ErrNoInternalAddress"
| "find_internal gateway (Inl err # ifaces) = Inl err"
| "find_internal gateway (Inr addrs # ifaces) =
     (case addr_on_net gateway addrs of
        Some ip \<Rightarrow> Inr ip
      | None \<Rightarrow> find_internal gateway ifaces)"

definition natpmp_GetInternalAddress :: "net_addr list or_err list or_err \<Rightarrow> natpmpNAT \<Rightarrow> net_ip or_err" where
  "natpmp_GetInternalAddress interfaces n =
     (case interfaces of
        Inl err \<Rightarrow> Inl err
      | Inr ifaces \<Rightarrow> find_internal (np_gateway n) ifaces)"

text \<open>The library reports the external address as an array of four bytes.\<close>

definition natpmp_GetExternalAddress :: "(byte \<times> byte \<times> byte \<times> byte) or_err \<Rightarrow> net_ip or_err" where
  "natpmp_GetExternalAddress res =
     (case res of
        Inl err \<Rightarrow> Inl err
      | Inr (d0, d1, d2, d3) \<Rightarrow> Inr (net_IPv4 d0 d1 d2 d3))"

section \<open>Mappings\<close>

definition natpmp_renew ::
  "(natpmp_request \<Rightarrow> 'd \<Rightarrow> go_err option \<times> 'd) \<Rightarrow> natpmp_request \<Rightarrow> 'd
   \<Rightarrow> bool \<times> natpmp_request list \<times> 'd" where
  "natpmp_renew call request d =
     (if fst (snd (snd request)) > 0
      then let (err, d) = call request d in (err = None, [request], d)
      else (False, [], d))"

definition natpmp_AddPortMapping ::
  "'d natpmp_io \<Rightarrow> string \<Rightarrow> int \<Rightarrow> string \<Rightarrow> duration \<Rightarrow> natpmpNAT \<Rightarrow> 'd
   \<Rightarrow> (int \<times> go_err option) \<times> natpmp_request list \<times> natpmpNAT \<times> 'd" where
  "natpmp_AddPortMapping io protocol internalPort description timeout n d =
     (let timeoutInSeconds = timeout sdiv second;
          request = (\<lambda>externalPort. (protocol, internalPort, externalPort, timeoutInSeconds));
          externalPort = (case np_ports n internalPort of Some p \<Rightarrow> p | None \<Rightarrow> 0);
          (renewed, reqs, d) = natpmp_renew (ni_AddPortMapping io) (request externalPort) d
      in if renewed
         then ((externalPort, None), reqs, n\<lparr>np_ports := (np_ports n)(internalPort \<mapsto> externalPort)\<rparr>, d)
         else
           let (granted, err, tried, d) =
                 try_ports 3 (\<lambda>p. ni_AddPortMapping io (request p)) (\<lambda>i. randomPort (ni_rand io i)) 0 None d
           in case granted of
                Some externalPort \<Rightarrow>
                  ((externalPort, None), reqs @ map request tried,
                   n\<lparr>np_ports := (np_ports n)(internalPort \<mapsto> externalPort)\<rparr>, d)
              | None \<Rightarrow> ((0, err), reqs @ map request tried, n, d))"

definition natpmp_DeletePortMapping ::
  "string \<Rightarrow> int \<Rightarrow> natpmpNAT \<Rightarrow> go_err option \<times> natpmpNAT" where
  "natpmp_DeletePortMapping protocol internalPort n =
     (None, n\<lparr>np_ports := (np_ports n)(internalPort := None)\<rparr>)"

section \<open>Discovery\<close>

text \<open>
  A source channel is \<open>None\<close> when it is nil, else the values it delivers before it is closed.
  \<open>probe\<close> is the answer to the external address request; \<open>cancelled\<close> says that the context ended
  before the probe was done.
\<close>

definition discoverNATPMPWithAddr :: "unit or_err \<Rightarrow> unit list" where
  "discoverNATPMPWithAddr probe = (case probe of Inl err \<Rightarrow> [] | Inr client \<Rightarrow> [client])"

definition discoverNATPMP ::
  "string \<Rightarrow> router or_err \<Rightarrow> (net_ip \<Rightarrow> unit or_err) \<Rightarrow> bool \<Rightarrow> natpmpNAT list option" where
  "discoverNATPMP goos newRouter probe cancelled =
     (case getDefaultGateway goos newRouter of
        Inl err \<Rightarrow> None
      | Inr ip \<Rightarrow>
          Some (if cancelled then []
                else case discoverNATPMPWithAddr (probe ip) of
                       [] \<Rightarrow> [] | client # _ \<Rightarrow> [new_natpmpNAT ip]))"

section \<open>Lemmas\<close>

lemma natpmp_renew_result:
  assumes "natpmp_renew call (protocol, ip, p, lt) d = (renewed, reqs, d')"
  shows "reqs = (if 0 < p then [(protocol, ip, p, lt)] else [])" and "renewed \<Longrightarrow> 0 < p"
  using assms by (auto simp: natpmp_renew_def split: if_splits prod.splits)

lemma natpmp_Add_result:
  assumes "natpmp_AddPortMapping io protocol ip descr timeout n d = ((port, err), reqs, n', d')"
  shows "err = None \<Longrightarrow> np_ports n' = (np_ports n)(ip \<mapsto> port)
           \<and> reqs \<noteq> [] \<and> last reqs = (protocol, ip, port, timeout sdiv second)"
    and "err \<noteq> None \<Longrightarrow> n' = n \<and> port = 0"
    and "length reqs \<le> 4"
    and "r \<in> set reqs \<Longrightarrow> \<exists>p. r = (protocol, ip, p, timeout sdiv second) \<and>
           (np_ports n ip = Some p \<and> 0 < p \<or> 10000 \<le> p \<and> p \<le> 65534)"
    and "0 < ep \<Longrightarrow> np_ports n ip = Some ep \<Longrightarrow> hd reqs = (protocol, ip, ep, timeout sdiv second)"
    and "reqs \<noteq> []"
proof -
  let ?req = "\<lambda>p. (protocol, ip, p, timeout sdiv second)"
  let ?ep = "case np_ports n ip of Some p \<Rightarrow> p | None \<Rightarrow> 0"
  obtain renewed rs d1 where ren: "natpmp_renew (ni_AddPortMapping io) (?req ?ep) d = (renewed, rs, d1)"
    by (cases "natpmp_renew (ni_AddPortMapping io) (?req ?ep) d") auto
  obtain granted e tried d2 where t:
    "try_ports 3 (\<lambda>p. ni_AddPortMapping io (?req p)) (\<lambda>i. randomPort (ni_rand io i)) 0 None d1 =
      (granted, e, tried, d2)"
    by (metis prod_cases4)
  from try_ports_result [OF t] have
    req: "requests (\<lambda>p. ni_AddPortMapping io (?req p)) d1 tried granted e d2" "tried \<noteq> []"
      "set tried \<subseteq> range (\<lambda>i. randomPort (ni_rand io i))" by auto
  have range: "10000 \<le> p \<and> p \<le> 65534" if "p \<in> set tried" for p
    using that req(3) randomPort_range by auto
  have rs: "rs = (if 0 < ?ep then [?req ?ep] else [])" and pos: "renewed \<Longrightarrow> 0 < ?ep"
    by (rule natpmp_renew_result [OF ren])+
  have ep: "0 < ?ep \<Longrightarrow> np_ports n ip = Some ?ep" by (auto split: option.splits)
  have "natpmp_AddPortMapping io protocol ip descr timeout n d =
      (if renewed then ((?ep, None), rs, n\<lparr>np_ports := (np_ports n)(ip \<mapsto> ?ep)\<rparr>, d1)
       else case granted of
              Some p \<Rightarrow> ((p, None), rs @ map ?req tried, n\<lparr>np_ports := (np_ports n)(ip \<mapsto> p)\<rparr>, d2)
            | None \<Rightarrow> ((0, e), rs @ map ?req tried, n, d2))"
    by (cases renewed) (simp_all add: natpmp_AddPortMapping_def Let_def ren t)
  note call = this [unfolded assms]
  note ok = requests_Some [OF req(1)] requests_None [OF req(1) _ req(2)]
  show "err = None \<Longrightarrow> np_ports n' = (np_ports n)(ip \<mapsto> port)
           \<and> reqs \<noteq> [] \<and> last reqs = ?req port"
    using call ok pos rs by (auto simp: last_map split: if_splits option.splits)
  show "err \<noteq> None \<Longrightarrow> n' = n \<and> port = 0"
    using call ok by (auto split: if_splits option.splits)
  show "length reqs \<le> 4"
    using call try_ports_length [OF t] rs by (auto split: if_splits option.splits)
  show "r \<in> set reqs \<Longrightarrow> \<exists>p. r = ?req p \<and>
           (np_ports n ip = Some p \<and> 0 < p \<or> 10000 \<le> p \<and> p \<le> 65534)"
    using call range rs ep by (auto split: if_splits option.splits)
  show "reqs \<noteq> []"
    using call req(2) rs pos by (auto split: if_splits option.splits)
  show "0 < ep \<Longrightarrow> np_ports n ip = Some ep \<Longrightarrow> hd reqs = ?req ep"
    using call rs by (auto split: if_splits option.splits)
qed

section \<open>As a provider of mappings\<close>

text \<open>The outside of one call, and its state when the call is made.\<close>

definition natpmp_add ::
  "'d natpmp_io \<times> 'd \<Rightarrow> string \<Rightarrow> int \<Rightarrow> duration \<Rightarrow> natpmpNAT \<Rightarrow> (go_err option \<times> natpmpNAT) option" where
  "natpmp_add x protocol port timeout n =
     (let ((p, err), reqs, n', d) = natpmp_AddPortMapping (fst x) protocol port [] timeout n (snd x)
      in Some (err, n'))"

definition natpmp_del ::
  "'d natpmp_io \<times> 'd \<Rightarrow> string \<Rightarrow> int \<Rightarrow> natpmpNAT \<Rightarrow> (go_err option \<times> natpmpNAT) option" where
  "natpmp_del x protocol port n = Some (natpmp_DeletePortMapping protocol port n)"

text \<open>
  What the gateway object remembers of a mapping is its external port, which the next add asks for
  first. A delete asks the gateway nothing: it only forgets the port.
\<close>

definition natpmp_tracked :: "string \<Rightarrow> int \<Rightarrow> natpmpNAT \<Rightarrow> bool" where
  "natpmp_tracked protocol port n \<longleftrightarrow>
     (case np_ports n port of None \<Rightarrow> False | Some external \<Rightarrow> 0 < external)"

definition natpmp_same :: "string \<Rightarrow> int \<Rightarrow> string \<Rightarrow> int \<Rightarrow> bool" where
  "natpmp_same p q p' q' \<longleftrightarrow> q = q'"

lemma natpmp_addD:
  assumes "natpmp_add x protocol port timeout n = Some (err, n')"
  obtains p reqs d where
    "natpmp_AddPortMapping (fst x) protocol port [] timeout n (snd x) = ((p, err), reqs, n', d)"
  using assms by (auto simp: natpmp_add_def split: prod.splits)

lemma natpmp_Add_port:
  assumes "natpmp_AddPortMapping io protocol ip descr timeout n d = ((port, None), reqs, n', d')"
  shows "np_ports n' = (np_ports n)(ip \<mapsto> port)" and "0 < port"
proof -
  from natpmp_Add_result(1) [OF assms refl] have last: "reqs \<noteq> []"
    "last reqs = (protocol, ip, port, timeout sdiv second)" and "np_ports n' = (np_ports n)(ip \<mapsto> port)"
    by simp_all
  then show "np_ports n' = (np_ports n)(ip \<mapsto> port)" by simp
  from last_in_set [OF last(1)] have "(protocol, ip, port, timeout sdiv second) \<in> set reqs" by (simp only: last(2))
  from natpmp_Add_result(4) [OF assms this] show "0 < port" by auto
qed

interpretation natpmp: mapping_service natpmp_add natpmp_del natpmp_tracked natpmp_same
proof
  fix x :: "'d natpmp_io \<times> 'd" and proto port lt n n'
  assume "natpmp_add x proto port lt n = Some (None, n')"
  then show "natpmp_tracked proto port n'"
    by (elim natpmp_addD) (auto simp: natpmp_tracked_def natpmp_Add_port)
next
  fix x :: "'d natpmp_io \<times> 'd" and proto port lt n r n' p q
  assume a: "natpmp_add x proto port lt n = Some (r, n')" and t: "natpmp_tracked p q n"
  from a obtain e reqs d where
    "natpmp_AddPortMapping (fst x) proto port [] lt n (snd x) = ((e, r), reqs, n', d)"
    by (elim natpmp_addD)
  then have add: "natpmp_AddPortMapping (fst x) proto port [] lt n (snd x) = ((e, r), reqs, n', d)" .
  show "natpmp_tracked p q n'"
  proof (cases r)
    case None
    from natpmp_Add_port [OF add [unfolded None]] t show ?thesis by (simp add: natpmp_tracked_def)
  next
    case (Some err)
    with natpmp_Add_result(2) [OF add] t show ?thesis by simp
  qed
qed (auto simp: natpmp_del_def natpmp_DeletePortMapping_def natpmp_tracked_def natpmp_same_def)

section \<open>Properties\<close>

text \<open>A gateway that refuses every second request, the first one included.\<close>

definition busy_natpmp :: "nat natpmp_io" where
  "busy_natpmp = \<lparr>ni_AddPortMapping = (\<lambda>_ d. (if even d then Some (ExtErr ''refused'') else None, Suc d)),
     ni_rand = (\<lambda>i. 100 * i)\<rparr>"

lemma busy_natpmp_add:
  "natpmp_AddPortMapping busy_natpmp ''udp'' 51820 [] (3600 * second) (new_natpmpNAT [192, 168, 1, 1]) 0 =
     ((10100, None), [(''udp'', 51820, 10000, 3600), (''udp'', 51820, 10100, 3600)],
      \<lparr>np_gateway = [192, 168, 1, 1], np_ports = [51820 \<mapsto> 10100]\<rparr>, 2)"
  by (simp add: natpmp_AddPortMapping_def natpmp_renew_def busy_natpmp_def new_natpmpNAT_def Let_def
      randomPort_def Intn_def second_def numeral_3_eq_3)

text \<open>
  C33. What a NAT-PMP add does on every branch. The gateway is asked for the cached external port if there
  is one, then for three random ports from 10000 to 65534, in this order, each as long as the one before
  was refused; every request has the caller's protocol, internal port and lifetime in whole seconds. The
  first port that is granted ends the call, and is returned and cached; when all are refused the call
  returns port 0 with the error of the last request, and the cache is as it was.
\<close>

theorem natpmp_add_outcome:
  assumes "natpmp_AddPortMapping io protocol ip descr timeout n d = ((port, err), reqs, n', d')"
  shows "let request = (\<lambda>p. (protocol, ip, p, timeout sdiv second));
      ports = (case np_ports n ip of Some p \<Rightarrow> if 0 < p then [p] else [] | None \<Rightarrow> []) @
        map (\<lambda>i. 10000 + int (ni_rand io i mod 55535)) [0, 1, 2]
    in \<exists>ps granted.
         requests (\<lambda>p. ni_AddPortMapping io (request p)) d ps granted err d' \<and>
         prefix ps ports \<and> (granted = None \<longrightarrow> ps = ports) \<and> reqs = map request ps \<and>
         (case granted of
            Some p \<Rightarrow> port = p \<and> err = None \<and> n' = n\<lparr>np_ports := (np_ports n)(ip \<mapsto> p)\<rparr>
          | None \<Rightarrow> port = 0 \<and> err \<noteq> None \<and> n' = n)"
proof -
  let ?req = "\<lambda>p. (protocol, ip, p, timeout sdiv second)"
  let ?draws = "map (\<lambda>i. 10000 + int (ni_rand io i mod 55535)) [0, 1, 2]"
  define ep where "ep = (case np_ports n ip of Some p \<Rightarrow> p | None \<Rightarrow> 0)"
  have draws: "map (\<lambda>i. randomPort (ni_rand io i)) [0..<0 + 3] = ?draws"
    by (simp add: randomPort_def Intn_def numeral_3_eq_3 numeral_2_eq_2)
  have cached: "(case np_ports n ip of Some p \<Rightarrow> if 0 < p then [p] else [] | None \<Rightarrow> []) = (if 0 < ep then [ep] else [])"
    by (simp add: ep_def split: option.split)
  obtain e1 d1 where c: "ni_AddPortMapping io (?req ep) d = (e1, d1)" by fastforce
  show ?thesis
  proof (cases "0 < ep \<and> e1 = None")
    case True
    with assms c have "port = ep" "err = None" "reqs = [?req ep]" "n' = n\<lparr>np_ports := (np_ports n)(ip \<mapsto> ep)\<rparr>" "d' = d1"
      by (auto simp: natpmp_AddPortMapping_def natpmp_renew_def ep_def [symmetric] Let_def)
    moreover have "requests (\<lambda>p. ni_AddPortMapping io (?req p)) d [ep] (Some ep) None d1"
      by (rule requests.Granted) (use c True in simp)
    ultimately show ?thesis unfolding Let_def cached using True
      by (intro exI [of _ "[ep]"] exI [of _ "Some ep"]) simp
  next
    case False
    define d2 where "d2 = (if 0 < ep then d1 else d)"
    obtain granted e tried d3 where
      t: "try_ports 3 (\<lambda>p. ni_AddPortMapping io (?req p)) (\<lambda>i. randomPort (ni_rand io i)) 0 None d2 = (granted, e, tried, d3)"
      by (metis prod_cases4)
    note order = try_ports_order [OF t, unfolded draws]
    have tried: "requests (\<lambda>p. ni_AddPortMapping io (?req p)) d2 tried granted e d3" "tried \<noteq> []"
      using try_ports_result [OF t] by simp_all
    have none: "granted = None \<Longrightarrow> e \<noteq> None" and some: "granted = Some p \<Longrightarrow> e = None" for p
      using requests_None [OF tried(1) _ tried(2)] requests_Some [OF tried(1)] by simp_all
    let ?ps = "(if 0 < ep then [ep] else []) @ tried"
    have "requests (\<lambda>p. ni_AddPortMapping io (?req p)) d ?ps granted e d3"
    proof (cases "0 < ep")
      case True
      with False obtain e2 where "e1 = Some e2" by auto
      with True c tried show ?thesis by (auto simp: d2_def intro: requests.Refused)
    qed (use tried(1) in \<open>simp add: d2_def\<close>)
    moreover have "natpmp_AddPortMapping io protocol ip descr timeout n d =
        (case granted of
           Some p \<Rightarrow> ((p, None), map ?req ?ps, n\<lparr>np_ports := (np_ports n)(ip \<mapsto> p)\<rparr>, d3)
         | None \<Rightarrow> ((0, e), map ?req ?ps, n, d3))"
      using False c t by (auto simp: natpmp_AddPortMapping_def natpmp_renew_def ep_def [symmetric] d2_def Let_def
          split: option.split)
    ultimately show ?thesis unfolding Let_def cached using order none some assms
      by (intro exI [of _ ?ps] exI [of _ granted]) (auto split: option.splits)
  qed
qed

text \<open>The witness: the first draw is refused, the second granted.\<close>

theorem natpmp_add_outcome_witness:
  "\<exists>ps granted. ps = [10000, 10100] \<and> granted = Some 10100 \<and>
     requests (\<lambda>p. ni_AddPortMapping busy_natpmp (''udp'', 51820, p, 3600)) 0 ps granted None 2"
proof -
  from natpmp_add_outcome [OF busy_natpmp_add] obtain ps granted where
    w: "requests (\<lambda>p. ni_AddPortMapping busy_natpmp (''udp'', 51820, p, 3600 * second sdiv second)) 0 ps granted None 2"
      "[(''udp'', 51820, 10000, 3600), (''udp'', 51820, 10100, 3600)] =
       map (\<lambda>p. (''udp'', 51820, p, 3600 * second sdiv second)) ps"
      "case granted of Some p \<Rightarrow> 10100 = p | None \<Rightarrow> False"
    unfolding Let_def by (auto split: option.splits)
  from w(2) have "ps = [10000, 10100]" by (auto simp: second_def map_eq_Cons_conv eq_commute [of "_ # _"])
  moreover from w(3) have "granted = Some 10100" by (cases granted) simp_all
  ultimately show ?thesis using w(1) by (simp add: second_def)
qed

text \<open>
  The cache of NAT-PMP does not tell protocols apart: after a mapping of one protocol, adding the
  same internal port for another protocol first asks for the external port of the first mapping.
\<close>

theorem natpmp_cache_ignores_protocol:
  assumes "natpmp_AddPortMapping io protocol ip descr timeout n d = ((port, None), reqs, n1, d1)"
    and "0 < port"
    and "natpmp_AddPortMapping io' protocol' ip descr' timeout' n1 d' = (r, reqs', n2, d2)"
  shows "reqs' \<noteq> [] \<and> hd reqs' = (protocol', ip, port, timeout' sdiv second)"
proof -
  have "np_ports n1 ip = Some port"
    using natpmp_Add_result(1) [OF assms(1)] by simp
  with natpmp_Add_result(5,6) [of io' protocol' ip descr' timeout' n1 d' "fst r" "snd r" reqs' n2 d2]
    assms(2,3) show ?thesis by simp
qed

theorem natpmp_cache_ignores_protocol_witness:
  "hd (fst (snd (natpmp_AddPortMapping busy_natpmp ''tcp'' 51820 [] second
       \<lparr>np_gateway = [192, 168, 1, 1], np_ports = [51820 \<mapsto> 10100]\<rparr> 1))) = (''tcp'', 51820, 10100, 1)"
  using natpmp_cache_ignores_protocol [OF busy_natpmp_add, where io' = busy_natpmp and
      protocol' = "''tcp''" and descr' = "[]" and timeout' = second and d' = 1]
  by (cases "natpmp_AddPortMapping busy_natpmp ''tcp'' 51820 [] second
       \<lparr>np_gateway = [192, 168, 1, 1], np_ports = [51820 \<mapsto> 10100]\<rparr> 1") (simp add: second_def)

end
