(* ===== verification/Nat_Interface.thy ===== *)
theory Nat_Interface
  imports Pcp_Service Natpmp_NAT Upnp_NAT
begin

text \<open>
  The interfaces of \<open>nat.go\<close> and \<open>pcp_ipv6.go\<close> as records of operations over the state \<open>'s\<close> of the
  implementing object together with its outside, and the implementations of the repository as values
  of them. \<open>None\<close> is a call that does not return.
\<close>

section \<open>The interfaces\<close>

text \<open>
  \<open>NAT\<close>, with the result of a type assertion to \<open>HealthChecker\<close>: \<open>None\<close> when the object does not
  implement it. \<open>IPv6PinholeReporter\<close> is implemented by the wrapper alone.
\<close>

type_synonym 's HealthChecker = "ctx \<Rightarrow> 's \<Rightarrow> (32 word \<times> bool) or_err \<times> 's"

type_synonym 's IPv6PinholeReporter = "'s \<Rightarrow> go_err option"

record 's NAT_iface =
  nat_Type :: "'s \<Rightarrow> string"
  nat_GetDeviceAddress :: "'s \<Rightarrow> (net_ip or_err \<times> 's) option"
  nat_GetExternalAddress :: "'s \<Rightarrow> (net_ip or_err \<times> 's) option"
  nat_GetInternalAddress :: "'s \<Rightarrow> (net_ip or_err \<times> 's) option"
  nat_AddPortMapping ::
    "ctx \<Rightarrow> string \<Rightarrow> int \<Rightarrow> string \<Rightarrow> duration \<Rightarrow> 's \<Rightarrow> ((int \<times> go_err option) \<times> 's) option"
  nat_DeletePortMapping :: "ctx \<Rightarrow> string \<Rightarrow> int \<Rightarrow> 's \<Rightarrow> (go_err option \<times> 's) option"
  nat_HealthChecker :: "'s HealthChecker option"

record 'p pcpIPv6Client =
  p6_AddPortMapping :: "ctx \<Rightarrow> string \<Rightarrow> int \<Rightarrow> duration \<Rightarrow> 'p \<Rightarrow> (map_response or_err \<times> 'p) option"
  p6_DeletePortMapping :: "ctx \<Rightarrow> string \<Rightarrow> int \<Rightarrow> 'p \<Rightarrow> (go_err option \<times> 'p) option"
  p6_Announce :: "ctx \<Rightarrow> 'p \<Rightarrow> 32 word or_err \<times> 'p"
  p6_EpochStateLost :: "'p \<Rightarrow> bool \<times> 'p"

text \<open>A Go result \<open>(port, err)\<close> of an operation that returns port 0 with every error.\<close>

definition port_err :: "int or_err \<Rightarrow> int \<times> go_err option" where
  "port_err r = (case r of Inl e \<Rightarrow> (0, Some e) | Inr port \<Rightarrow> (port, None))"

lemma snd_port_err [simp]: "snd (port_err r) = err_of r"
  by (cases r) (simp_all add: port_err_def)

section \<open>The PCP client behind pinholes\<close>

text \<open>\<open>net k\<close> and goroutine \<open>t\<close>: the outside of the \<open>k\<close>-th call, counted in the state.\<close>

definition pcp6_iface :: "(nat \<Rightarrow> net_env) \<Rightarrow> nat \<Rightarrow> (client \<times> nat) pcpIPv6Client" where
  "pcp6_iface net t =
     \<lparr>p6_AddPortMapping = (\<lambda>ctx protocol internalPort timeout (c, k).
        map_option (\<lambda>(r, evs, c). (r, (c, Suc k))) (AddPortMapping (net k ctx) t protocol internalPort timeout c)),
      p6_DeletePortMapping = (\<lambda>ctx protocol internalPort (c, k).
        map_option (\<lambda>(e, evs, c). (e, (c, Suc k))) (DeletePortMapping (net k ctx) t protocol internalPort c)),
      p6_Announce = (\<lambda>ctx (c, k). let (r, evs, c) = Announce (net k ctx) c in (r, (c, Suc k))),
      p6_EpochStateLost = (\<lambda>(c, k). let (lost, c) = EpochStateLost c in (lost, (c, k)))\<rparr>"

section \<open>The gateways\<close>

record pcp_outside =
  po_net4 :: net_env
  po_net6 :: net_env
  po_netr :: net_env
  po_t :: nat
  po_t6 :: nat
  po_ns :: int

definition pcp_iface :: "(nat \<Rightarrow> pcp_outside) \<Rightarrow> (pcp_nat \<times> nat) NAT_iface" where
  "pcp_iface env =
     \<lparr>nat_Type = (\<lambda>(n, k). NAT_Type n),
      nat_GetDeviceAddress = (\<lambda>(n, k). Some (NAT_GetDeviceAddress n, (n, k))),
      nat_GetExternalAddress = (\<lambda>(n, k). map_option (\<lambda>(r, evs, n). (r, (n, Suc k)))
        (NAT_GetExternalAddress (po_net4 (env k)) (po_netr (env k)) (po_t (env k)) (po_ns (env k)) n)),
      nat_GetInternalAddress = (\<lambda>(n, k). Some (NAT_GetInternalAddress n, (n, k))),
      nat_AddPortMapping = (\<lambda>ctx protocol internalPort description timeout (n, k).
        map_option (\<lambda>(r, evs, evs6, n). (port_err r, (n, Suc k)))
          (NAT_AddPortMapping (po_net4 (env k)) (po_net6 (env k)) (po_netr (env k)) ctx (po_t (env k)) (po_t6 (env k))
             protocol internalPort description timeout n)),
      nat_DeletePortMapping = (\<lambda>ctx protocol internalPort (n, k).
        map_option (\<lambda>(e, evs, evs6, n). (e, (n, Suc k)))
          (NAT_DeletePortMapping (po_net4 (env k)) (po_net6 (env k)) ctx (po_t (env k)) (po_t6 (env k))
             protocol internalPort n)),
      nat_HealthChecker = Some (\<lambda>ctx (n, k).
        let (r, evs, evs6, n) = CheckServerHealth (po_net4 (env k)) (po_net6 (env k)) ctx n in (r, (n, Suc k)))\<rparr>"

record 'd upnp_outside =
  uo_dial :: "'d \<Rightarrow> ctx \<Rightarrow> string \<Rightarrow> net_ip option or_err"
  uo_resolve :: "'d \<Rightarrow> string \<Rightarrow> net_ip or_err"
  uo_rand :: "'d \<Rightarrow> nat \<Rightarrow> nat"

definition upnp_iface :: "'d upnp_outside \<Rightarrow> ('d upnp_NAT \<times> 'd) NAT_iface" where
  "upnp_iface out =
     \<lparr>nat_Type = (\<lambda>(u, d). upnp_Type u),
      nat_GetDeviceAddress = (\<lambda>(u, d). Some (upnp_GetDeviceAddress (uo_resolve out d) u, (u, d))),
      nat_GetExternalAddress = (\<lambda>(u, d). let (r, d) = upnp_GetExternalAddress u d in Some (r, (u, d))),
      nat_GetInternalAddress = (\<lambda>(u, d). Some (upnp_GetInternalAddress (uo_dial out d) u, (u, d))),
      nat_AddPortMapping = (\<lambda>ctx protocol internalPort description timeout (u, d).
        let (r, reqs, u', d') = upnp_AddPortMapping (uo_dial out d) (uo_rand out d) ctx protocol internalPort
                                  description timeout u d
        in Some (port_err r, (u', d'))),
      nat_DeletePortMapping = (\<lambda>ctx protocol internalPort (u, d).
        let (e, u', d') = upnp_DeletePortMapping ctx protocol internalPort u d in Some (e, (u', d'))),
      nat_HealthChecker = None\<rparr>"

record 'd natpmp_outside =
  no_io :: "'d \<Rightarrow> 'd natpmp_io"
  no_GetExternalAddress :: "'d \<Rightarrow> (byte \<times> byte \<times> byte \<times> byte) or_err \<times> 'd"
  no_interfaces :: "'d \<Rightarrow> net_addr list or_err list or_err"

definition natpmp_iface :: "'d natpmp_outside \<Rightarrow> (natpmpNAT \<times> 'd) NAT_iface" where
  "natpmp_iface out =
     \<lparr>nat_Type = (\<lambda>(n, d). natpmp_Type n),
      nat_GetDeviceAddress = (\<lambda>(n, d). Some (Inr (natpmp_GetDeviceAddress n), (n, d))),
      nat_GetExternalAddress = (\<lambda>(n, d).
        let (r, d) = no_GetExternalAddress out d in Some (natpmp_GetExternalAddress r, (n, d))),
      nat_GetInternalAddress = (\<lambda>(n, d). Some (natpmp_GetInternalAddress (no_interfaces out d) n, (n, d))),
      nat_AddPortMapping = (\<lambda>ctx protocol internalPort description timeout (n, d).
        let (r, reqs, n', d') = natpmp_AddPortMapping (no_io out d) protocol internalPort description timeout n d
        in Some (r, (n', d'))),
      nat_DeletePortMapping = (\<lambda>ctx protocol internalPort (n, d).
        let (e, n') = natpmp_DeletePortMapping protocol internalPort n in Some (e, (n', d))),
      nat_HealthChecker = None\<rparr>"

section \<open>The implementations as providers of mappings\<close>

text \<open>The outside of a call through an interface is its context and its description.\<close>

definition iface_add ::
  "'s NAT_iface \<Rightarrow> ctx \<times> string \<Rightarrow> string \<Rightarrow> int \<Rightarrow> duration \<Rightarrow> 's \<Rightarrow> (go_err option \<times> 's) option" where
  "iface_add N x protocol port timeout s =
     map_option (\<lambda>((p, e), s). (e, s)) (nat_AddPortMapping N (fst x) protocol port (snd x) timeout s)"

definition iface_del ::
  "'s NAT_iface \<Rightarrow> ctx \<times> string \<Rightarrow> string \<Rightarrow> int \<Rightarrow> 's \<Rightarrow> (go_err option \<times> 's) option" where
  "iface_del N x protocol port s = nat_DeletePortMapping N (fst x) protocol port s"

definition p6_add ::
  "'p pcpIPv6Client \<Rightarrow> ctx \<times> string \<Rightarrow> string \<Rightarrow> int \<Rightarrow> duration \<Rightarrow> 'p \<Rightarrow> (go_err option \<times> 'p) option" where
  "p6_add P x protocol port timeout p =
     map_option (\<lambda>(r, p). (err_of r, p)) (p6_AddPortMapping P (fst x) protocol port timeout p)"

definition p6_del ::
  "'p pcpIPv6Client \<Rightarrow> ctx \<times> string \<Rightarrow> string \<Rightarrow> int \<Rightarrow> 'p \<Rightarrow> (go_err option \<times> 'p) option" where
  "p6_del P x protocol port p = p6_DeletePortMapping P (fst x) protocol port p"

text \<open>Each call through an interface is a call of the object behind it.\<close>

lemma pcp6_calls:
  "p6_add (pcp6_iface net t) x protocol port timeout p = Some (e, p') \<longleftrightarrow>
     client_add (net (snd p) (fst x), t) protocol port timeout (fst p) = Some (e, fst p') \<and> snd p' = Suc (snd p)"
  "p6_del (pcp6_iface net t) x protocol port p = Some (e, p') \<longleftrightarrow>
     client_del (net (snd p) (fst x), t) protocol port (fst p) = Some (e, fst p') \<and> snd p' = Suc (snd p)"
  by (cases p; cases p';
      auto simp: p6_add_def p6_del_def pcp6_iface_def client_add_def client_del_def map_option_case
        split: option.split)+

interpretation pcp6: mapping_service "p6_add (pcp6_iface net t)" "p6_del (pcp6_iface net t)"
  "\<lambda>p q s. client_tracked p q (fst s)" client_same
  by unfold_locales
    (auto simp: pcp6_calls intro: pcp_client.add_tracks pcp_client.add_keeps
      dest: pcp_client.delete_forgets pcp_client.delete_failed pcp_client.delete_others)

lemma upnp_calls:
  "map_option (\<lambda>(e, s). (e, fst s)) (iface_add (upnp_iface out) x protocol port timeout s) =
     upnp_add \<lparr>ue_dial = uo_dial out (snd s), ue_rand = uo_rand out (snd s), ue_ctx = fst x,
       ue_description = snd x, ue_state = snd s\<rparr> protocol port timeout (fst s)"
  "map_option (\<lambda>(e, s). (e, fst s)) (iface_del (upnp_iface out) x protocol port s) =
     upnp_del \<lparr>ue_dial = uo_dial out (snd s), ue_rand = uo_rand out (snd s), ue_ctx = fst x,
       ue_description = snd x, ue_state = snd s\<rparr> protocol port (fst s)"
  by (cases s; simp add: iface_add_def iface_del_def upnp_iface_def upnp_add_def upnp_del_def
      split_def Let_def)+

lemma upnp_callsD:
  "iface_add (upnp_iface out) x protocol port timeout s = Some (e, s') \<Longrightarrow>
     \<exists>y. upnp_add y protocol port timeout (fst s) = Some (e, fst s')"
  "iface_del (upnp_iface out) x protocol port s = Some (e, s') \<Longrightarrow>
     \<exists>y. upnp_del y protocol port (fst s) = Some (e, fst s')"
  using upnp_calls(1) [of out x protocol port timeout s] upnp_calls(2) [of out x protocol port s]
  by (auto intro: sym)

interpretation upnp_gateway: mapping_service "iface_add (upnp_iface out)" "iface_del (upnp_iface out)"
  "\<lambda>p q s. upnp_tracked p q (fst s)" upnp_same
  by unfold_locales
    (auto dest!: upnp_callsD intro: upnp.add_tracks upnp.add_keeps
      dest: upnp.delete_forgets upnp.delete_failed upnp.delete_others)

lemma natpmp_calls:
  "iface_add (natpmp_iface out) x protocol port timeout s = Some (e, s') \<Longrightarrow>
     natpmp_add (no_io out (snd s), snd s) protocol port timeout (fst s) = Some (e, fst s')"
  "iface_del (natpmp_iface out) x protocol port s = Some (e, s') \<Longrightarrow>
     natpmp_del (no_io out (snd s), snd s) protocol port (fst s) = Some (e, fst s')"
  by (cases s; cases s'; auto simp: iface_add_def iface_del_def natpmp_iface_def natpmp_add_def natpmp_del_def
      natpmp_AddPortMapping_def split: prod.splits; fail)+

interpretation natpmp_gateway: mapping_service "iface_add (natpmp_iface out)" "iface_del (natpmp_iface out)"
  "\<lambda>p q s. natpmp_tracked p q (fst s)" natpmp_same
  by unfold_locales
    (auto dest!: natpmp_calls intro: natpmp.add_tracks natpmp.add_keeps
      dest: natpmp.delete_forgets natpmp.delete_failed natpmp.delete_others)

lemma pcp_calls:
  "iface_add (pcp_iface env) x protocol port timeout s = Some (e, s') \<Longrightarrow>
     \<exists>y. nat_add y protocol port timeout (fst s) = Some (e, fst s')"
  "iface_del (pcp_iface env) x protocol port s = Some (e, s') \<Longrightarrow>
     \<exists>y. nat_del y protocol port (fst s) = Some (e, fst s')"
proof -
  let ?o = "env (snd s)"
  let ?y = "\<lparr>ne_net4 = po_net4 ?o, ne_net6 = po_net6 ?o, ne_netr = po_netr ?o, ne_ctx = fst x,
    ne_t = po_t ?o, ne_t6 = po_t6 ?o\<rparr>"
  have descr: "NAT_AddPortMapping net4 net6 netr ctx t t6 protocol port (snd x) timeout n =
      NAT_AddPortMapping net4 net6 netr ctx t t6 protocol port [] timeout n" for net4 net6 netr ctx t t6 n
    by (simp add: NAT_AddPortMapping_def)
  have "map_option (\<lambda>(e, s). (e, fst s)) (iface_add (pcp_iface env) x protocol port timeout s) =
      nat_add ?y protocol port timeout (fst s)"
    by (cases s; simp add: iface_add_def pcp_iface_def nat_add_def descr option.map_comp comp_def
      split_def)
  moreover have "map_option (\<lambda>(e, s). (e, fst s)) (iface_del (pcp_iface env) x protocol port s) =
      nat_del ?y protocol port (fst s)"
    by (cases s; simp add: iface_del_def pcp_iface_def nat_del_def option.map_comp comp_def split_def)
  ultimately show
    "iface_add (pcp_iface env) x protocol port timeout s = Some (e, s') \<Longrightarrow>
       \<exists>y. nat_add y protocol port timeout (fst s) = Some (e, fst s')"
    "iface_del (pcp_iface env) x protocol port s = Some (e, s') \<Longrightarrow>
       \<exists>y. nat_del y protocol port (fst s) = Some (e, fst s')"
    by (auto intro: sym)
qed

interpretation pcp_gateway: mapping_service "iface_add (pcp_iface env)" "iface_del (pcp_iface env)"
  "\<lambda>p q s. nat_tracked p q (fst s)" client_same
  by unfold_locales
    (auto dest!: pcp_calls intro: pcp_nat.add_tracks pcp_nat.add_keeps
      dest: pcp_nat.delete_forgets pcp_nat.delete_failed pcp_nat.delete_others)

text \<open>Their calls return: UPnP and NAT-PMP hold no lock across calls, PCP releases the locks it takes.\<close>

interpretation upnp_answers: answering "iface_add (upnp_iface out)" "iface_del (upnp_iface out)" "\<lambda>_. True"
  by unfold_locales (simp_all add: iface_add_def iface_del_def upnp_iface_def split_def Let_def, metis prod_cases3)

interpretation natpmp_answers: answering "iface_add (natpmp_iface out)" "iface_del (natpmp_iface out)" "\<lambda>_. True"
  by unfold_locales (auto simp: iface_add_def iface_del_def natpmp_iface_def split: prod.splits)

interpretation pcp_answers: answering "iface_add (pcp_iface env)" "iface_del (pcp_iface env)" "\<lambda>s. nat_ok (fst s)"
proof
  fix s :: "pcp_nat \<times> nat" and x :: "ctx \<times> string" and proto port lt
  assume "nat_ok (fst s)"
  then obtain n k where s: "s = (n, k)" "nat_ok n" by (cases s) simp
  from NAT_Add_returns [OF s(2), of "po_net4 (env k)" "po_net6 (env k)" "po_netr (env k)" "fst x" "po_t (env k)"
      "po_t6 (env k)" proto port "snd x" lt]
  show "\<exists>e s'. iface_add (pcp_iface env) x proto port lt s = Some (e, s') \<and> nat_ok (fst s')"
    by (auto simp: s(1) iface_add_def pcp_iface_def) (metis surj_pair)
  from NAT_Delete_returns [OF s(2), of "po_net4 (env k)" "po_net6 (env k)" "fst x" "po_t (env k)" "po_t6 (env k)"
      proto port]
  show "\<exists>e s'. iface_del (pcp_iface env) x proto port s = Some (e, s') \<and> nat_ok (fst s')"
    by (auto simp: s(1) iface_del_def pcp_iface_def)
qed

end
