(* ===== verification/Dual_Stack.thy ===== *)
theory Dual_Stack
  imports Nat_Interface
begin

text \<open>
  \<open>pcp_ipv6.go\<close>: an IPv4 NAT of any kind with best-effort PCPv6 pinholes. The wrapper works on the
  interfaces \<open>NAT\<close> and \<open>pcpIPv6Client\<close>; the goroutine of the IPv6 side works on the other object and is
  joined before its result is read, so it is run first here.
\<close>

section \<open>The wrapper\<close>

definition nat_pinholeTimeout :: duration where
  "nat_pinholeTimeout = 5 * second"

definition nat_errPinholeRolledBack :: go_err where
  "nat_errPinholeRolledBack = Sentinel ''nat'' ''rolled back after the IPv4 mapping failed''"

definition nat_errPinholeLeftOpen :: go_err where
  "nat_errPinholeLeftOpen = Sentinel ''nat'' ''left open after the IPv4 mapping failed''"

record ('s, 'p) natWithPCPIPv6 =
  dw_NAT :: 's
  dw_pcp6 :: 'p
  dw_pinholeErr :: "go_err option"

definition newNATWithPCPIPv6 :: "'s \<Rightarrow> 'p \<Rightarrow> ('s, 'p) natWithPCPIPv6" where
  "newNATWithPCPIPv6 ipv4 pcp6 = \<lparr>dw_NAT = ipv4, dw_pcp6 = pcp6, dw_pinholeErr = None\<rparr>"

definition wrapPinholeErr :: "go_err option \<Rightarrow> go_err option" where
  "wrapPinholeErr err =
     (case err of None \<Rightarrow> None | Some err \<Rightarrow> Some (Errorf ''pcp ipv6: %w'' [AErr err]))"

definition dual_Type :: "'s NAT_iface \<Rightarrow> ('s, 'p) natWithPCPIPv6 \<Rightarrow> string" where
  "dual_Type N w = nat_Type N (dw_NAT w) @ ''+PCPv6''"

definition dual_IPv6PinholeError :: "('s, 'p) natWithPCPIPv6 IPv6PinholeReporter" where
  "dual_IPv6PinholeError w = dw_pinholeErr w"

definition setIPv6PinholeError :: "go_err option \<Rightarrow> ('s, 'p) natWithPCPIPv6 \<Rightarrow> ('s, 'p) natWithPCPIPv6" where
  "setIPv6PinholeError err w = w\<lparr>dw_pinholeErr := err\<rparr>"

definition dual_rollbackPinhole ::
  "'p pcpIPv6Client \<Rightarrow> ctx \<Rightarrow> string \<Rightarrow> int \<Rightarrow> 'p \<Rightarrow> (go_err option \<times> 'p) option" where
  "dual_rollbackPinhole P ctx protocol internalPort p =
     (let ctx = WithTimeout (WithoutCancel ctx) nat_pinholeTimeout
      in p6_DeletePortMapping P ctx protocol internalPort p)"

definition dual_AddPortMapping ::
  "'s NAT_iface \<Rightarrow> 'p pcpIPv6Client \<Rightarrow> ctx \<Rightarrow> string \<Rightarrow> int \<Rightarrow> string \<Rightarrow> duration \<Rightarrow> ('s, 'p) natWithPCPIPv6
   \<Rightarrow> ((int \<times> go_err option) \<times> ('s, 'p) natWithPCPIPv6) option" where
  "dual_AddPortMapping N P ctx protocol internalPort description timeout w = do {
     (r6, p) \<leftarrow> p6_AddPortMapping P (WithTimeout ctx nat_pinholeTimeout) protocol internalPort timeout (dw_pcp6 w);
     ((port, err), s) \<leftarrow> nat_AddPortMapping N ctx protocol internalPort description timeout (dw_NAT w);
     let pcp6Err = err_of r6;
     if err \<noteq> None \<and> pcp6Err = None then do {
       (rollbackErr, p) \<leftarrow> dual_rollbackPinhole P ctx protocol internalPort p;
       let pcp6Err = (case rollbackErr of
                        None \<Rightarrow> nat_errPinholeRolledBack
                      | Some e \<Rightarrow> Errorf ''%w: %w'' [AErr nat_errPinholeLeftOpen, AErr e]);
       Some ((port, err),
             setIPv6PinholeError (wrapPinholeErr (Some pcp6Err)) (w\<lparr>dw_NAT := s, dw_pcp6 := p\<rparr>))
     }
     else Some ((port, err), setIPv6PinholeError (wrapPinholeErr pcp6Err) (w\<lparr>dw_NAT := s, dw_pcp6 := p\<rparr>))
   }"

definition dual_DeletePortMapping ::
  "'s NAT_iface \<Rightarrow> 'p pcpIPv6Client \<Rightarrow> ctx \<Rightarrow> string \<Rightarrow> int \<Rightarrow> ('s, 'p) natWithPCPIPv6
   \<Rightarrow> (go_err option \<times> ('s, 'p) natWithPCPIPv6) option" where
  "dual_DeletePortMapping N P ctx protocol internalPort w = do {
     (pcp6Err, p) \<leftarrow> p6_DeletePortMapping P (WithTimeout ctx nat_pinholeTimeout) protocol internalPort (dw_pcp6 w);
     (err, s) \<leftarrow> nat_DeletePortMapping N ctx protocol internalPort (dw_NAT w);
     Some (err, setIPv6PinholeError (wrapPinholeErr pcp6Err) (w\<lparr>dw_NAT := s, dw_pcp6 := p\<rparr>))
   }"

text \<open>
  The health check: \<open>EpochStateLost\<close> is called, and so clears the flag, only when the announcement
  succeeded.
\<close>

definition dual_CheckServerHealth ::
  "'s NAT_iface \<Rightarrow> 'p pcpIPv6Client \<Rightarrow> ctx \<Rightarrow> ('s, 'p) natWithPCPIPv6
   \<Rightarrow> (32 word \<times> bool) or_err \<times> ('s, 'p) natWithPCPIPv6" where
  "dual_CheckServerHealth N P ctx w =
     (let (r6, p) = p6_Announce P (WithTimeout ctx nat_pinholeTimeout) (dw_pcp6 w);
          (restarted6, p) = (case r6 of Inl err6 \<Rightarrow> (False, p) | Inr epoch6 \<Rightarrow> p6_EpochStateLost P p)
      in case nat_HealthChecker N of
           None \<Rightarrow>
             (case r6 of
                Inl err6 \<Rightarrow> (Inl (Errorf ''pcp ipv6: %w'' [AErr err6]), w\<lparr>dw_pcp6 := p\<rparr>)
              | Inr epoch6 \<Rightarrow> (Inr (epoch6, restarted6), w\<lparr>dw_pcp6 := p\<rparr>))
         | Some checker \<Rightarrow>
             let (r, s) = checker ctx (dw_NAT w); w = w\<lparr>dw_NAT := s, dw_pcp6 := p\<rparr>
             in case (r, r6) of
                  (Inl err, Inl err6) \<Rightarrow>
                    (Inl (Errorf ''%w; %w'' [AErr err, AErr (Errorf ''pcp ipv6: %w'' [AErr err6])]), w)
                | (Inl err, Inr epoch6) \<Rightarrow> (Inr (epoch6, restarted6), w)
                | (Inr (epoch, restarted), _) \<Rightarrow> (Inr (epoch, restarted \<or> restarted6), w))"

text \<open>The wrapper as a NAT: the address queries are those of the embedded NAT.\<close>

definition via_NAT ::
  "('s \<Rightarrow> ('r \<times> 's) option) \<Rightarrow> ('s, 'p) natWithPCPIPv6 \<Rightarrow> ('r \<times> ('s, 'p) natWithPCPIPv6) option" where
  "via_NAT f w = map_option (\<lambda>(r, s). (r, w\<lparr>dw_NAT := s\<rparr>)) (f (dw_NAT w))"

definition dual_iface :: "'s NAT_iface \<Rightarrow> 'p pcpIPv6Client \<Rightarrow> ('s, 'p) natWithPCPIPv6 NAT_iface" where
  "dual_iface N P =
     \<lparr>nat_Type = dual_Type N,
      nat_GetDeviceAddress = via_NAT (nat_GetDeviceAddress N),
      nat_GetExternalAddress = via_NAT (nat_GetExternalAddress N),
      nat_GetInternalAddress = via_NAT (nat_GetInternalAddress N),
      nat_AddPortMapping = dual_AddPortMapping N P,
      nat_DeletePortMapping = dual_DeletePortMapping N P,
      nat_HealthChecker = Some (dual_CheckServerHealth N P)\<rparr>"

section \<open>Lemmas\<close>

lemma wrapPinholeErr_simps [simp]:
  "wrapPinholeErr None = None" "wrapPinholeErr (Some e) = Some (Errorf ''pcp ipv6: %w'' [AErr e])"
  "wrapPinholeErr e' = None \<longleftrightarrow> e' = None"
  by (simp_all add: wrapPinholeErr_def split: option.split)

lemma dual_Add_cases:
  assumes "dual_AddPortMapping N P ctx protocol ip descr timeout w = Some ((port, err), w')"
  obtains (Kept) r6 p s where
    "p6_AddPortMapping P (WithTimeout ctx nat_pinholeTimeout) protocol ip timeout (dw_pcp6 w) = Some (r6, p)"
    "nat_AddPortMapping N ctx protocol ip descr timeout (dw_NAT w) = Some ((port, err), s)"
    "err = None \<or> err_of r6 \<noteq> None"
    "w' = \<lparr>dw_NAT = s, dw_pcp6 = p, dw_pinholeErr = wrapPinholeErr (err_of r6)\<rparr>"
  | (RolledBack) r6 p s rb p' where
    "p6_AddPortMapping P (WithTimeout ctx nat_pinholeTimeout) protocol ip timeout (dw_pcp6 w) = Some (r6, p)"
    "nat_AddPortMapping N ctx protocol ip descr timeout (dw_NAT w) = Some ((port, err), s)"
    "err \<noteq> None" "err_of r6 = None"
    "p6_DeletePortMapping P (WithTimeout (WithoutCancel ctx) nat_pinholeTimeout) protocol ip p = Some (rb, p')"
    "w' = \<lparr>dw_NAT = s, dw_pcp6 = p', dw_pinholeErr = wrapPinholeErr (Some (case rb of
        None \<Rightarrow> nat_errPinholeRolledBack
      | Some e \<Rightarrow> Errorf ''%w: %w'' [AErr nat_errPinholeLeftOpen, AErr e]))\<rparr>"
proof -
  from assms obtain r6 p s where a:
    "p6_AddPortMapping P (WithTimeout ctx nat_pinholeTimeout) protocol ip timeout (dw_pcp6 w) = Some (r6, p)"
    "nat_AddPortMapping N ctx protocol ip descr timeout (dw_NAT w) = Some ((port, err), s)"
    by (fastforce simp: dual_AddPortMapping_def bind_eq_Some_conv Let_def split: if_splits)
  show ?thesis
  proof (cases "err \<noteq> None \<and> err_of r6 = None")
    case False
    with assms a show ?thesis
      by (intro Kept [OF a]) (cases w; auto simp: dual_AddPortMapping_def setIPv6PinholeError_def Let_def)+
  next
    case True
    with assms a obtain rb p' where rb:
      "p6_DeletePortMapping P (WithTimeout (WithoutCancel ctx) nat_pinholeTimeout) protocol ip p = Some (rb, p')"
      by (auto simp: dual_AddPortMapping_def dual_rollbackPinhole_def Let_def bind_eq_Some_conv)
    with assms a True show ?thesis
      by (intro RolledBack [OF a _ _ rb])
        (cases w; auto simp: dual_AddPortMapping_def dual_rollbackPinhole_def setIPv6PinholeError_def Let_def)+
  qed
qed

lemma dual_Delete_result:
  assumes "dual_DeletePortMapping N P ctx protocol ip w = Some (err, w')"
  obtains e6 p s where
    "p6_DeletePortMapping P (WithTimeout ctx nat_pinholeTimeout) protocol ip (dw_pcp6 w) = Some (e6, p)"
    "nat_DeletePortMapping N ctx protocol ip (dw_NAT w) = Some (err, s)"
    "w' = \<lparr>dw_NAT = s, dw_pcp6 = p, dw_pinholeErr = wrapPinholeErr e6\<rparr>"
  using assms
  by (cases w) (auto simp: dual_DeletePortMapping_def setIPv6PinholeError_def bind_eq_Some_conv)

section \<open>The pinholes\<close>

text \<open>
  What the wrapper says of its pinholes, for a client that keeps the contract of a provider of mappings
  and for whatever NAT.
\<close>

locale pinholes = mapping_service "p6_add P" "p6_del P" tracked same
  for P :: "'p pcpIPv6Client" and tracked same
begin

lemma pinhole_after_add:
  assumes "dual_AddPortMapping N P ctx protocol ip descr timeout w = Some ((port, err), w')" and "0 < timeout"
  shows "dual_IPv6PinholeError w' = None \<Longrightarrow> err = None \<and> tracked protocol ip (dw_pcp6 w')"
    and "err \<noteq> None \<Longrightarrow>
      (\<exists>e6 p. p6_AddPortMapping P (WithTimeout ctx nat_pinholeTimeout) protocol ip timeout (dw_pcp6 w) =
           Some (Inl e6, p) \<and> dual_IPv6PinholeError w' = wrapPinholeErr (Some e6)) \<or>
      dual_IPv6PinholeError w' = wrapPinholeErr (Some nat_errPinholeRolledBack) \<and>
        \<not> tracked protocol ip (dw_pcp6 w') \<or>
      (\<exists>e. dual_IPv6PinholeError w' = wrapPinholeErr (Some (Errorf ''%w: %w'' [AErr nat_errPinholeLeftOpen, AErr e])))"
proof -
  have "(dual_IPv6PinholeError w' = None \<longrightarrow> err = None \<and> tracked protocol ip (dw_pcp6 w')) \<and>
    (err \<noteq> None \<longrightarrow>
      (\<exists>e6 p. p6_AddPortMapping P (WithTimeout ctx nat_pinholeTimeout) protocol ip timeout (dw_pcp6 w) =
           Some (Inl e6, p) \<and> dual_IPv6PinholeError w' = wrapPinholeErr (Some e6)) \<or>
      dual_IPv6PinholeError w' = wrapPinholeErr (Some nat_errPinholeRolledBack) \<and>
        \<not> tracked protocol ip (dw_pcp6 w') \<or>
      (\<exists>e. dual_IPv6PinholeError w' = wrapPinholeErr (Some (Errorf ''%w: %w'' [AErr nat_errPinholeLeftOpen, AErr e]))))"
    using assms(1)
  proof (cases rule: dual_Add_cases)
    case (Kept r6 p s)
    show ?thesis
    proof (cases r6)
      case (Inl e6)
      with Kept show ?thesis by (auto simp: dual_IPv6PinholeError_def)
    next
      case (Inr m)
      then have "p6_add P (WithTimeout ctx nat_pinholeTimeout, []) protocol ip timeout (dw_pcp6 w) = Some (None, p)"
        using Kept(1) by (simp add: p6_add_def)
      from add_tracks [OF this assms(2)] Kept Inr show ?thesis by (simp add: dual_IPv6PinholeError_def)
    qed
  next
    case (RolledBack r6 p s rb p')
    have "\<not> tracked protocol ip p'" if "rb = None"
      by (rule delete_forgets [of "(WithTimeout (WithoutCancel ctx) nat_pinholeTimeout, [])" protocol ip p])
        (use RolledBack(5) that in \<open>simp add: p6_del_def\<close>)
    with RolledBack show ?thesis by (auto simp: dual_IPv6PinholeError_def split: option.splits)
  qed
  then show "dual_IPv6PinholeError w' = None \<Longrightarrow> err = None \<and> tracked protocol ip (dw_pcp6 w')"
    and "err \<noteq> None \<Longrightarrow>
      (\<exists>e6 p. p6_AddPortMapping P (WithTimeout ctx nat_pinholeTimeout) protocol ip timeout (dw_pcp6 w) =
           Some (Inl e6, p) \<and> dual_IPv6PinholeError w' = wrapPinholeErr (Some e6)) \<or>
      dual_IPv6PinholeError w' = wrapPinholeErr (Some nat_errPinholeRolledBack) \<and>
        \<not> tracked protocol ip (dw_pcp6 w') \<or>
      (\<exists>e. dual_IPv6PinholeError w' = wrapPinholeErr (Some (Errorf ''%w: %w'' [AErr nat_errPinholeLeftOpen, AErr e])))"
    by blast+
qed

lemma pinhole_after_delete:
  assumes "dual_DeletePortMapping N P ctx protocol ip w = Some (err, w')" and "dual_IPv6PinholeError w' = None"
  shows "\<not> tracked protocol ip (dw_pcp6 w')"
  using assms(1)
proof (cases rule: dual_Delete_result)
  case (1 e6 p s)
  then have "p6_del P (WithTimeout ctx nat_pinholeTimeout, []) protocol ip (dw_pcp6 w) = Some (None, dw_pcp6 w')"
    using assms(2) by (simp add: p6_del_def dual_IPv6PinholeError_def)
  then show ?thesis by (rule delete_forgets)
qed

end

interpretation pcp_pinholes: pinholes "pcp6_iface net t" "\<lambda>p q s. client_tracked p q (fst s)" client_same
  by unfold_locales

section \<open>Two providers make one\<close>

text \<open>
  The contract of the wrapper, for any NAT and any pinhole client that keep the contract of a provider
  of mappings: it keeps it itself, with the mappings of the IPv4 NAT.
\<close>

locale dual_stack =
  v4: mapping_service "iface_add N" "iface_del N" tracked4 same4 +
  v6: pinholes P tracked6 same6
  for N :: "'s NAT_iface" and P :: "'p pcpIPv6Client"
    and tracked4 :: "string \<Rightarrow> int \<Rightarrow> 's \<Rightarrow> bool" and same4 :: "string \<Rightarrow> int \<Rightarrow> string \<Rightarrow> int \<Rightarrow> bool"
    and tracked6 :: "string \<Rightarrow> int \<Rightarrow> 'p \<Rightarrow> bool" and same6 :: "string \<Rightarrow> int \<Rightarrow> string \<Rightarrow> int \<Rightarrow> bool"
begin

lemma dual_add_v4:
  assumes "iface_add (dual_iface N P) x protocol port timeout w = Some (e, w')"
  shows "iface_add N x protocol port timeout (dw_NAT w) = Some (e, dw_NAT w')"
proof -
  from assms obtain p where
    "dual_AddPortMapping N P (fst x) protocol port (snd x) timeout w = Some ((p, e), w')"
    by (auto simp: iface_add_def dual_iface_def)
  then show ?thesis
    by (rule dual_Add_cases) (simp_all add: iface_add_def)
qed

lemma dual_del_v4:
  assumes "iface_del (dual_iface N P) x protocol port w = Some (e, w')"
  shows "iface_del N x protocol port (dw_NAT w) = Some (e, dw_NAT w')"
proof -
  from assms have "dual_DeletePortMapping N P (fst x) protocol port w = Some (e, w')"
    by (simp add: iface_del_def dual_iface_def)
  then show ?thesis
    by (rule dual_Delete_result) (simp add: iface_del_def)
qed

end

sublocale dual_stack \<subseteq> dual: mapping_service "iface_add (dual_iface N P)" "iface_del (dual_iface N P)"
  "\<lambda>p q w. tracked4 p q (dw_NAT w)" same4
  by unfold_locales
    (auto dest!: dual_add_v4 dual_del_v4 intro: v4.add_tracks v4.add_keeps
      dest: v4.delete_forgets v4.delete_failed v4.delete_others)

text \<open>The gateways that \<open>selectGateway\<close> can wrap, each with a PCP client behind the pinholes.\<close>

interpretation dual_pcp: dual_stack "pcp_iface env" "pcp6_iface net t"
  "\<lambda>p q s. nat_tracked p q (fst s)" client_same "\<lambda>p q s. client_tracked p q (fst s)" client_same
  by unfold_locales

interpretation dual_upnp: dual_stack "upnp_iface out" "pcp6_iface net t"
  "\<lambda>p q s. upnp_tracked p q (fst s)" upnp_same "\<lambda>p q s. client_tracked p q (fst s)" client_same
  by unfold_locales

interpretation dual_natpmp: dual_stack "natpmp_iface out" "pcp6_iface net t"
  "\<lambda>p q s. natpmp_tracked p q (fst s)" natpmp_same "\<lambda>p q s. client_tracked p q (fst s)" client_same
  by unfold_locales

section \<open>Properties\<close>

text \<open>
  C12. When the IPv4 mapping of a dual-stack call fails, no pinhole is left behind unnoticed, whatever the
  IPv4 NAT: either the pinhole was never opened and the reported error says why, or it was closed again
  and the client holds no mapping for the port, or the error reports that it was left open. And a
  pinhole error of nil means that the call succeeded on both stacks and the client can delete the
  pinhole.
\<close>

theorem dual_failed_add_rolls_back:
  assumes "dual_AddPortMapping N (pcp6_iface net t) ctx protocol ip descr timeout w = Some ((port, err), w')"
    and "0 < timeout"
  shows "(dual_IPv6PinholeError w' = None \<longrightarrow> err = None \<and> client_tracked protocol ip (fst (dw_pcp6 w'))) \<and>
    (err \<noteq> None \<longrightarrow>
      (\<exists>e6. dual_IPv6PinholeError w' = wrapPinholeErr (Some e6) \<and>
         (\<exists>p. p6_AddPortMapping (pcp6_iface net t) (WithTimeout ctx nat_pinholeTimeout) protocol ip timeout (dw_pcp6 w) =
            Some (Inl e6, p))) \<or>
      dual_IPv6PinholeError w' = wrapPinholeErr (Some nat_errPinholeRolledBack) \<and>
        \<not> client_tracked protocol ip (fst (dw_pcp6 w')) \<or>
      (\<exists>e. dual_IPv6PinholeError w' = wrapPinholeErr (Some (Errorf ''%w: %w'' [AErr nat_errPinholeLeftOpen, AErr e]))))"
  using pcp_pinholes.pinhole_after_add [OF assms] by blast

text \<open>A NAT that refuses every mapping.\<close>

definition refusing_NAT :: "unit NAT_iface" where
  "refusing_NAT =
     \<lparr>nat_Type = (\<lambda>_. ''refusing''), nat_GetDeviceAddress = (\<lambda>s. Some (Inl nat_ErrNoNATFound, s)),
      nat_GetExternalAddress = (\<lambda>s. Some (Inl nat_ErrNoNATFound, s)),
      nat_GetInternalAddress = (\<lambda>s. Some (Inl nat_ErrNoNATFound, s)),
      nat_AddPortMapping = (\<lambda>_ _ _ _ _ s. Some ((0, Some (ExtErr ''refused'')), s)),
      nat_DeletePortMapping = (\<lambda>_ _ _ s. Some (None, s)), nat_HealthChecker = None\<rparr>"

lemma refused_dual_add:
  "\<exists>w'. dual_AddPortMapping refusing_NAT (pcp6_iface (\<lambda>_. granting_env) 0) Caller ''udp'' 51820 [] (60 * second)
     (newNATWithPCPIPv6 () (client_v4, 0)) = Some ((0, Some (ExtErr ''refused'')), w')"
proof -
  obtain r evs c' where add:
    "AddPortMapping (granting_env (WithTimeout Caller nat_pinholeTimeout)) 0 ''udp'' 51820 (60 * second) client_v4 =
       Some (r, evs, c')" "locks_free c'"
    using Add_returns [OF client_v4_locks_free] by blast
  obtain e evs' c'' where
    "DeletePortMapping (granting_env (WithTimeout (WithoutCancel Caller) nat_pinholeTimeout)) 0 ''udp'' 51820 c' =
       Some (e, evs', c'')"
    using Delete_returns [OF add(2)] by blast
  with add show ?thesis
    by (auto simp: dual_AddPortMapping_def dual_rollbackPinhole_def refusing_NAT_def pcp6_iface_def
        newNATWithPCPIPv6_def Let_def)
qed

theorem dual_failed_add_rolls_back_witness:
  "\<exists>w'. dual_AddPortMapping refusing_NAT (pcp6_iface (\<lambda>_. granting_env) 0) Caller ''udp'' 51820 [] (60 * second)
     (newNATWithPCPIPv6 () (client_v4, 0)) = Some ((0, Some (ExtErr ''refused'')), w') \<and>
     dual_IPv6PinholeError w' \<noteq> None"
proof -
  from refused_dual_add obtain w' where
    w: "dual_AddPortMapping refusing_NAT (pcp6_iface (\<lambda>_. granting_env) 0) Caller ''udp'' 51820 [] (60 * second)
     (newNATWithPCPIPv6 () (client_v4, 0)) = Some ((0, Some (ExtErr ''refused'')), w')" by blast
  from dual_failed_add_rolls_back [OF w] w show ?thesis by (auto simp: second_def)
qed

lemma pcp6_returns:
  assumes "locks_free (fst p)"
  shows "\<exists>r p'. p6_AddPortMapping (pcp6_iface net t) ctx protocol ip timeout p = Some (r, p') \<and> locks_free (fst p')"
    and "\<exists>e p'. p6_DeletePortMapping (pcp6_iface net t) ctx protocol ip p = Some (e, p') \<and> locks_free (fst p')"
proof -
  obtain c k where p: "p = (c, k)" by fastforce
  with assms have free: "locks_free c" by simp
  obtain r evs c' where "AddPortMapping (net k ctx) t protocol ip timeout c = Some (r, evs, c')" "locks_free c'"
    using Add_returns [OF free] by blast
  with p show "\<exists>r p'. p6_AddPortMapping (pcp6_iface net t) ctx protocol ip timeout p = Some (r, p') \<and> locks_free (fst p')"
    by (simp add: pcp6_iface_def)
  obtain e evs c' where "DeletePortMapping (net k ctx) t protocol ip c = Some (e, evs, c')" "locks_free c'"
    using Delete_returns [OF free] by blast
  with p show "\<exists>e p'. p6_DeletePortMapping (pcp6_iface net t) ctx protocol ip p = Some (e, p') \<and> locks_free (fst p')"
    by (simp add: pcp6_iface_def)
qed

text \<open>The calls of the wrapper return when those of the two objects behind it do.\<close>

interpretation pcp6_answers: answering "p6_add (pcp6_iface net t)" "p6_del (pcp6_iface net t)"
  "\<lambda>p. locks_free (fst p)"
proof
  fix p :: "client \<times> nat" and x :: "ctx \<times> string" and proto port lt
  assume "locks_free (fst p)"
  from pcp6_returns [OF this, of net t "fst x" proto port]
  show "\<exists>e p'. p6_add (pcp6_iface net t) x proto port lt p = Some (e, p') \<and> locks_free (fst p')"
    and "\<exists>e p'. p6_del (pcp6_iface net t) x proto port p = Some (e, p') \<and> locks_free (fst p')"
    by (fastforce simp: p6_add_def p6_del_def)+
qed

locale dual_answering =
  v4: answering "iface_add N" "iface_del N" ok4 + v6: answering "p6_add P" "p6_del P" ok6
  for N :: "'s NAT_iface" and P :: "'p pcpIPv6Client" and ok4 :: "'s \<Rightarrow> bool" and ok6 :: "'p \<Rightarrow> bool"
begin

lemma v4_add: "ok4 s \<Longrightarrow> \<exists>r s'. nat_AddPortMapping N ctx protocol ip descr timeout s = Some (r, s') \<and> ok4 s'"
  using v4.add_answers [of s "(ctx, descr)" protocol ip timeout] by (fastforce simp: iface_add_def)

lemma v4_delete: "ok4 s \<Longrightarrow> \<exists>e s'. nat_DeletePortMapping N ctx protocol ip s = Some (e, s') \<and> ok4 s'"
  using v4.delete_answers [of s "(ctx, [])" protocol ip] by (simp add: iface_del_def)

lemma v6_add: "ok6 p \<Longrightarrow> \<exists>r p'. p6_AddPortMapping P ctx protocol ip timeout p = Some (r, p') \<and> ok6 p'"
  using v6.add_answers [of p "(ctx, [])" protocol ip timeout] by (fastforce simp: p6_add_def)

lemma v6_delete: "ok6 p \<Longrightarrow> \<exists>e p'. p6_DeletePortMapping P ctx protocol ip p = Some (e, p') \<and> ok6 p'"
  using v6.delete_answers [of p "(ctx, [])" protocol ip] by (simp add: p6_del_def)

end

sublocale dual_answering \<subseteq> dual: answering "iface_add (dual_iface N P)" "iface_del (dual_iface N P)"
  "\<lambda>w. ok4 (dw_NAT w) \<and> ok6 (dw_pcp6 w)"
proof
  fix w :: "('s, 'p) natWithPCPIPv6" and x :: "ctx \<times> string" and proto port lt
  assume ok: "ok4 (dw_NAT w) \<and> ok6 (dw_pcp6 w)"
  obtain r6 p where 6: "p6_AddPortMapping P (WithTimeout (fst x) nat_pinholeTimeout) proto port lt (dw_pcp6 w) =
      Some (r6, p)" "ok6 p" using v6_add ok by blast
  obtain port' err s where 4: "nat_AddPortMapping N (fst x) proto port (snd x) lt (dw_NAT w) = Some ((port', err), s)" "ok4 s"
    using v4_add ok by fastforce
  obtain rb p' where rb: "p6_DeletePortMapping P (WithTimeout (WithoutCancel (fst x)) nat_pinholeTimeout) proto port p =
      Some (rb, p')" "ok6 p'" using v6_delete 6(2) by blast
  from 6 4 rb show "\<exists>e w'. iface_add (dual_iface N P) x proto port lt w = Some (e, w') \<and>
      ok4 (dw_NAT w') \<and> ok6 (dw_pcp6 w')"
    by (auto simp: iface_add_def dual_iface_def dual_AddPortMapping_def dual_rollbackPinhole_def
        setIPv6PinholeError_def Let_def)
  obtain e6 q where d6: "p6_DeletePortMapping P (WithTimeout (fst x) nat_pinholeTimeout) proto port (dw_pcp6 w) =
      Some (e6, q)" "ok6 q" using v6_delete ok by blast
  obtain e s' where d4: "nat_DeletePortMapping N (fst x) proto port (dw_NAT w) = Some (e, s')" "ok4 s'"
    using v4_delete ok by blast
  from d6 d4 show "\<exists>e w'. iface_del (dual_iface N P) x proto port w = Some (e, w') \<and>
      ok4 (dw_NAT w') \<and> ok6 (dw_pcp6 w')"
    by (auto simp: iface_del_def dual_iface_def dual_DeletePortMapping_def setIPv6PinholeError_def)
qed

interpretation dual_pcp_answers: dual_answering "pcp_iface env" "pcp6_iface net t"
  "\<lambda>s. nat_ok (fst s)" "\<lambda>p. locks_free (fst p)"
  by unfold_locales

interpretation dual_upnp_answers: dual_answering "upnp_iface out" "pcp6_iface net t" "\<lambda>_. True" "\<lambda>p. locks_free (fst p)"
  by unfold_locales

interpretation dual_natpmp_answers: dual_answering "natpmp_iface out" "pcp6_iface net t" "\<lambda>_. True" "\<lambda>p. locks_free (fst p)"
  by unfold_locales

text \<open>
  C28. The pinholes never change what an IPv4 caller sees: whenever the embedded NAT answers a call, the
  dual-stack wrapper answers it with exactly the same port and error and leaves the NAT in exactly the
  same state, whatever the IPv6 side does.
\<close>

theorem dual_stack_transparent:
  assumes "locks_free (fst (dw_pcp6 w))"
    and "nat_AddPortMapping N ctx protocol ip descr timeout (dw_NAT w) = Some (r, s)"
    and "nat_DeletePortMapping N ctx' protocol' ip' (dw_NAT w) = Some (e, s')"
  shows "(\<exists>w'. dual_AddPortMapping N (pcp6_iface net t) ctx protocol ip descr timeout w = Some (r, w') \<and>
            dw_NAT w' = s \<and> locks_free (fst (dw_pcp6 w'))) \<and>
         (\<exists>w'. dual_DeletePortMapping N (pcp6_iface net t) ctx' protocol' ip' w = Some (e, w') \<and>
            dw_NAT w' = s' \<and> locks_free (fst (dw_pcp6 w')))"
proof -
  obtain r6 p where 6: "p6_AddPortMapping (pcp6_iface net t) (WithTimeout ctx nat_pinholeTimeout) protocol ip timeout
      (dw_pcp6 w) = Some (r6, p)" "locks_free (fst p)"
    using pcp6_returns(1) [OF assms(1)] by blast
  obtain rb p' where rb: "p6_DeletePortMapping (pcp6_iface net t) (WithTimeout (WithoutCancel ctx) nat_pinholeTimeout)
      protocol ip p = Some (rb, p')" "locks_free (fst p')"
    using pcp6_returns(2) [OF 6(2)] by blast
  obtain e6 q where d: "p6_DeletePortMapping (pcp6_iface net t) (WithTimeout ctx' nat_pinholeTimeout) protocol' ip'
      (dw_pcp6 w) = Some (e6, q)" "locks_free (fst q)"
    using pcp6_returns(2) [OF assms(1)] by blast
  show ?thesis
    using 6 rb d assms(2,3)
    by (cases r)
      (auto simp: dual_AddPortMapping_def dual_DeletePortMapping_def dual_rollbackPinhole_def
        setIPv6PinholeError_def Let_def)
qed

theorem dual_stack_transparent_witness:
  "\<exists>w'. dual_AddPortMapping refusing_NAT (pcp6_iface (\<lambda>_. silent_env) 0) Caller ''udp'' 51820 [] second
     (newNATWithPCPIPv6 () (client_v4, 0)) = Some ((0, Some (ExtErr ''refused'')), w')"
proof -
  let ?w = "newNATWithPCPIPv6 () (client_v4, 0)"
  have free: "locks_free (fst (dw_pcp6 ?w))" by (simp add: newNATWithPCPIPv6_def)
  have add: "nat_AddPortMapping refusing_NAT Caller ''udp'' 51820 [] second (dw_NAT ?w) =
      Some ((0, Some (ExtErr ''refused'')), ())"
    and del: "nat_DeletePortMapping refusing_NAT Caller ''udp'' 51820 (dw_NAT ?w) = Some (None, ())"
    by (simp_all add: refusing_NAT_def newNATWithPCPIPv6_def)
  from dual_stack_transparent [OF free add del, of "\<lambda>_. silent_env" 0] show ?thesis by blast
qed

text \<open>
  C30. The dual-stack health check: it fails exactly when the IPv6 server does not answer and the IPv4
  NAT cannot report or does not; it gives the IPv4 epoch when there is one and the IPv6 epoch otherwise;
  it reports a restart exactly when a stack that answered lost its state, and an IPv6 loss that was
  reported is not reported again, while one that could not be asked for stays pending.
\<close>

theorem dual_health_verdict:
  assumes "dual_CheckServerHealth N (pcp6_iface net t) ctx w = (r, w')"
    and "Announce (net (snd (dw_pcp6 w)) (WithTimeout ctx nat_pinholeTimeout)) (fst (dw_pcp6 w)) = (a6, evs, c6)"
    and "v4 = (case nat_HealthChecker N of
                 None \<Rightarrow> Inl nat_ErrNoNATFound | Some check \<Rightarrow> fst (check ctx (dw_NAT w)))"
  shows "((\<exists>e. r = Inl e) \<longleftrightarrow> (\<exists>e. a6 = Inl e) \<and> (\<exists>e. v4 = Inl e)) \<and>
    (\<forall>epoch restarted. r = Inr (epoch, restarted) \<longrightarrow>
       epoch = (case v4 of Inr (epoch4, _) \<Rightarrow> epoch4 | Inl _ \<Rightarrow> projr a6) \<and>
       (restarted \<longleftrightarrow> (\<exists>epoch4. v4 = Inr (epoch4, True)) \<or> (\<exists>epoch6. a6 = Inr epoch6) \<and> c_epochStateLost c6)) \<and>
    c_epochStateLost (fst (dw_pcp6 w')) = ((\<exists>e. a6 = Inl e) \<and> c_epochStateLost c6)"
proof -
  obtain c k where p: "dw_pcp6 w = (c, k)" by fastforce
  show ?thesis
  proof (cases "nat_HealthChecker N")
    case None
    with assms p show ?thesis
      by (cases a6) (auto simp: dual_CheckServerHealth_def pcp6_iface_def EpochStateLost_def)
  next
    case (Some check)
    obtain r4 s where "check ctx (dw_NAT w) = (r4, s)" by fastforce
    with Some assms p show ?thesis
      by (cases a6; cases r4)
        (auto simp: dual_CheckServerHealth_def pcp6_iface_def EpochStateLost_def)
  qed
qed

theorem dual_health_verdict_witness:
  "\<exists>restarted w'. dual_CheckServerHealth refusing_NAT (pcp6_iface (\<lambda>_. announcing_env [192, 168, 1, 1]) 0) Caller
     (newNATWithPCPIPv6 () (client_v4, 0)) = (Inr (100, restarted), w') \<and> \<not> c_epochStateLost (fst (dw_pcp6 w'))"
proof -
  let ?w = "newNATWithPCPIPv6 () (client_v4, 0)"
  have w: "dw_pcp6 ?w = (client_v4, 0)" by (simp add: newNATWithPCPIPv6_def)
  obtain evs c' where a: "Announce (announcing_env [192, 168, 1, 1] (WithTimeout Caller nat_pinholeTimeout)) client_v4 =
      (Inr 100, evs, c')"
    using announcing_Announce [of client_v4 "[192, 168, 1, 1]"] by (fastforce simp: addr_defs put_be_def)
  obtain r w' where h: "dual_CheckServerHealth refusing_NAT (pcp6_iface (\<lambda>_. announcing_env [192, 168, 1, 1]) 0) Caller ?w =
      (r, w')" by fastforce
  have check: "nat_HealthChecker refusing_NAT = None" by (simp add: refusing_NAT_def)
  from dual_health_verdict [OF h _ refl, where evs = evs and ?a6.0 = "Inr 100" and ?c6.0 = c'] a
  show ?thesis unfolding h by (cases r) (auto simp: w check)
qed

text \<open>The IPv4 part of a PCP NAT alone.\<close>

lemma NAT_v4_only_add:
  assumes "n_client m = Some c" and "n_client6 m = None"
    and "AddPortMapping (net4 ctx) t protocol ip timeout c = Some (r4, evs, c')"
  shows "\<exists>m'. NAT_AddPortMapping net4 net6 netr ctx t t6 protocol ip descr timeout m =
      Some (case r4 of Inl err \<Rightarrow> Inl (Errorf ''add mapping: %w'' [AErr err]) | Inr m \<Rightarrow> Inr (uint (ExternalPort m)),
        evs, [], m') \<and> n_client m' = Some c'"
  using assms by (auto simp: NAT_AddPortMapping_def add_pinhole_def Let_def split: sum.split)

lemma NAT_v4_only_delete:
  assumes "n_client m = Some c" and "n_client6 m = None"
    and "DeletePortMapping (net4 ctx) t protocol ip c = Some (d4, dvs, d')"
  shows "\<exists>m'. NAT_DeletePortMapping net4 net6 ctx t t6 protocol ip m =
      Some (map_option (\<lambda>err. Errorf ''delete mapping: %w'' [AErr err]) d4, dvs, [], m') \<and> n_client m' = Some d'"
  using assms by (auto simp: NAT_DeletePortMapping_def delete_pinhole_def Let_def)

text \<open>What the two dual-stack implementations share, an add and a delete at a time.\<close>

lemmas pinhole_timeouts = pinholeTimeout_def nat_pinholeTimeout_def

lemmas dual_pcp_defs = dual_rollbackPinhole_def newNATWithPCPIPv6_def setIPv6PinholeError_def
  dual_IPv6PinholeError_def IPv6PinholeError_def pcp_iface_def pcp6_iface_def

lemma dual_add_agrees:
  assumes "n_client n = Some c" and "n_client6 n = Some c6"
    and "NAT_AddPortMapping net4 net6 netr ctx t t protocol ip descr timeout n = Some (r, evs, evs6, n1)"
    and "n_client m = Some c" and "n_client6 m = None" and "w = newNATWithPCPIPv6 (m, k) (c6, 0)"
    and "po_net4 (env k) = net4" and "po_t (env k) = t" and "net 0 = net6" and "net (Suc 0) = netr"
  shows "\<exists>w1. dual_AddPortMapping (pcp_iface env) (pcp6_iface net t) ctx protocol ip descr timeout w =
              Some (port_err r, w1) \<and>
            n_client (fst (dw_NAT w1)) = n_client n1 \<and> Some (fst (dw_pcp6 w1)) = n_client6 n1 \<and>
            (dual_IPv6PinholeError w1 = None \<longleftrightarrow> IPv6PinholeError n1 = None)"
proof (rule NAT_Add_cases [OF assms(3,1)])
  fix e6 ev6 p r4 c'
  assume add6: "add_pinhole net6 ctx t protocol ip timeout (n_client6 n) = Some (e6, ev6, p)"
    and add4: "AddPortMapping (net4 ctx) t protocol ip timeout c = Some (r4, evs, c')" and c': "n_client n1 = Some c'"
    and r: "r = (case r4 of Inl err \<Rightarrow> Inl (Errorf ''add mapping: %w'' [AErr err]) | Inr m \<Rightarrow> Inr (uint (ExternalPort m)))"
    and out: "if (\<exists>err. r4 = Inl err) \<and> e6 = None \<and> p \<noteq> None
     then \<exists>c6 re evr c6'. p = Some c6 \<and>
       rollbackPinhole netr ctx t protocol ip c6 = Some (re, evr, c6') \<and> n_client6 n1 = Some c6' \<and>
       n_pinholeErr n1 = Some (Errorf ''pcp ipv6: %w'' [AErr (case re of None \<Rightarrow> errPinholeRolledBack
         | Some e \<Rightarrow> Errorf ''%w: %w'' [AErr errPinholeLeftOpen, AErr e])])
     else n_client6 n1 = p \<and> n_pinholeErr n1 = map_option (\<lambda>err. Errorf ''pcp ipv6: %w'' [AErr err]) e6"
  obtain m1 where m1: "NAT_AddPortMapping net4 (po_net6 (env k)) (po_netr (env k)) ctx t (po_t6 (env k))
      protocol ip descr timeout m = Some (r, evs, [], m1)" "n_client m1 = Some c'"
    using NAT_v4_only_add [where ?net4.0 = net4, OF assms(4,5) add4] unfolding r by blast
  from add6 assms(2) obtain r6 c6' where 6: "p = Some c6'" "e6 = err_of r6"
    "AddPortMapping (net6 (WithTimeout ctx nat_pinholeTimeout)) t protocol ip timeout c6 = Some (r6, ev6, c6')"
    by (auto simp: add_pinhole_def pinhole_timeouts bind_eq_Some_conv)
  note defs = dual_AddPortMapping_def dual_pcp_defs assms(6-10)
  show ?thesis
  proof (cases "(\<exists>err. r4 = Inl err) \<and> e6 = None")
    case True
    with out 6(1) obtain re evr c6'' where rb: "rollbackPinhole netr ctx t protocol ip c6' = Some (re, evr, c6'')"
      "n_client6 n1 = Some c6''" "n_pinholeErr n1 \<noteq> None" by auto
    have "err_of r6 = None" "\<exists>x. err_of r = Some x" using True r 6(2) by auto
    with rb 6 m1 c' show ?thesis
      by (auto simp: defs rollbackPinhole_def pinhole_timeouts port_err_def Let_def
          split: sum.splits)
  next
    case False
    with out have n1: "n_client6 n1 = p" "n_pinholeErr n1 = map_option (\<lambda>err. Errorf ''pcp ipv6: %w'' [AErr err]) e6"
      by (auto split: if_splits)
    have "err_of r = None \<or> err_of r6 \<noteq> None" using False r 6(2) by (cases r4) auto
    with n1 6 m1 c' show ?thesis
      by (auto simp: defs port_err_def Let_def split: sum.splits)
  qed
qed

lemma dual_delete_agrees:
  assumes "n_client n = Some c" and "n_client6 n = Some c6"
    and "NAT_DeletePortMapping net4 net6 ctx t t protocol ip n = Some (e, dvs, dvs6, n2)"
    and "n_client m = Some c" and "n_client6 m = None" and "w = newNATWithPCPIPv6 (m, k) (c6, 0)"
    and "po_net4 (env k) = net4" and "po_t (env k) = t" and "net 0 = net6"
  shows "\<exists>w2. dual_DeletePortMapping (pcp_iface env) (pcp6_iface net t) ctx protocol ip w = Some (e, w2) \<and>
            n_client (fst (dw_NAT w2)) = n_client n2 \<and> Some (fst (dw_pcp6 w2)) = n_client6 n2 \<and>
            (dual_IPv6PinholeError w2 = None \<longleftrightarrow> IPv6PinholeError n2 = None)"
proof (rule NAT_Delete_cases [OF assms(3,1)])
  fix d6 q d4 d'
  assume del6: "delete_pinhole net6 ctx t protocol ip (n_client6 n) = Some (d6, dvs6, q)"
    and del4: "DeletePortMapping (net4 ctx) t protocol ip c = Some (d4, dvs, d')"
    and d': "n_client n2 = Some d'" "n_client6 n2 = q"
    and e: "e = map_option (\<lambda>err. Errorf ''delete mapping: %w'' [AErr err]) d4"
    and dpe: "n_pinholeErr n2 = map_option (\<lambda>err. Errorf ''pcp ipv6: %w'' [AErr err]) d6"
  obtain m2 where m2: "NAT_DeletePortMapping net4 (po_net6 (env k)) ctx t (po_t6 (env k)) protocol ip m =
      Some (e, dvs, [], m2)" "n_client m2 = Some d'"
    using NAT_v4_only_delete [where ?net4.0 = net4, OF assms(4,5) del4] unfolding e by blast
  from del6 assms(2) obtain q' where q: "q = Some q'"
    "DeletePortMapping (net6 (WithTimeout ctx nat_pinholeTimeout)) t protocol ip c6 = Some (d6, dvs6, q')"
    by (auto simp: delete_pinhole_def pinhole_timeouts bind_eq_Some_conv)
  with m2 d' dpe show ?thesis by (simp add: dual_DeletePortMapping_def dual_pcp_defs assms(6-9))
qed

text \<open>
  C20. The two dual-stack implementations of the repository agree: the PCP NAT with two clients and the
  wrapper around a PCP NAT with the IPv4 client alone, given the same clients and networks, return the
  same port and error of an add and the same error of a delete, leave both clients in the same state,
  and report a pinhole error in the same cases.
\<close>

theorem dual_implementations_agree:
  assumes "n_client n = Some c" and "n_client6 n = Some c6"
    and "NAT_AddPortMapping net4 net6 netr ctx t t protocol ip descr timeout n = Some (r, evs, evs6, n1)"
    and "NAT_DeletePortMapping net4 net6 ctx t t protocol ip n = Some (e, dvs, dvs6, n2)"
    and "n_client m = Some c" and "n_client6 m = None" and "w = newNATWithPCPIPv6 (m, k) (c6, 0)"
    and "po_net4 (env k) = net4" and "po_t (env k) = t" and "net 0 = net6" and "net (Suc 0) = netr"
  shows "(\<exists>w1. dual_AddPortMapping (pcp_iface env) (pcp6_iface net t) ctx protocol ip descr timeout w =
              Some (port_err r, w1) \<and>
            n_client (fst (dw_NAT w1)) = n_client n1 \<and> Some (fst (dw_pcp6 w1)) = n_client6 n1 \<and>
            (dual_IPv6PinholeError w1 = None \<longleftrightarrow> IPv6PinholeError n1 = None)) \<and>
         (\<exists>w2. dual_DeletePortMapping (pcp_iface env) (pcp6_iface net t) ctx protocol ip w = Some (e, w2) \<and>
            n_client (fst (dw_NAT w2)) = n_client n2 \<and> Some (fst (dw_pcp6 w2)) = n_client6 n2 \<and>
            (dual_IPv6PinholeError w2 = None \<longleftrightarrow> IPv6PinholeError n2 = None))"
  using dual_add_agrees [where net = net and env = env and k = k, OF assms(1-3,5-11)]
    dual_delete_agrees [where net = net and env = env and k = k, OF assms(1,2,4,5-10)] by blast

theorem dual_implementations_agree_witness:
  "\<exists>r w1. dual_AddPortMapping
     (pcp_iface (\<lambda>_. \<lparr>po_net4 = granting_env, po_net6 = silent_env, po_netr = silent_env, po_t = 0, po_t6 = 1, po_ns = 0\<rparr>))
     (pcp6_iface (\<lambda>_. silent_env) 0) Caller ''udp'' 51820 [] (60 * second)
     (newNATWithPCPIPv6 (dual_nat\<lparr>n_client6 := None\<rparr>, 0) (client_v4, 0)) = Some (r, w1)"
proof -
  let ?env = "\<lambda>_. \<lparr>po_net4 = granting_env, po_net6 = silent_env, po_netr = silent_env, po_t = 0, po_t6 = 1, po_ns = 0\<rparr>"
  obtain r evs evs6 n1 where a: "NAT_AddPortMapping granting_env silent_env silent_env Caller 0 0
      ''udp'' 51820 [] (60 * second) dual_nat = Some (r, evs, evs6, n1)"
    using NAT_Add_returns [OF dual_nat_ok(1)] by blast
  obtain e dvs dvs6 n2 where d: "NAT_DeletePortMapping granting_env silent_env Caller 0 0 ''udp'' 51820 dual_nat =
      Some (e, dvs, dvs6, n2)"
    using NAT_Delete_returns [OF dual_nat_ok(1)] by blast
  have c: "n_client dual_nat = Some client_v4" "n_client6 dual_nat = Some client_v4"
    "n_client (dual_nat\<lparr>n_client6 := None\<rparr>) = Some client_v4" "n_client6 (dual_nat\<lparr>n_client6 := None\<rparr>) = None"
    by (simp_all add: dual_nat_def)
  from dual_implementations_agree [OF c(1,2) a d c(3,4) refl, where env = ?env and k = 0 and net = "\<lambda>_. silent_env"]
  show ?thesis by auto
qed

end
