(* ===== verification/Dual_Conc.thy ===== *)
theory Dual_Conc
  imports Dual_Stack
begin

text \<open>
  Goroutines inside and around the dual-stack wrapper (\<open>pcp_ipv6.go\<close>): \<open>AddPortMapping\<close>,
  \<open>DeletePortMapping\<close> and \<open>CheckServerHealth\<close> with the goroutine each starts for the IPv6 side, one step per
  call of the embedded NAT and of the PCP client, for any number of callers that share the wrapper. A call that runs alone gives what \<open>dual_AddPortMapping\<close> gives,
  whichever of its two halves is faster; calls that overlap can lose the pinhole of a mapping that
  succeeded.
\<close>

text \<open>The arguments of a call; a delete uses the first three, a health check the context.\<close>

record dual_call =
  dc_ctx :: ctx
  dc_protocol :: string
  dc_port :: int
  dc_description :: string
  dc_timeout :: duration

datatype dual_result = Added int "go_err option" | Deleted "go_err option" | Health "(32 word \<times> bool) or_err"

text \<open>
  \<open>Both\<close>: an add and its goroutine are under way, with the results that are there, and \<open>BothDel\<close> and
  \<open>BothHealth\<close> likewise a delete and a health check (where the answer of a NAT that is no \<open>HealthChecker\<close> is
  \<open>None\<close>); \<open>RollingBack\<close> and \<open>Reporting\<close> are the rest of the call.
\<close>

datatype dual_pc =
    Resting
  | Both dual_call "(int \<times> go_err option) option" "map_response or_err option"
  | RollingBack dual_call int go_err
  | BothDel dual_call "go_err option option" "go_err option option"
  | BothHealth dual_call "(32 word \<times> bool) or_err option option" "32 word or_err option"
  | Reporting dual_call dual_result "go_err option"

record ('s, 'p) dual_world =
  dl_nat :: "('s, 'p) natWithPCPIPv6"
  dl_pc :: "nat \<Rightarrow> dual_pc"
  dl_log :: "(nat \<times> dual_call \<times> dual_result) list"

text \<open>The parts of \<open>CheckServerHealth\<close>: the check of the NAT, the flag of the client, and the answer.\<close>

definition health_check :: "'s NAT_iface \<Rightarrow> ctx \<Rightarrow> 's \<Rightarrow> (32 word \<times> bool) or_err option \<times> 's" where
  "health_check N ctx s =
     (case nat_HealthChecker N of None \<Rightarrow> (None, s) | Some checker \<Rightarrow> let (r, s) = checker ctx s in (Some r, s))"

definition take_lost :: "'p pcpIPv6Client \<Rightarrow> 32 word or_err \<Rightarrow> 'p \<Rightarrow> bool \<times> 'p" where
  "take_lost P r6 p = (case r6 of Inl err6 \<Rightarrow> (False, p) | Inr epoch6 \<Rightarrow> p6_EpochStateLost P p)"

fun health_answer :: "(32 word \<times> bool) or_err option \<Rightarrow> 32 word or_err \<Rightarrow> bool \<Rightarrow> (32 word \<times> bool) or_err" where
  "health_answer None (Inl err6) restarted6 = Inl (Errorf ''pcp ipv6: %w'' [AErr err6])"
| "health_answer None (Inr epoch6) restarted6 = Inr (epoch6, restarted6)"
| "health_answer (Some (Inl err)) (Inl err6) restarted6 =
     Inl (Errorf ''%w; %w'' [AErr err, AErr (Errorf ''pcp ipv6: %w'' [AErr err6])])"
| "health_answer (Some (Inl err)) (Inr epoch6) restarted6 = Inr (epoch6, restarted6)"
| "health_answer (Some (Inr (epoch, restarted))) r6 restarted6 = Inr (epoch, restarted \<or> restarted6)"

inductive dual_step ::
  "'s NAT_iface \<Rightarrow> 'p pcpIPv6Client \<Rightarrow> nat \<Rightarrow> ('s, 'p) dual_world \<Rightarrow> ('s, 'p) dual_world \<Rightarrow> bool" for N P t where
  Call: "dl_pc w t = Resting \<Longrightarrow> dual_step N P t w (w\<lparr>dl_pc := (dl_pc w)(t := Both c None None)\<rparr>)"
| Pinhole: "dl_pc w t = Both c r4 None \<Longrightarrow>
    p6_AddPortMapping P (WithTimeout (dc_ctx c) nat_pinholeTimeout) (dc_protocol c) (dc_port c) (dc_timeout c)
      (dw_pcp6 (dl_nat w)) = Some (r6, p) \<Longrightarrow>
    dual_step N P t w (w\<lparr>dl_nat := (dl_nat w)\<lparr>dw_pcp6 := p\<rparr>, dl_pc := (dl_pc w)(t := Both c r4 (Some r6))\<rparr>)"
| Mapping: "dl_pc w t = Both c None r6 \<Longrightarrow>
    nat_AddPortMapping N (dc_ctx c) (dc_protocol c) (dc_port c) (dc_description c) (dc_timeout c)
      (dw_NAT (dl_nat w)) = Some (r, s) \<Longrightarrow>
    dual_step N P t w (w\<lparr>dl_nat := (dl_nat w)\<lparr>dw_NAT := s\<rparr>, dl_pc := (dl_pc w)(t := Both c (Some r) r6)\<rparr>)"
| Done: "dl_pc w t = Both c (Some (port, err)) (Some r6) \<Longrightarrow> err = None \<or> err_of r6 \<noteq> None \<Longrightarrow>
    dual_step N P t w (w\<lparr>dl_pc := (dl_pc w)(t := Reporting c (Added port err) (err_of r6))\<rparr>)"
| Failed: "dl_pc w t = Both c (Some (port, Some err)) (Some (Inr m)) \<Longrightarrow>
    dual_step N P t w (w\<lparr>dl_pc := (dl_pc w)(t := RollingBack c port err)\<rparr>)"
| Rollback: "dl_pc w t = RollingBack c port err \<Longrightarrow>
    dual_rollbackPinhole P (dc_ctx c) (dc_protocol c) (dc_port c) (dw_pcp6 (dl_nat w)) = Some (rb, p) \<Longrightarrow>
    dual_step N P t w (w\<lparr>dl_nat := (dl_nat w)\<lparr>dw_pcp6 := p\<rparr>,
      dl_pc := (dl_pc w)(t := Reporting c (Added port (Some err)) (Some (case rb of
        None \<Rightarrow> nat_errPinholeRolledBack | Some e \<Rightarrow> Errorf ''%w: %w'' [AErr nat_errPinholeLeftOpen, AErr e])))\<rparr>)"
| CallDel: "dl_pc w t = Resting \<Longrightarrow> dual_step N P t w (w\<lparr>dl_pc := (dl_pc w)(t := BothDel c None None)\<rparr>)"
| PinholeDel: "dl_pc w t = BothDel c r4 None \<Longrightarrow>
    p6_DeletePortMapping P (WithTimeout (dc_ctx c) nat_pinholeTimeout) (dc_protocol c) (dc_port c)
      (dw_pcp6 (dl_nat w)) = Some (e6, p) \<Longrightarrow>
    dual_step N P t w (w\<lparr>dl_nat := (dl_nat w)\<lparr>dw_pcp6 := p\<rparr>, dl_pc := (dl_pc w)(t := BothDel c r4 (Some e6))\<rparr>)"
| MappingDel: "dl_pc w t = BothDel c None e6 \<Longrightarrow>
    nat_DeletePortMapping N (dc_ctx c) (dc_protocol c) (dc_port c) (dw_NAT (dl_nat w)) = Some (err, s) \<Longrightarrow>
    dual_step N P t w (w\<lparr>dl_nat := (dl_nat w)\<lparr>dw_NAT := s\<rparr>, dl_pc := (dl_pc w)(t := BothDel c (Some err) e6)\<rparr>)"
| DoneDel: "dl_pc w t = BothDel c (Some err) (Some e6) \<Longrightarrow>
    dual_step N P t w (w\<lparr>dl_pc := (dl_pc w)(t := Reporting c (Deleted err) e6)\<rparr>)"
| CallHealth: "dl_pc w t = Resting \<Longrightarrow> dual_step N P t w (w\<lparr>dl_pc := (dl_pc w)(t := BothHealth c None None)\<rparr>)"
| Announce: "dl_pc w t = BothHealth c r4 None \<Longrightarrow>
    p6_Announce P (WithTimeout (dc_ctx c) nat_pinholeTimeout) (dw_pcp6 (dl_nat w)) = (r6, p) \<Longrightarrow>
    dual_step N P t w (w\<lparr>dl_nat := (dl_nat w)\<lparr>dw_pcp6 := p\<rparr>, dl_pc := (dl_pc w)(t := BothHealth c r4 (Some r6))\<rparr>)"
| Check: "dl_pc w t = BothHealth c None r6 \<Longrightarrow> health_check N (dc_ctx c) (dw_NAT (dl_nat w)) = (r, s) \<Longrightarrow>
    dual_step N P t w (w\<lparr>dl_nat := (dl_nat w)\<lparr>dw_NAT := s\<rparr>, dl_pc := (dl_pc w)(t := BothHealth c (Some r) r6)\<rparr>)"
| Verdict: "dl_pc w t = BothHealth c (Some r) (Some r6) \<Longrightarrow> take_lost P r6 (dw_pcp6 (dl_nat w)) = (lost, p) \<Longrightarrow>
    dual_step N P t w (w\<lparr>dl_nat := (dl_nat w)\<lparr>dw_pcp6 := p\<rparr>, dl_pc := (dl_pc w)(t := Resting),
      dl_log := dl_log w @ [(t, c, Health (health_answer r r6 lost))]\<rparr>)"
| Report: "dl_pc w t = Reporting c r pcp6Err \<Longrightarrow>
    dual_step N P t w (w\<lparr>dl_nat := setIPv6PinholeError (wrapPinholeErr pcp6Err) (dl_nat w),
      dl_pc := (dl_pc w)(t := Resting), dl_log := dl_log w @ [(t, c, r)]\<rparr>)"

inductive_cases dual_stepE: "dual_step N P t w w'"

lemma next_step:
  assumes "dual_step N P t w v" and "(\<lambda>w w'. \<exists>t. dual_step N P t w w')\<^sup>*\<^sup>* v u"
  shows "(\<lambda>w w'. \<exists>t. dual_step N P t w w')\<^sup>*\<^sup>* w u"
  using assms by (metis (mono_tags, lifting) converse_rtranclp_into_rtranclp)

section \<open>A call alone\<close>

text \<open>The outcome of the rest of a call, when no other call interferes.\<close>

definition rest_rollback ::
  "'p pcpIPv6Client \<Rightarrow> dual_call \<Rightarrow> int \<Rightarrow> go_err
   \<Rightarrow> ('s, 'p) natWithPCPIPv6 \<Rightarrow> (dual_result \<times> ('s, 'p) natWithPCPIPv6) option" where
  "rest_rollback P c port err w = do {
     (rb, p) \<leftarrow> dual_rollbackPinhole P (dc_ctx c) (dc_protocol c) (dc_port c) (dw_pcp6 w);
     let pcp6Err = (case rb of
           None \<Rightarrow> nat_errPinholeRolledBack | Some e \<Rightarrow> Errorf ''%w: %w'' [AErr nat_errPinholeLeftOpen, AErr e]);
     Some (Added port (Some err), setIPv6PinholeError (wrapPinholeErr (Some pcp6Err)) (w\<lparr>dw_pcp6 := p\<rparr>))
   }"

definition rest_both ::
  "'p pcpIPv6Client \<Rightarrow> dual_call \<Rightarrow> int \<times> go_err option \<Rightarrow> map_response or_err
   \<Rightarrow> ('s, 'p) natWithPCPIPv6 \<Rightarrow> (dual_result \<times> ('s, 'p) natWithPCPIPv6) option" where
  "rest_both P c r r6 w =
     (case (r, r6) of
        ((port, Some err), Inr m) \<Rightarrow> rest_rollback P c port err w
      | ((port, err), _) \<Rightarrow> Some (Added port err, setIPv6PinholeError (wrapPinholeErr (err_of r6)) w))"

definition rest_health ::
  "'p pcpIPv6Client \<Rightarrow> (32 word \<times> bool) or_err option \<Rightarrow> 32 word or_err
   \<Rightarrow> ('s, 'p) natWithPCPIPv6 \<Rightarrow> (dual_result \<times> ('s, 'p) natWithPCPIPv6) option" where
  "rest_health P r r6 w =
     (let (lost, p) = take_lost P r6 (dw_pcp6 w) in Some (Health (health_answer r r6 lost), w\<lparr>dw_pcp6 := p\<rparr>))"

fun rest ::
  "'s NAT_iface \<Rightarrow> 'p pcpIPv6Client \<Rightarrow> dual_pc \<Rightarrow> ('s, 'p) natWithPCPIPv6
   \<Rightarrow> (dual_result \<times> ('s, 'p) natWithPCPIPv6) option" where
  "rest N P (Both c (Some r) (Some r6)) w = rest_both P c r r6 w"
| "rest N P (Both c None (Some r6)) w =
     Option.bind (nat_AddPortMapping N (dc_ctx c) (dc_protocol c) (dc_port c) (dc_description c) (dc_timeout c) (dw_NAT w))
       (\<lambda>(r, s). rest_both P c r r6 (w\<lparr>dw_NAT := s\<rparr>))"
| "rest N P (Both c (Some r) None) w =
     Option.bind (p6_AddPortMapping P (WithTimeout (dc_ctx c) nat_pinholeTimeout) (dc_protocol c) (dc_port c) (dc_timeout c)
         (dw_pcp6 w)) (\<lambda>(r6, p). rest_both P c r r6 (w\<lparr>dw_pcp6 := p\<rparr>))"
| "rest N P (Both c None None) w =
     map_option (\<lambda>((port, err), w). (Added port err, w))
       (dual_AddPortMapping N P (dc_ctx c) (dc_protocol c) (dc_port c) (dc_description c) (dc_timeout c) w)"
| "rest N P (BothDel c (Some err) (Some e6)) w =
     Some (Deleted err, setIPv6PinholeError (wrapPinholeErr e6) w)"
| "rest N P (BothDel c None (Some e6)) w =
     Option.bind (nat_DeletePortMapping N (dc_ctx c) (dc_protocol c) (dc_port c) (dw_NAT w))
       (\<lambda>(err, s). Some (Deleted err, setIPv6PinholeError (wrapPinholeErr e6) (w\<lparr>dw_NAT := s\<rparr>)))"
| "rest N P (BothDel c (Some err) None) w =
     Option.bind (p6_DeletePortMapping P (WithTimeout (dc_ctx c) nat_pinholeTimeout) (dc_protocol c) (dc_port c) (dw_pcp6 w))
       (\<lambda>(e6, p). Some (Deleted err, setIPv6PinholeError (wrapPinholeErr e6) (w\<lparr>dw_pcp6 := p\<rparr>)))"
| "rest N P (BothDel c None None) w =
     map_option (\<lambda>(err, w). (Deleted err, w))
       (dual_DeletePortMapping N P (dc_ctx c) (dc_protocol c) (dc_port c) w)"
| "rest N P (BothHealth c (Some r) (Some r6)) w = rest_health P r r6 w"
| "rest N P (BothHealth c None (Some r6)) w =
     (let (r, s) = health_check N (dc_ctx c) (dw_NAT w) in rest_health P r r6 (w\<lparr>dw_NAT := s\<rparr>))"
| "rest N P (BothHealth c (Some r) None) w =
     (let (r6, p) = p6_Announce P (WithTimeout (dc_ctx c) nat_pinholeTimeout) (dw_pcp6 w)
      in rest_health P r r6 (w\<lparr>dw_pcp6 := p\<rparr>))"
| "rest N P (BothHealth c None None) w =
     (let (r, w) = dual_CheckServerHealth N P (dc_ctx c) w in Some (Health r, w))"
| "rest N P (RollingBack c port err) w = rest_rollback P c port err w"
| "rest N P (Reporting c r pcp6Err) w = Some (r, setIPv6PinholeError (wrapPinholeErr pcp6Err) w)"
| "rest N P Resting w = None"

lemma dual_Add_rest:
  "rest N P (Both c None None) w =
     Option.bind (p6_AddPortMapping P (WithTimeout (dc_ctx c) nat_pinholeTimeout) (dc_protocol c) (dc_port c) (dc_timeout c)
         (dw_pcp6 w)) (\<lambda>(r6, p). rest N P (Both c None (Some r6)) (w\<lparr>dw_pcp6 := p\<rparr>))"
  by (cases w)
    (auto simp: dual_AddPortMapping_def rest_both_def rest_rollback_def Let_def setIPv6PinholeError_def
      split: option.split sum.split prod.split Option.bind_splits)

lemma rest_order:
  "rest N P (Both c None None) w =
     Option.bind (nat_AddPortMapping N (dc_ctx c) (dc_protocol c) (dc_port c) (dc_description c) (dc_timeout c) (dw_NAT w))
       (\<lambda>(r, s). rest N P (Both c (Some r) None) (w\<lparr>dw_NAT := s\<rparr>))"
  unfolding dual_Add_rest by (cases w) (auto split: Option.bind_splits prod.split)

lemma dual_Delete_rest:
  "rest N P (BothDel c None None) w =
     Option.bind (p6_DeletePortMapping P (WithTimeout (dc_ctx c) nat_pinholeTimeout) (dc_protocol c) (dc_port c) (dw_pcp6 w))
       (\<lambda>(e6, p). rest N P (BothDel c None (Some e6)) (w\<lparr>dw_pcp6 := p\<rparr>))"
  by (cases w) (auto simp: dual_DeletePortMapping_def setIPv6PinholeError_def split: Option.bind_splits prod.split)

lemma rest_Delete_order:
  "rest N P (BothDel c None None) w =
     Option.bind (nat_DeletePortMapping N (dc_ctx c) (dc_protocol c) (dc_port c) (dw_NAT w))
       (\<lambda>(err, s). rest N P (BothDel c (Some err) None) (w\<lparr>dw_NAT := s\<rparr>))"
  unfolding dual_Delete_rest by (cases w) (auto split: Option.bind_splits prod.split)

lemma dual_Health_rest:
  "rest N P (BothHealth c None None) w =
     (let (r6, p) = p6_Announce P (WithTimeout (dc_ctx c) nat_pinholeTimeout) (dw_pcp6 w)
      in rest N P (BothHealth c None (Some r6)) (w\<lparr>dw_pcp6 := p\<rparr>))"
  by (cases w; cases "nat_HealthChecker N")
    (auto simp: dual_CheckServerHealth_def rest_health_def health_check_def take_lost_def Let_def
      split: prod.split sum.split)

lemma rest_Health_order:
  "rest N P (BothHealth c None None) w =
     (let (r, s) = health_check N (dc_ctx c) (dw_NAT w)
      in rest N P (BothHealth c (Some r) None) (w\<lparr>dw_NAT := s\<rparr>))"
  unfolding dual_Health_rest by (cases w) (simp add: split_def Let_def)

lemmas rest_calls = rest.simps(4,8,12)

declare rest_calls [simp del]

fun caller :: "dual_pc \<Rightarrow> dual_call option" where
  "caller Resting = None"
| "caller (Both c r4 r6) = Some c"
| "caller (RollingBack c port err) = Some c"
| "caller (BothDel c r4 e6) = Some c"
| "caller (BothHealth c r4 r6) = Some c"
| "caller (Reporting c r pcp6Err) = Some c"

text \<open>Every step of the call leaves the outcome of the rest of it the same.\<close>

lemma dual_step_rest:
  assumes "dual_step N P t w w'" and "caller (dl_pc w t) = Some c"
  shows "if dl_pc w' t = Resting
    then \<exists>r. rest N P (dl_pc w t) (dl_nat w) = Some (r, dl_nat w') \<and> dl_log w' = dl_log w @ [(t, c, r)]
    else caller (dl_pc w' t) = Some c \<and> rest N P (dl_pc w' t) (dl_nat w') = rest N P (dl_pc w t) (dl_nat w) \<and>
      dl_log w' = dl_log w"
  using assms
proof cases
  case (Pinhole c r4 r6 p)
  with assms(2) show ?thesis by (cases r4) (simp_all add: dual_Add_rest)
next
  case (Mapping c r6 r s)
  with assms(2) show ?thesis by (cases r6) (simp_all add: rest_order)
next
  case (Done c port err r6)
  with assms(2) show ?thesis by (auto simp: rest_both_def split: sum.split option.split)
next
  case (Failed c port err m)
  with assms(2) show ?thesis by (simp add: rest_both_def)
next
  case (Rollback c port err rb p)
  with assms(2) show ?thesis by (simp add: rest_rollback_def)
next
  case (PinholeDel c r4 e6 p)
  with assms(2) show ?thesis by (cases r4) (simp_all add: dual_Delete_rest)
next
  case (MappingDel c e6 err s)
  with assms(2) show ?thesis by (cases e6) (simp_all add: rest_Delete_order)
next
  case (Announce c r4 r6 p)
  with assms(2) show ?thesis by (cases r4) (simp_all add: dual_Health_rest)
next
  case (Check c r6 r s)
  with assms(2) show ?thesis by (cases r6) (simp_all add: rest_Health_order)
next
  case (Verdict c r r6 lost p)
  with assms(2) show ?thesis by (simp add: rest_health_def)
qed simp_all

definition own_step :: "'s NAT_iface \<Rightarrow> 'p pcpIPv6Client \<Rightarrow> nat \<Rightarrow> ('s, 'p) dual_world \<Rightarrow> ('s, 'p) dual_world \<Rightarrow> bool" where
  "own_step N P t w w' \<longleftrightarrow> dual_step N P t w w' \<and> dl_pc w t \<noteq> Resting"

lemma own_run_rest:
  assumes "(own_step N P t)\<^sup>*\<^sup>* w w'" and "caller (dl_pc w t) = Some c"
  shows "if dl_pc w' t = Resting
    then \<exists>r. rest N P (dl_pc w t) (dl_nat w) = Some (r, dl_nat w') \<and> dl_log w' = dl_log w @ [(t, c, r)]
    else caller (dl_pc w' t) = Some c \<and> rest N P (dl_pc w' t) (dl_nat w') = rest N P (dl_pc w t) (dl_nat w) \<and>
      dl_log w' = dl_log w"
  using assms(1)
proof (induction rule: rtranclp_induct)
  case base
  from assms(2) have "dl_pc w t \<noteq> Resting" by (cases "dl_pc w t") simp_all
  with assms(2) show ?case by simp
next
  case (step v v')
  from step.hyps(2) have s: "dual_step N P t v v'" "dl_pc v t \<noteq> Resting" by (simp_all add: own_step_def)
  with step.IH have v: "caller (dl_pc v t) = Some c" "rest N P (dl_pc v t) (dl_nat v) = rest N P (dl_pc w t) (dl_nat w)"
    "dl_log v = dl_log w" by simp_all
  from dual_step_rest [OF s(1) v(1)] show ?case unfolding v(2,3) .
qed

section \<open>Properties\<close>

text \<open>
  C31. The goroutines that the wrapper starts for the pinholes do not make the outcome of a call depend on
  chance: an add, a delete or a health check that no other call overlaps returns the same result, and leaves the NAT, the
  PCP client and the reported pinhole error the same, whichever of its two halves takes its step first,
  namely as if the pinhole came first.
\<close>

theorem dual_call_deterministic:
  assumes "(own_step N P t)\<^sup>*\<^sup>* w w'" and "dl_pc w' t = Resting"
  shows "(dl_pc w t = Both c None None \<longrightarrow> (\<exists>port err. dl_log w' = dl_log w @ [(t, c, Added port err)] \<and>
      dual_AddPortMapping N P (dc_ctx c) (dc_protocol c) (dc_port c) (dc_description c) (dc_timeout c) (dl_nat w) =
        Some ((port, err), dl_nat w'))) \<and>
    (dl_pc w t = BothDel c None None \<longrightarrow> (\<exists>err. dl_log w' = dl_log w @ [(t, c, Deleted err)] \<and>
      dual_DeletePortMapping N P (dc_ctx c) (dc_protocol c) (dc_port c) (dl_nat w) = Some (err, dl_nat w'))) \<and>
    (dl_pc w t = BothHealth c None None \<longrightarrow> (\<exists>r. dl_log w' = dl_log w @ [(t, c, Health r)] \<and>
      dual_CheckServerHealth N P (dc_ctx c) (dl_nat w) = (r, dl_nat w')))"
  using own_run_rest [OF assms(1), of c] assms(2) by (auto simp: rest_calls split: prod.splits)

text \<open>A PCP server that grants, and a NAT that refuses its first mapping: what the calls below meet.\<close>

definition refusing_once_NAT :: "bool NAT_iface" where
  "refusing_once_NAT =
     \<lparr>nat_Type = (\<lambda>_. ''refusing''), nat_GetDeviceAddress = (\<lambda>s. Some (Inl nat_ErrNoNATFound, s)),
      nat_GetExternalAddress = (\<lambda>s. Some (Inl nat_ErrNoNATFound, s)),
      nat_GetInternalAddress = (\<lambda>s. Some (Inl nat_ErrNoNATFound, s)),
      nat_AddPortMapping = (\<lambda>_ _ port _ _ refused.
        Some (if refused then (port, None) else (0, Some (ExtErr ''refused'')), True)),
      nat_DeletePortMapping = (\<lambda>_ _ _ s. Some (None, s)), nat_HealthChecker = None\<rparr>"

abbreviation granting_pcp6 :: "(client \<times> nat) pcpIPv6Client" where
  "granting_pcp6 \<equiv> pcp6_iface (\<lambda>_. granting_env) 0"

definition call_51820 :: dual_call where
  "call_51820 = \<lparr>dc_ctx = Caller, dc_protocol = ''udp'', dc_port = 51820, dc_description = [], dc_timeout = 60 * second\<rparr>"

definition like_v4 :: "client \<times> nat \<Rightarrow> bool" where
  "like_v4 p \<longleftrightarrow> c_gateway (fst p) = c_gateway client_v4 \<and> c_timeout (fst p) = c_timeout client_v4 \<and>
     c_localIP (fst p) = c_localIP client_v4 \<and> locks_free (fst p)"

lemma like_v4_call:
  assumes "like_v4 (c, k)" and "map_prepare (granting_io 7) protocol ip ep sip lifetime client_v4 = Inr mc"
  shows "\<exists>r evs c'. addPortMappingWithHint (granting_io 7) t protocol ip ep sip lifetime c = Some (Inr r, evs, c') \<and>
    like_v4 (c', k')"
proof -
  have c: "c_gateway c = c_gateway client_v4" "c_timeout c = c_timeout client_v4" "c_localIP c = c_localIP client_v4"
    "locks_free c" using assms(1) by (simp_all add: like_v4_def)
  have mc: "map_prepare (granting_io 7) protocol ip ep sip lifetime c = Inr mc"
    using assms(2) unfolding map_prepare_def getLocalIP_def c .
  have free: "c_mappingLocks c (map_key mc) \<in> {None, Some None}"
    using c(4) by (cases "c_mappingLocks c (map_key mc)"; cases "the (c_mappingLocks c (map_key mc))")
      (auto simp: locks_free_def)
  obtain n evs c' where a: "addPortMappingWithHint (granting_io 7) t protocol ip ep sip lifetime c = Some (Inr (granted mc n), evs, c')"
    using granting_call [OF mc c(1,2) free refl] by blast
  with addPortMapping_frame [OF a] c show ?thesis by (auto simp: like_v4_def)
qed

lemma granting_pcp6_calls:
  assumes "like_v4 p"
  shows "\<exists>m p'. p6_AddPortMapping granting_pcp6 x ''udp'' 51820 (60 * second) p = Some (Inr m, p') \<and> like_v4 p'"
    and "\<exists>p'. dual_rollbackPinhole granting_pcp6 Caller ''udp'' 51820 p = Some (None, p') \<and> like_v4 p'"
proof -
  obtain c k where p: "p = (c, k)" by fastforce
  from like_v4_call [OF assms [unfolded p] prepare_51820(1), of 0 "Suc k"]
  show "\<exists>m p'. p6_AddPortMapping granting_pcp6 x ''udp'' 51820 (60 * second) p = Some (Inr m, p') \<and> like_v4 p'"
    by (fastforce simp: p pcp6_iface_def granting_env_def AddPortMapping_def)
  from like_v4_call [OF assms [unfolded p] prepare_51820(3), of 0 "Suc k"]
  show "\<exists>p'. dual_rollbackPinhole granting_pcp6 Caller ''udp'' 51820 p = Some (None, p') \<and> like_v4 p'"
    by (fastforce simp: p dual_rollbackPinhole_def pcp6_iface_def granting_env_def DeletePortMapping_def)
qed

lemma like_v4_start [simp]: "like_v4 (client_v4, 0)"
  by (simp add: like_v4_def)

text \<open>A call whose NAT answers before the PCP server.\<close>

theorem dual_call_deterministic_witness:
  "\<exists>w'. (own_step refusing_once_NAT granting_pcp6 0)\<^sup>*\<^sup>*
      \<lparr>dl_nat = newNATWithPCPIPv6 True (client_v4, 0), dl_pc = (\<lambda>_. Resting)(0 := Both call_51820 None None), dl_log = []\<rparr> w' \<and>
    dl_log w' = [(0, call_51820, Added 51820 None)] \<and>
    dual_AddPortMapping refusing_once_NAT granting_pcp6 Caller ''udp'' 51820 [] (60 * second)
      (newNATWithPCPIPv6 True (client_v4, 0)) = Some ((51820, None), dl_nat w')"
proof -
  let ?N = refusing_once_NAT and ?P = granting_pcp6 and ?c = call_51820 and ?p = "(client_v4, 0 :: nat)"
  let ?w = "\<lambda>p x log. \<lparr>dl_nat = newNATWithPCPIPv6 True p, dl_pc = (\<lambda>_ :: nat. Resting)(0 := x), dl_log = log\<rparr>"
  obtain m p where p: "p6_AddPortMapping ?P (WithTimeout Caller nat_pinholeTimeout) ''udp'' 51820 (60 * second) ?p =
      Some (Inr m, p)" using granting_pcp6_calls(1) [OF like_v4_start] by blast
  have "own_step ?N ?P 0 (?w ?p (Both ?c None None) []) (?w ?p (Both ?c (Some (51820, None)) None) [])"
    using dual_step.Mapping [of "?w ?p (Both ?c None None) []" 0 ?c None ?N "(51820, None)" True ?P]
    by (simp add: own_step_def refusing_once_NAT_def call_51820_def newNATWithPCPIPv6_def)
  moreover have "own_step ?N ?P 0 (?w ?p (Both ?c (Some (51820, None)) None) [])
      (?w p (Both ?c (Some (51820, None)) (Some (Inr m))) [])"
    using dual_step.Pinhole [of "?w ?p (Both ?c (Some (51820, None)) None) []" 0 ?c "Some (51820, None)" ?P "Inr m" p ?N] p
    by (simp add: own_step_def call_51820_def newNATWithPCPIPv6_def)
  moreover have "own_step ?N ?P 0 (?w p (Both ?c (Some (51820, None)) (Some (Inr m))) [])
      (?w p (Reporting ?c (Added 51820 None) None) [])"
    using dual_step.Done [of "?w p (Both ?c (Some (51820, None)) (Some (Inr m))) []" 0 ?c 51820 None "Inr m" ?N ?P]
    by (simp add: own_step_def)
  moreover have "own_step ?N ?P 0 (?w p (Reporting ?c (Added 51820 None) None) []) (?w p Resting [(0, ?c, Added 51820 None)])"
    using dual_step.Report [of "?w p (Reporting ?c (Added 51820 None) None) []" 0 ?c "Added 51820 None" None ?N ?P]
    by (simp add: own_step_def newNATWithPCPIPv6_def setIPv6PinholeError_def)
  ultimately have run: "(own_step ?N ?P 0)\<^sup>*\<^sup>* (?w ?p (Both ?c None None) []) (?w p Resting [(0, ?c, Added 51820 None)])"
    by (meson converse_rtranclp_into_rtranclp rtranclp.rtrancl_refl)
  with dual_call_deterministic [OF run, of ?c] show ?thesis by (auto simp: call_51820_def)
qed

text \<open>A wrapper with two callers, whose two halves both finish before the first call fails.\<close>

abbreviation two_calls ::
  "'s \<Rightarrow> 'p \<Rightarrow> go_err option \<Rightarrow> dual_pc \<Rightarrow> dual_pc \<Rightarrow> (nat \<times> dual_call \<times> dual_result) list \<Rightarrow> ('s, 'p) dual_world" where
  "two_calls s p err x y hist \<equiv> \<lparr>dl_nat = \<lparr>dw_NAT = s, dw_pcp6 = p, dw_pinholeErr = err\<rparr>,
     dl_pc = (\<lambda>_. Resting)(0 := x, 1 := y), dl_log = hist\<rparr>"

lemma overlapping_calls_open:
  assumes pinhole: "p6_AddPortMapping P (WithTimeout (dc_ctx c1) nat_pinholeTimeout) (dc_protocol c1) (dc_port c1)
        (dc_timeout c1) p0 = Some (r6, p1)"
      "p6_AddPortMapping P (WithTimeout (dc_ctx c2) nat_pinholeTimeout) (dc_protocol c2) (dc_port c2)
        (dc_timeout c2) p1 = Some (r6', p2)"
    and mapping: "nat_AddPortMapping N (dc_ctx c1) (dc_protocol c1) (dc_port c1) (dc_description c1) (dc_timeout c1) s0 =
        Some (r, s1)"
      "nat_AddPortMapping N (dc_ctx c2) (dc_protocol c2) (dc_port c2) (dc_description c2) (dc_timeout c2) s1 =
        Some (r', s2)"
  shows "(\<lambda>w w'. \<exists>t. dual_step N P t w w')\<^sup>*\<^sup>* (two_calls s0 p0 None Resting Resting [])
    (two_calls s2 p2 None (Both c1 (Some r) (Some r6)) (Both c2 (Some r') (Some r6')) [])"
proof -
  have "dual_step N P 0 (two_calls s0 p0 None Resting Resting []) (two_calls s0 p0 None (Both c1 None None) Resting [])"
    using dual_step.Call [of "two_calls s0 p0 None Resting Resting []" 0 N P c1] by (simp add: fun_upd_twist)
  moreover have "dual_step N P 1 (two_calls s0 p0 None (Both c1 None None) Resting [])
      (two_calls s0 p0 None (Both c1 None None) (Both c2 None None) [])"
    using dual_step.Call [of "two_calls s0 p0 None (Both c1 None None) Resting []" 1 N P c2] by simp
  moreover have "dual_step N P 0 (two_calls s0 p0 None (Both c1 None None) (Both c2 None None) [])
      (two_calls s0 p1 None (Both c1 None (Some r6)) (Both c2 None None) [])"
    using dual_step.Pinhole [of "two_calls s0 p0 None (Both c1 None None) (Both c2 None None) []" 0 c1 None P r6 p1 N] pinhole
    by (simp add: fun_upd_twist)
  moreover have "dual_step N P 1 (two_calls s0 p1 None (Both c1 None (Some r6)) (Both c2 None None) [])
      (two_calls s0 p2 None (Both c1 None (Some r6)) (Both c2 None (Some r6')) [])"
    using dual_step.Pinhole [of "two_calls s0 p1 None (Both c1 None (Some r6)) (Both c2 None None) []" 1 c2 None P r6' p2 N] pinhole
    by simp
  moreover have "dual_step N P 0 (two_calls s0 p2 None (Both c1 None (Some r6)) (Both c2 None (Some r6')) [])
      (two_calls s1 p2 None (Both c1 (Some r) (Some r6)) (Both c2 None (Some r6')) [])"
    using dual_step.Mapping [of "two_calls s0 p2 None (Both c1 None (Some r6)) (Both c2 None (Some r6')) []" 0 c1
        "Some r6" N r s1 P] mapping
    by (simp add: fun_upd_twist)
  moreover have "dual_step N P 1 (two_calls s1 p2 None (Both c1 (Some r) (Some r6)) (Both c2 None (Some r6')) [])
      (two_calls s2 p2 None (Both c1 (Some r) (Some r6)) (Both c2 (Some r') (Some r6')) [])"
    using dual_step.Mapping [of "two_calls s1 p2 None (Both c1 (Some r) (Some r6)) (Both c2 None (Some r6')) []" 1 c2
        "Some r6'" N r' s2 P] mapping
    by simp
  ultimately show ?thesis by - ((erule next_step)+, rule rtranclp.rtrancl_refl)
qed

lemma overlapping_calls_close:
  assumes rb: "dual_rollbackPinhole P (dc_ctx c1) (dc_protocol c1) (dc_port c1) p2 = Some (None, p3)"
  shows "(\<lambda>w w'. \<exists>t. dual_step N P t w w')\<^sup>*\<^sup>*
    (two_calls s p2 None (Both c1 (Some (port1, Some e)) (Some (Inr m1))) (Both c2 (Some (port2, None)) (Some (Inr m2))) [])
    (two_calls s p3 None Resting Resting [(0, c1, Added port1 (Some e)), (1, c2, Added port2 None)])"
proof -
  let ?e = "wrapPinholeErr (Some nat_errPinholeRolledBack)" and ?l = "[(0 :: nat, c1, Added port1 (Some e))]"
  let ?f = "(port1, Some e)" and ?g = "(port2, None) :: int \<times> go_err option"
  have "dual_step N P 0 (two_calls s p2 None (Both c1 (Some ?f) (Some (Inr m1))) (Both c2 (Some ?g) (Some (Inr m2))) [])
      (two_calls s p2 None (RollingBack c1 port1 e) (Both c2 (Some ?g) (Some (Inr m2))) [])"
    using dual_step.Failed [of "two_calls s p2 None (Both c1 (Some ?f) (Some (Inr m1))) (Both c2 (Some ?g) (Some (Inr m2))) []" 0 c1
        port1 e m1 N P]
    by (simp add: fun_upd_twist)
  moreover have "dual_step N P 0 (two_calls s p2 None (RollingBack c1 port1 e) (Both c2 (Some ?g) (Some (Inr m2))) [])
      (two_calls s p3 None (Reporting c1 (Added port1 (Some e)) (Some nat_errPinholeRolledBack)) (Both c2 (Some ?g) (Some (Inr m2))) [])"
    using dual_step.Rollback [of "two_calls s p2 None (RollingBack c1 port1 e) (Both c2 (Some ?g) (Some (Inr m2))) []" 0 c1
        port1 e P None p3 N] rb
    by (simp add: fun_upd_twist)
  moreover have "dual_step N P 0 (two_calls s p3 None (Reporting c1 (Added port1 (Some e)) (Some nat_errPinholeRolledBack)) (Both c2 (Some ?g) (Some (Inr m2))) [])
      (two_calls s p3 ?e Resting (Both c2 (Some ?g) (Some (Inr m2))) ?l)"
    using dual_step.Report [of "two_calls s p3 None (Reporting c1 (Added port1 (Some e)) (Some nat_errPinholeRolledBack)) (Both c2 (Some ?g) (Some (Inr m2))) []"
        0 c1 "Added port1 (Some e)" "Some nat_errPinholeRolledBack" N P]
    by (simp add: fun_upd_twist fun_upd_idem setIPv6PinholeError_def)
  moreover have "dual_step N P 1 (two_calls s p3 ?e Resting (Both c2 (Some ?g) (Some (Inr m2))) ?l)
      (two_calls s p3 ?e Resting (Reporting c2 (Added port2 None) None) ?l)"
    using dual_step.Done [of "two_calls s p3 ?e Resting (Both c2 (Some ?g) (Some (Inr m2))) ?l" 1 c2 port2 None "Inr m2" N P] by simp
  moreover have "dual_step N P 1 (two_calls s p3 ?e Resting (Reporting c2 (Added port2 None) None) ?l)
      (two_calls s p3 None Resting Resting (?l @ [(1, c2, Added port2 None)]))"
    using dual_step.Report [of "two_calls s p3 ?e Resting (Reporting c2 (Added port2 None) None) ?l" 1 c2 "Added port2 None" None N P]
    by (simp add: setIPv6PinholeError_def)
  ultimately have "(\<lambda>w w'. \<exists>t. dual_step N P t w w')\<^sup>*\<^sup>*
    (two_calls s p2 None (Both c1 (Some ?f) (Some (Inr m1))) (Both c2 (Some ?g) (Some (Inr m2))) [])
    (two_calls s p3 None Resting Resting (?l @ [(1, c2, Added port2 None)]))"
    by - ((erule next_step)+, rule rtranclp.rtrancl_refl)
  then show ?thesis by simp
qed

text \<open>
  Calls for the same mapping that overlap can lose the pinhole: when the IPv4 mapping of the first
  fails after the second has opened the pinhole again, the rollback of the first closes the pinhole of
  the second, which succeeds and reports no pinhole error.
\<close>

theorem overlapping_calls_lose_pinhole:
  assumes same: "dc_protocol c1 = dc_protocol c2" "dc_port c1 = dc_port c2"
    and v6: "p6_AddPortMapping (pcp6_iface net g) (WithTimeout (dc_ctx c1) nat_pinholeTimeout) (dc_protocol c1) (dc_port c1)
        (dc_timeout c1) p0 = Some (Inr m1, p1)"
      "p6_AddPortMapping (pcp6_iface net g) (WithTimeout (dc_ctx c2) nat_pinholeTimeout) (dc_protocol c2) (dc_port c2)
        (dc_timeout c2) p1 = Some (Inr m2, p2)"
    and v4: "nat_AddPortMapping N (dc_ctx c1) (dc_protocol c1) (dc_port c1) (dc_description c1) (dc_timeout c1) s0 =
        Some ((port1, Some e), s1)"
      "nat_AddPortMapping N (dc_ctx c2) (dc_protocol c2) (dc_port c2) (dc_description c2) (dc_timeout c2) s1 =
        Some ((port2, None), s2)"
    and rb: "dual_rollbackPinhole (pcp6_iface net g) (dc_ctx c1) (dc_protocol c1) (dc_port c1) p2 = Some (None, p3)"
  shows "\<exists>w. (\<lambda>w w'. \<exists>t. dual_step N (pcp6_iface net g) t w w')\<^sup>*\<^sup>*
      \<lparr>dl_nat = newNATWithPCPIPv6 s0 p0, dl_pc = (\<lambda>_. Resting), dl_log = []\<rparr> w \<and>
    dl_log w = [(0, c1, Added port1 (Some e)), (1, c2, Added port2 None)] \<and> (\<forall>t. dl_pc w t = Resting) \<and>
    dual_IPv6PinholeError (dl_nat w) = None \<and>
    \<not> client_tracked (dc_protocol c2) (dc_port c2) (fst (dw_pcp6 (dl_nat w)))"
proof -
  let ?P = "pcp6_iface net g"
  have start: "\<lparr>dl_nat = newNATWithPCPIPv6 s0 p0, dl_pc = (\<lambda>_. Resting), dl_log = []\<rparr> =
      two_calls s0 p0 None Resting Resting []"
    by (simp add: newNATWithPCPIPv6_def fun_upd_idem)
  note run = rtranclp_trans [OF overlapping_calls_open [OF v6 v4] overlapping_calls_close [OF rb]]
  have "p6_del ?P (WithTimeout (WithoutCancel (dc_ctx c1)) nat_pinholeTimeout, []) (dc_protocol c2) (dc_port c2) p2 = Some (None, p3)"
    using rb by (simp add: p6_del_def dual_rollbackPinhole_def same)
  then have "\<not> client_tracked (dc_protocol c2) (dc_port c2) (fst p3)" by (rule pcp6.delete_forgets)
  then show ?thesis
    unfolding start by (intro exI conjI) (rule run, simp_all add: dual_IPv6PinholeError_def)
qed

theorem overlapping_calls_lose_pinhole_witness:
  "\<exists>w. (\<lambda>w w'. \<exists>t. dual_step refusing_once_NAT granting_pcp6 t w w')\<^sup>*\<^sup>*
      \<lparr>dl_nat = newNATWithPCPIPv6 False (client_v4, 0), dl_pc = (\<lambda>_. Resting), dl_log = []\<rparr> w \<and>
    dl_log w = [(0, call_51820, Added 0 (Some (ExtErr ''refused''))), (1, call_51820, Added 51820 None)] \<and>
    dual_IPv6PinholeError (dl_nat w) = None \<and> \<not> client_tracked ''udp'' 51820 (fst (dw_pcp6 (dl_nat w)))"
proof -
  let ?p = "(client_v4, 0 :: nat)" and ?x = "WithTimeout Caller nat_pinholeTimeout"
  obtain m1 p1 where 1: "p6_AddPortMapping granting_pcp6 ?x ''udp'' 51820 (60 * second) ?p = Some (Inr m1, p1)" "like_v4 p1"
    using granting_pcp6_calls(1) [OF like_v4_start] by blast
  obtain m2 p2 where 2: "p6_AddPortMapping granting_pcp6 ?x ''udp'' 51820 (60 * second) p1 = Some (Inr m2, p2)" "like_v4 p2"
    using granting_pcp6_calls(1) [OF 1(2)] by blast
  obtain p3 where 3: "dual_rollbackPinhole granting_pcp6 Caller ''udp'' 51820 p2 = Some (None, p3)"
    using granting_pcp6_calls(2) [OF 2(2)] by blast
  have c: "dc_ctx call_51820 = Caller" "dc_protocol call_51820 = ''udp''" "dc_port call_51820 = 51820"
    "dc_timeout call_51820 = 60 * second" by (simp_all add: call_51820_def)
  from overlapping_calls_lose_pinhole [of call_51820 call_51820, unfolded c, OF refl refl 1(1) 2(1) _ _ 3,
      of refusing_once_NAT False 0 "ExtErr ''refused''" True 51820 True]
  show ?thesis by (force simp: refusing_once_NAT_def)
qed

end
