(* ===== verification/Go_Addr_Grammar.thy ===== *)
theory Go_Addr_Grammar
  imports Go_Addr_Text
begin

text \<open>
  The texts of IP addresses as a grammar (RFC 4291 section 2.2, with the zones of RFC 4007), written down
  independently of the parser of \<open>net/netip\<close>, and the proof that the parser accepts exactly these.
\<close>

section \<open>The grammar\<close>

text \<open>A group of one to four hexadecimal digits of either case, and its value.\<close>

definition hex_number :: "string \<Rightarrow> nat" where
  "hex_number = foldl (\<lambda>n c. n * 16 + the (hex_value c)) 0"

definition hex_text :: "string \<Rightarrow> bool" where
  "hex_text h \<longleftrightarrow> h \<noteq> [] \<and> length h \<le> 4 \<and> (\<forall>c \<in> set h. hex_value c \<noteq> None)"

definition group_bytes :: "string \<Rightarrow> bytes" where
  "group_bytes h = [word_of_nat (hex_number h div 256), word_of_nat (hex_number h)]"

text \<open>Groups with colons between them, and the same where four bytes in dotted form may come last.\<close>

inductive groups_text :: "string \<Rightarrow> bytes \<Rightarrow> bool" where
  One: "hex_text h \<Longrightarrow> groups_text h (group_bytes h)"
| More: "hex_text h \<Longrightarrow> groups_text s bs \<Longrightarrow> groups_text (h @ CHR '':'' # s) (group_bytes h @ bs)"

inductive fields_text :: "string \<Rightarrow> bytes \<Rightarrow> bool" where
  Group: "hex_text h \<Longrightarrow> fields_text h (group_bytes h)"
| Dotted: "length bs = 4 \<Longrightarrow> fields_text (dotted bs) bs"
| More: "hex_text h \<Longrightarrow> fields_text s bs \<Longrightarrow> fields_text (h @ CHR '':'' # s) (group_bytes h @ bs)"

text \<open>An IPv6 address in full, or with two colons in place of one or more groups of zeros.\<close>

inductive v6_text :: "string \<Rightarrow> bytes \<Rightarrow> bool" where
  Full: "fields_text s bs \<Longrightarrow> length bs = 16 \<Longrightarrow> v6_text s bs"
| Short: "l = [] \<and> bl = [] \<or> groups_text l bl \<Longrightarrow> r = [] \<and> br = [] \<or> fields_text r br \<Longrightarrow>
    length bl + length br \<le> 14 \<Longrightarrow>
    v6_text (l @ CHR '':'' # CHR '':'' # r) (bl @ replicate (16 - (length bl + length br)) 0 @ br)"

inductive addr_text :: "string \<Rightarrow> addr \<Rightarrow> bool" where
  IPv4: "addr_text (dotted (put_be 4 v)) (Addr4 v)"
| IPv6: "v6_text s bs \<Longrightarrow> addr_text s (Addr6 (get_be bs) [])"
| Zone: "v6_text s bs \<Longrightarrow> zone \<noteq> [] \<Longrightarrow> addr_text (s @ CHR ''%'' # zone) (Addr6 (get_be bs) zone)"

section \<open>Groups\<close>

lemma hex_value_less: "hex_value c = Some d \<Longrightarrow> d < 16"
  by (auto simp: hex_value_def Let_def split: if_splits)

lemma hex_run_sound:
  assumes "hex_run off acc s = Some (off', acc', rest)" and "off \<le> 4"
  shows "\<exists>h. s = h @ rest \<and> (\<forall>c \<in> set h. hex_value c \<noteq> None) \<and> off' = off + length h \<and> off' \<le> 4 \<and>
    acc' = foldl (\<lambda>n c. n * 16 + the (hex_value c)) acc h"
  using assms
proof (induction off acc s rule: hex_run.induct)
  case (2 off acc c s)
  show ?case
  proof (cases "hex_value c")
    case None
    with 2 show ?thesis by (intro exI [of _ "[]"]) simp
  next
    case (Some d)
    with 2(2) have off: "off \<le> 3" "acc * 16 + d \<le> 65535" "hex_run (off + 1) (acc * 16 + d) s = Some (off', acc', rest)"
      by (auto simp: Let_def split: if_splits)
    with 2(1) [OF Some refl _ _ off(3)] obtain h where
      "s = h @ rest" "\<forall>c \<in> set h. hex_value c \<noteq> None" "off' = off + 1 + length h" "off' \<le> 4"
      "acc' = foldl (\<lambda>n c. n * 16 + the (hex_value c)) (acc * 16 + d) h" by auto
    with Some show ?thesis by (intro exI [of _ "c # h"]) simp
  qed
qed auto

lemma hex_run_complete:
  assumes "\<forall>c \<in> set h. hex_value c \<noteq> None" and "off + length h \<le> 4" and "acc < 16 ^ off"
    and "t = [] \<or> hex_value (hd t) = None"
  shows "hex_run off acc (h @ t) = Some (off + length h, foldl (\<lambda>n c. n * 16 + the (hex_value c)) acc h, t)"
  using assms
proof (induction h arbitrary: off acc)
  case Nil
  then show ?case by (cases t) auto
next
  case (Cons c h)
  then obtain d where d: "hex_value c = Some d" "d < 16" using hex_value_less by fastforce
  have less: "acc * 16 + d < 16 ^ (off + 1)" using Cons.prems(3) d(2) by simp
  have "(16 :: nat) ^ (off + 1) \<le> 16 ^ 4" using Cons.prems(2) by (intro power_increasing) simp_all
  with less have "acc * 16 + d \<le> 65535" by simp
  with Cons.IH [OF _ _ less] Cons.prems d(1) show ?case by (simp add: Let_def)
qed

lemma hex_run_text: "hex_text h \<Longrightarrow> t = [] \<or> hex_value (hd t) = None \<Longrightarrow> hex_run 0 0 (h @ t) = Some (length h, hex_number h, t)"
  using hex_run_complete [of h 0 0 t] by (simp add: hex_text_def hex_number_def)

lemma hex_run_textD:
  assumes "hex_run 0 0 s = Some (off, acc, rest)" and "off \<noteq> 0"
  obtains h where "s = h @ rest" "hex_text h" "acc = hex_number h"
  using hex_run_sound [OF assms(1)] assms(2) by (auto simp: hex_text_def hex_number_def)

lemma group_bytes_length [simp]: "length (group_bytes h) = 2"
  by (simp add: group_bytes_def)

lemma fields_text_bytes: "fields_text s bs \<Longrightarrow> s \<noteq> [] \<and> even (length bs) \<and> 2 \<le> length bs"
proof (induction rule: fields_text.induct)
  case (Dotted bs)
  then show ?case using dotted.simps by (cases bs rule: dotted.cases) (auto simp: show_byte_def)
qed (auto simp: hex_text_def)

lemma groups_text_bytes: "groups_text s bs \<Longrightarrow> s \<noteq> [] \<and> even (length bs) \<and> 2 \<le> length bs"
  by (induction rule: groups_text.induct) (auto simp: hex_text_def)

section \<open>The parser accepts no other text\<close>

lemma loop_sound:
  assumes "parseIPv6_loop ip e s = Some (ip', e', [])" and "even (length ip)" and "length ip < 16 \<or> s \<noteq> []"
  shows "length ip' \<le> 16 \<and> even (length ip') \<and>
    (e' = e \<and> (\<exists>bs. fields_text s bs \<and> ip' = ip @ bs) \<or>
     e = None \<and> (\<exists>l bl r br. s = l @ CHR '':'' # CHR '':'' # r \<and> groups_text l bl \<and>
       (r = [] \<and> br = [] \<or> fields_text r br) \<and> ip' = ip @ bl @ br \<and> e' = Some (length ip + length bl)))"
  using assms
proof (induction ip e s rule: parseIPv6_loop.induct)
  case (1 ip e s)
  note step = 1(3) [unfolded parseIPv6_loop.simps [of ip e s]]
  from step 1(5) have room: "length ip < 16" by (auto split: if_splits)
  with step obtain off acc rest where run: "hex_run 0 0 s = Some (off, acc, rest)" "off \<noteq> 0"
    by (auto split: option.splits if_splits)
  from hex_run_textD [OF run] obtain h where h: "s = h @ rest" "hex_text h" "acc = hex_number h" .
  from room 1(4) have even: "length ip \<le> 14" by presburger
  show ?case
  proof (cases "rest \<noteq> [] \<and> hd rest = CHR ''.''")
    case True
    with step room run obtain octets where "parseIPv4Fields None 0 0 [] s = Some octets" "length ip + 4 \<le> 16"
      "ip' = ip @ octets" "e' = e"
      by (auto split: if_splits)
    then show ?thesis using 1(4) by (auto simp: parseIPv4Fields_iff intro: fields_text.Dotted)
  next
    case False
    let ?ip = "ip @ group_bytes h"
    have bytes: "ip @ [word_of_nat (acc div 256), word_of_nat acc] = ?ip" by (simp add: h(3) group_bytes_def)
    show ?thesis
    proof (cases rest)
      case Nil
      with step room run bytes have "ip' = ?ip" "e' = e" by (simp_all add: Let_def)
      with h Nil even 1(4) show ?thesis by (auto intro: fields_text.Group)
    next
      case (Cons c u)
      with step room run False have u: "c = CHR '':''" "u \<noteq> []" by (auto simp: Let_def split: if_splits)
      note Cons = Cons [unfolded u(1)]
      show ?thesis
      proof (cases "hd u = CHR '':''")
        case True
        then obtain v where v: "u = CHR '':'' # v" using u(2) by (cases u) auto
        from step room run False Cons v have e: "e = None" by (auto simp: Let_def split: if_splits)
        have s: "s = h @ CHR '':'' # CHR '':'' # v" using h(1) Cons v by simp
        show ?thesis
        proof (cases "v = []")
          case True
          with step room run Cons v e bytes have "ip' = ?ip" "e' = Some (length ?ip)" by (auto simp: Let_def)
          then have "ip' = ip @ group_bytes h @ []" "e' = Some (length ip + length (group_bytes h))" by simp_all
          moreover have "length ip' \<le> 16" "even (length ip')" using \<open>ip' = ?ip\<close> even 1(4) by simp_all
          ultimately show ?thesis using groups_text.One [OF h(2)] s [unfolded True] e by blast
        next
          case ne: False
          with step room run Cons v e bytes have l: "parseIPv6_loop ?ip (Some (length ?ip)) v = Some (ip', e', [])"
            by (simp add: Let_def)
          have "length ip' \<le> 16 \<and> even (length ip') \<and> e' = Some (length ?ip) \<and> (\<exists>bs. fields_text v bs \<and> ip' = ?ip @ bs)"
            using 1(1) [of "(off, acc, rest)" off "(acc, rest)" acc rest ?ip "CHR '':''" u] l room run False Cons v e ne bytes 1(4)
            by simp
          with e s h(2) show ?thesis by (fastforce intro: groups_text.One)
        qed
      next
        case one: False
        with step room run Cons u bytes have l: "parseIPv6_loop ?ip e u = Some (ip', e', [])" by (simp add: Let_def)
        have IH: "length ip' \<le> 16 \<and> even (length ip') \<and>
            (e' = e \<and> (\<exists>bs. fields_text u bs \<and> ip' = ?ip @ bs) \<or>
             e = None \<and> (\<exists>l bl r br. u = l @ CHR '':'' # CHR '':'' # r \<and> groups_text l bl \<and>
               (r = [] \<and> br = [] \<or> fields_text r br) \<and> ip' = ?ip @ bl @ br \<and> e' = Some (length ?ip + length bl)))"
          using 1(2) [of "(off, acc, rest)" off "(acc, rest)" acc rest ?ip "CHR '':''" u] l room run False Cons one u bytes 1(4)
          by simp
        have s: "s = h @ CHR '':'' # u" using h(1) Cons by simp
        from IH have len: "length ip' \<le> 16" "even (length ip')" by simp_all
        from IH consider bs where "e' = e" "fields_text u bs" "ip' = ?ip @ bs" |
          l bl r br where "e = None" "u = l @ CHR '':'' # CHR '':'' # r" "groups_text l bl"
            "r = [] \<and> br = [] \<or> fields_text r br" "ip' = ?ip @ bl @ br" "e' = Some (length ?ip + length bl)" by blast
        then show ?thesis
        proof cases
          case (1 bs)
          with len s fields_text.More [OF h(2)] show ?thesis by fastforce
        next
          case a: (2 l bl r br)
          have "s = (h @ CHR '':'' # l) @ CHR '':'' # CHR '':'' # r" "groups_text (h @ CHR '':'' # l) (group_bytes h @ bl)"
            using s a(2) groups_text.More [OF h(2) a(3)] by simp_all
          moreover have "ip' = ip @ (group_bytes h @ bl) @ br" "e' = Some (length ip + length (group_bytes h @ bl))"
            using a(5,6) by simp_all
          ultimately show ?thesis using len a(1,4) by blast
        qed
      qed
    qed
  qed
qed

section \<open>The parser accepts these texts\<close>

text \<open>A group at the head of the text.\<close>

lemma loop_head:
  assumes "hex_text h" and "length ip < 16" and "t = [] \<or> hd t = CHR '':''"
  shows "parseIPv6_loop ip e (h @ t) =
    (case t of
       [] \<Rightarrow> Some (ip @ group_bytes h, e, [])
     | c # s \<Rightarrow>
         if s = [] then None
         else if hd s = CHR '':'' then
           if e \<noteq> None then None
           else if tl s = [] then Some (ip @ group_bytes h, Some (length ip + 2), [])
           else parseIPv6_loop (ip @ group_bytes h) (Some (length ip + 2)) (tl s)
         else parseIPv6_loop (ip @ group_bytes h) e s)"
proof -
  have "hex_run 0 0 (h @ t) = Some (length h, hex_number h, t)"
    using hex_run_text [OF assms(1)] assms(3) by auto
  moreover have "length h \<noteq> 0" using assms(1) by (simp add: hex_text_def)
  moreover have "ip @ [word_of_nat (hex_number h div 256), word_of_nat (hex_number h)] = ip @ group_bytes h"
    by (simp add: group_bytes_def)
  ultimately show ?thesis using assms(2,3)
    by (subst parseIPv6_loop.simps) (auto simp: Let_def split: list.split)
qed

lemma show_byte_hex: "hex_text (show_byte b)"
proof -
  obtain c where "parseIPv4Fields None 0 0 [] (show_nat (unat b) @ []) = parseIPv4Fields (Some c) (unat b) (length (show_nat (unat b))) [] []"
    using parseIPv4Fields_digits [of "unat b" None "[]" "[]"] by auto
  have "length (show_nat (unat b)) \<le> 3"
  proof -
    have "unat b div 10 div 10 < 10" using unat_byte_less [of b] by linarith
    then show ?thesis by (subst show_nat.simps, subst show_nat.simps, subst show_nat.simps) auto
  qed
  moreover have "hex_value c \<noteq> None" if "c \<in> set (show_nat (unat b))" for c
    using show_nat_digits [OF that] by (auto simp: is_digit_def hex_value_def Let_def)
  ultimately show ?thesis by (simp add: hex_text_def show_byte_def)
qed

lemma dotted_head: "length bs = 4 \<Longrightarrow> \<exists>t. dotted bs = show_byte (hd bs) @ CHR ''.'' # t"
  by (cases bs rule: dotted.cases) auto

lemma fields_head: "fields_text s bs \<Longrightarrow> hd s \<noteq> CHR '':'' \<and> (\<exists>h t. s = h @ t \<and> hex_text h)"
proof (induction rule: fields_text.induct)
  case (Dotted bs)
  from dotted_head [OF this] obtain t where "dotted bs = show_byte (hd bs) @ CHR ''.'' # t" by blast
  moreover have "show_byte (hd bs) \<noteq> []" "hd (show_byte (hd bs)) \<noteq> CHR '':''"
    using show_byte_hex [of "hd bs"] by (cases "show_byte (hd bs)"; auto simp: hex_text_def)+
  ultimately have "hd (dotted bs) \<noteq> CHR '':''" by simp
  moreover have "\<exists>h t. dotted bs = h @ t \<and> hex_text h"
    using \<open>dotted bs = _\<close> show_byte_hex [of "hd bs"] by blast
  ultimately show ?case by blast
qed (auto simp: hex_text_def neq_Nil_conv)

lemma loop_fields:
  assumes "fields_text s bs" and "length ip + length bs \<le> 16" and "e \<noteq> None \<or> length ip + length bs = 16"
  shows "parseIPv6_loop ip e s = Some (ip @ bs, e, [])"
  using assms
proof (induction arbitrary: ip rule: fields_text.induct)
  case (Group h)
  with loop_head [of h ip "[]" e] show ?case by simp
next
  case (Dotted bs)
  from dotted_head [OF Dotted.hyps] obtain t where t: "dotted bs = show_byte (hd bs) @ CHR ''.'' # t" by blast
  have "hex_run 0 0 (dotted bs) = Some (length (show_byte (hd bs)), hex_number (show_byte (hd bs)), CHR ''.'' # t)"
    unfolding t by (rule hex_run_text [OF show_byte_hex]) simp
  moreover have "show_byte (hd bs) \<noteq> []" using show_byte_hex by (auto simp: hex_text_def)
  moreover have "parseIPv4Fields None 0 0 [] (dotted bs) = Some bs" using Dotted.hyps by (simp add: parseIPv4Fields_iff)
  ultimately show ?case using Dotted by (subst parseIPv6_loop.simps) auto
next
  case (More h s bs)
  have s: "s \<noteq> []" "hd s \<noteq> CHR '':''" using fields_text_bytes [OF More.hyps(2)] fields_head [OF More.hyps(2)] by simp_all
  from More.prems(1) have "length ip < 16" by simp
  from loop_head [OF More.hyps(1) this, of "CHR '':'' # s" e] s
  have "parseIPv6_loop ip e (h @ CHR '':'' # s) = parseIPv6_loop (ip @ group_bytes h) e s" by simp
  with More.IH [of "ip @ group_bytes h"] More.prems show ?case by simp
qed

lemma groups_head: "groups_text s bs \<Longrightarrow> hd s \<noteq> CHR '':'' \<and> (\<exists>h t. s = h @ t \<and> hex_text h)"
  by (induction rule: groups_text.induct) (auto simp: hex_text_def neq_Nil_conv)

lemma loop_groups:
  assumes "groups_text l bl" and "length ip + length bl < 16"
  shows "parseIPv6_loop ip None (l @ CHR '':'' # CHR '':'' # r) =
    (if r = [] then Some (ip @ bl, Some (length ip + length bl), [])
     else parseIPv6_loop (ip @ bl) (Some (length ip + length bl)) r)"
  using assms
proof (induction arbitrary: ip rule: groups_text.induct)
  case (One h)
  with loop_head [of h ip "CHR '':'' # CHR '':'' # r" None] show ?case by simp
next
  case (More h s bs)
  have s: "s \<noteq> []" "hd s \<noteq> CHR '':''" using groups_text_bytes [OF More.hyps(2)] groups_head [OF More.hyps(2)] by simp_all
  from More.prems have "length ip < 16" by simp
  from loop_head [OF More.hyps(1) this, of "CHR '':'' # s @ CHR '':'' # CHR '':'' # r" None] s
  have "parseIPv6_loop ip None (h @ CHR '':'' # s @ CHR '':'' # CHR '':'' # r) =
      parseIPv6_loop (ip @ group_bytes h) None (s @ CHR '':'' # CHR '':'' # r)" by simp
  with More.IH [of "ip @ group_bytes h"] More.prems show ?case by (simp add: add.assoc)
qed

section \<open>The parser is exact\<close>

text \<open>The characters of a text: no percent sign, and a colon comes first of the separators.\<close>

lemma hex_text_chars: "hex_text h \<Longrightarrow> c \<in> set h \<Longrightarrow> c \<notin> {CHR '':'', CHR ''.'', CHR ''%''}"
  by (auto simp: hex_text_def)

lemma dotted_separators: "c \<in> set (dotted bs) \<Longrightarrow> c \<noteq> CHR ''%'' \<and> c \<noteq> CHR '':''"
  by (induction bs rule: dotted.induct) (auto simp: show_byte_def dest: show_nat_digits)

lemma fields_chars: "fields_text s bs \<Longrightarrow> CHR ''%'' \<notin> set s"
  by (induction rule: fields_text.induct) (auto dest: hex_text_chars dotted_separators)

lemma groups_chars: "groups_text s bs \<Longrightarrow> CHR ''%'' \<notin> set s"
  by (induction rule: groups_text.induct) (auto dest: hex_text_chars)

lemma v6_text_chars: "v6_text s bs \<Longrightarrow> CHR ''%'' \<notin> set s"
  by (auto elim!: v6_text.cases dest: fields_chars groups_chars)

lemma v6_text_colon:
  assumes "v6_text s bs"
  shows "\<exists>u v. s = u @ CHR '':'' # v \<and> (\<forall>c \<in> set u. c \<notin> {CHR ''.'', CHR '':'', CHR ''%''})"
  using assms
proof cases
  case Full
  from Full(1) show ?thesis
  proof cases
    case (More h u bu)
    then show ?thesis using hex_text_chars by blast
  qed (use Full in auto)
next
  case (Short l bl r br)
  show ?thesis
  proof (cases "l = []")
    case True
    with Short(1) have "s = [] @ CHR '':'' # CHR '':'' # r" by simp
    then show ?thesis by (metis empty_iff empty_set)
  next
    case False
    with Short(3) have "groups_text l bl" by simp
    then show ?thesis
    proof cases
      case One
      with Short(1) show ?thesis using hex_text_chars by blast
    next
      case (More h u bu)
      with Short(1) have "s = h @ CHR '':'' # u @ CHR '':'' # CHR '':'' # r" by simp
      with More(3) show ?thesis using hex_text_chars by blast
    qed
  qed
qed

definition leading :: "string \<Rightarrow> bool" where
  "leading s \<longleftrightarrow> length s \<ge> 2 \<and> s ! 0 = CHR '':'' \<and> s ! 1 = CHR '':''"

lemma leading_iff: "leading s \<longleftrightarrow> (\<exists>r. s = CHR '':'' # CHR '':'' # r)"
  by (cases s; cases "tl s") (auto simp: leading_def)

text \<open>The bytes that \<open>parseIPv6\<close> reads in a text without a zone.\<close>

definition v6_bytes :: "string \<Rightarrow> bytes option" where
  "v6_bytes s =
     (if leading s \<and> drop 2 s = [] then Some (replicate 16 0)
      else case parseIPv6_loop [] (if leading s then Some 0 else None) (if leading s then drop 2 s else s) of
             None \<Rightarrow> None
           | Some (ip, ellipsis, rest) \<Rightarrow> if rest \<noteq> [] then None else expand_ellipsis ip ellipsis)"

lemma v6_bytes_sound:
  assumes "v6_bytes s = Some bs"
  shows "v6_text s bs"
proof (cases "leading s")
  case True
  then obtain r where s: "s = CHR '':'' # CHR '':'' # r" by (auto simp: leading_iff)
  show ?thesis
  proof (cases "r = []")
    case True
    with s assms \<open>leading s\<close> v6_text.Short [of "[]" "[]" "[]" "[]"] show ?thesis by (simp add: v6_bytes_def)
  next
    case False
    with assms True s obtain ip e where l: "parseIPv6_loop [] (Some 0) r = Some (ip, e, [])" "expand_ellipsis ip e = Some bs"
      by (auto simp: v6_bytes_def split: option.splits if_splits)
    from loop_sound [OF l(1)] obtain br where r: "e = Some 0" "fields_text r br" "ip = br" "length ip \<le> 16" "even (length ip)"
      by auto
    with l(2) have "length br < 16" "bs = replicate (16 - length br) 0 @ br"
      by (auto simp: expand_ellipsis_def split: if_splits)
    moreover from this(1) r(3,5) have "length br \<le> 14" by presburger
    ultimately show ?thesis using v6_text.Short [of "[]" "[]" r br] r(2) s by simp
  qed
next
  case False
  with assms obtain ip e where l: "parseIPv6_loop [] None s = Some (ip, e, [])" "expand_ellipsis ip e = Some bs"
    by (auto simp: v6_bytes_def split: option.splits if_splits)
  from loop_sound [OF l(1)] have len: "length ip \<le> 16" "even (length ip)"
    and "e = None \<and> fields_text s ip \<or> (\<exists>a bl r br. s = a @ CHR '':'' # CHR '':'' # r \<and> groups_text a bl \<and>
       (r = [] \<and> br = [] \<or> fields_text r br) \<and> ip = bl @ br \<and> e = Some (length bl))" by auto
  from this(3) consider "e = None" "fields_text s ip" |
    a bl r br where "s = a @ CHR '':'' # CHR '':'' # r" "groups_text a bl" "ip = bl @ br" "e = Some (length bl)"
      "r = [] \<and> br = [] \<or> fields_text r br" by blast
  then show ?thesis
  proof cases
    case 1
    with l(2) len(1) have "bs = ip" "length ip = 16" by (auto simp: expand_ellipsis_def split: if_splits)
    with 1 show ?thesis by (simp add: v6_text.Full)
  next
    case a: (2 a bl r br)
    from l(2) a(3,4) have "length ip < 16" and bs: "bs = bl @ replicate (16 - (length bl + length br)) 0 @ br"
      by (auto simp: expand_ellipsis_def split: if_splits)
    with len(2) have "length ip \<le> 14" by presburger
    with a(3) have "length bl + length br \<le> 14" by simp
    with v6_text.Short [OF disjI2 [OF a(2)] a(5)] show ?thesis unfolding a(1) bs by blast
  qed
qed

lemma v6_bytes_complete: "v6_text s bs \<Longrightarrow> v6_bytes s = Some bs"
proof (induction rule: v6_text.induct)
  case (Full s bs)
  from fields_head [OF Full(1)] have "\<not> leading s" by (auto simp: leading_iff)
  moreover have "parseIPv6_loop [] None s = Some (bs, None, [])" using loop_fields [OF Full(1), of "[]" None] Full(2) by simp
  ultimately show ?case using Full(2) by (simp add: v6_bytes_def expand_ellipsis_def)
next
  case (Short l bl r br)
  show ?case
  proof (cases "l = []")
    case True
    then have bl: "bl = []" using Short(1) by (auto dest: groups_text_bytes)
    have lead: "leading (CHR '':'' # CHR '':'' # r)" by (simp add: leading_iff)
    show ?thesis
    proof (cases "r = []")
      case True
      with Short(2) have "br = []" by (auto dest: fields_text_bytes)
      with True \<open>l = []\<close> bl lead show ?thesis by (simp add: v6_bytes_def)
    next
      case False
      with Short(2) have f: "fields_text r br" by simp
      with Short(3) bl have "parseIPv6_loop [] (Some 0) r = Some (br, Some 0, [])"
        using loop_fields [OF f, of "[]" "Some 0"] by simp
      with False \<open>l = []\<close> bl lead Short(3) show ?thesis by (simp add: v6_bytes_def expand_ellipsis_def)
    qed
  next
    case False
    with Short(1) have g: "groups_text l bl" by simp
    from groups_head [OF g] False have lead: "\<not> leading (l @ CHR '':'' # CHR '':'' # r)" by (cases l) (auto simp: leading_iff)
    from Short(3) have "length bl < 16" by simp
    with loop_groups [OF g, of "[]" r]
    have loop: "parseIPv6_loop [] None (l @ CHR '':'' # CHR '':'' # r) =
        (if r = [] then Some (bl, Some (length bl), []) else parseIPv6_loop bl (Some (length bl)) r)" by simp
    have "parseIPv6_loop [] None (l @ CHR '':'' # CHR '':'' # r) = Some (bl @ br, Some (length bl), [])"
    proof (cases "r = []")
      case True
      with Short(2) have "br = []" by (auto dest: fields_text_bytes)
      with True loop show ?thesis by simp
    next
      case False
      with Short(2) have f: "fields_text r br" by simp
      from loop_fields [OF f, of bl "Some (length bl)"] Short(3) False loop show ?thesis by simp
    qed
    with lead Short(3) show ?thesis by (simp add: v6_bytes_def expand_ellipsis_def)
  qed
qed

lemma cut_at_cases:
  "cut_at c s = (a, z) \<Longrightarrow> c \<notin> set a \<and> (case z of None \<Rightarrow> s = a | Some t \<Rightarrow> s = a @ c # t)"
  by (induction s arbitrary: a z) (auto split: if_splits prod.splits option.splits)

lemma v6_text_length: "v6_text s bs \<Longrightarrow> length bs = 16"
  by (induction rule: v6_text.induct) auto

lemma parseIPv6_bytes:
  "parseIPv6 in_s = (let (s, z) = cut_at (CHR ''%'') in_s
     in if z = Some [] then None
        else map_option (\<lambda>bs. Addr6 (get_be bs) (case z of None \<Rightarrow> [] | Some z \<Rightarrow> z)) (v6_bytes s))"
proof -
  obtain s z where cut: "cut_at (CHR ''%'') in_s = (s, z)" by fastforce
  have lead: "(length s \<ge> 2 \<and> s ! 0 = CHR '':'' \<and> s ! 1 = CHR '':'') = leading s" by (simp add: leading_def)
  have zero: "(get_be (replicate 16 0) :: 128 word) = 0" by (simp add: get_be_def be_nat_def numeral_eq_Suc)
  show ?thesis
    unfolding parseIPv6_def cut prod.case Let_def lead v6_bytes_def
    by (cases "leading s \<and> drop 2 s = []")
      (auto simp: addr_WithZone_def AddrFrom16_def IPv6Unspecified_def zero option.map_comp comp_def split: option.split prod.split)
qed

theorem ParseAddr_iff: "ParseAddr s = Some a \<longleftrightarrow> addr_text s a"
proof
  assume "ParseAddr s = Some a"
  then consider "parseIPv4 s = Some a" | "parseIPv6 s = Some a"
    by (auto simp: ParseAddr_def split: list.splits if_splits)
  then show "addr_text s a"
  proof cases
    case 1
    then show ?thesis by (auto simp: parseIPv4_iff intro: addr_text.IPv4)
  next
    case 2
    obtain t z where cut: "cut_at (CHR ''%'') s = (t, z)" by fastforce
    with 2 obtain bs where bs: "v6_bytes t = Some bs" "a = Addr6 (get_be bs) (case z of None \<Rightarrow> [] | Some z \<Rightarrow> z)"
      "z \<noteq> Some []" by (auto simp: parseIPv6_bytes split: if_splits)
    from v6_bytes_sound [OF bs(1)] bs(2,3) cut_at_cases [OF cut] show ?thesis
      by (cases z) (auto intro: addr_text.IPv6 addr_text.Zone)
  qed
next
  assume "addr_text s a"
  then show "ParseAddr s = Some a"
  proof cases
    case (IPv4 v)
    then have "parseIPv4 s = Some a" by (auto simp: parseIPv4_iff)
    moreover obtain t where "dotted (put_be 4 v) = show_byte (hd (put_be 4 v)) @ CHR ''.'' # t"
      using dotted_head [of "put_be 4 v"] by auto
    moreover have "dropWhile (\<lambda>c. c \<notin> {CHR ''.'', CHR '':'', CHR ''%''}) (show_byte (hd (put_be 4 v)) @ CHR ''.'' # t) = CHR ''.'' # t"
      using hex_text_chars [OF show_byte_hex] by (subst dropWhile_append2) auto
    ultimately show ?thesis using IPv4 by (simp add: ParseAddr_def)
  next
    case (IPv6 bs)
    from v6_text_colon [OF IPv6(2)] obtain u v where "s = u @ CHR '':'' # v" "\<forall>c \<in> set u. c \<notin> {CHR ''.'', CHR '':'', CHR ''%''}"
      by blast
    then have "ParseAddr s = parseIPv6 s" by (rule ParseAddr_colon)
    with v6_text_chars [OF IPv6(2)] v6_bytes_complete [OF IPv6(2)] IPv6(1) show ?thesis by (simp add: parseIPv6_bytes)
  next
    case (Zone t bs zone)
    from v6_text_colon [OF Zone(3)] obtain u v where "t = u @ CHR '':'' # v" and u: "\<forall>c \<in> set u. c \<notin> {CHR ''.'', CHR '':'', CHR ''%''}"
      by blast
    with Zone(1) have "s = u @ CHR '':'' # v @ CHR ''%'' # zone" by simp
    then have "ParseAddr s = parseIPv6 s" using u by (rule ParseAddr_colon)
    with v6_text_chars [OF Zone(3)] v6_bytes_complete [OF Zone(3)] Zone(1,2,4) show ?thesis by (simp add: parseIPv6_bytes)
  qed
qed

end
