(* ===== verification/Upnp_Discovery.thy ===== *)
theory Upnp_Discovery
  imports Upnp_NAT Go_Addr_Grammar
begin

text \<open>
  How \<open>upnp.go\<close> finds UPnP gateways: unicast searches addressed to the default gateway, and the
  multicast searches of \<open>goupnp\<close> and \<open>go-ssdp\<close>. Both libraries are outside the repository; their calls
  are the functions of \<open>upnp_lib\<close> over the state \<open>'d\<close> of the outside. A function that feeds a channel
  returns the list of values it offers on it.
\<close>

section \<open>The libraries\<close>

record service =
  sv_ServiceType :: string
  sv_id :: nat

text \<open>A device description: its base URL, and its services in the order \<open>VisitServices\<close> visits them.\<close>

record root_device =
  rd_URLBase :: url
  rd_services :: "service list"

record search_request =
  sr_Host :: string
  sr_MAN :: string
  sr_MX :: string
  sr_ST :: string

record search_response =
  rs_StatusCode :: int
  rs_Location :: string

datatype wan_client =
    IG1_WANIPConnection1 | IG1_WANPPPConnection1
  | IG2_WANIPConnection1 | IG2_WANIPConnection2 | IG2_WANPPPConnection1

record 'd upnp_lib =
  ul_ctx_err :: "ctx \<Rightarrow> 'd \<Rightarrow> ctx_err option"
  ul_NewHTTPUClient :: "'d \<Rightarrow> unit or_err \<times> 'd"
  ul_Do :: "search_request \<Rightarrow> duration \<Rightarrow> nat \<Rightarrow> 'd \<Rightarrow> search_response list or_err \<times> 'd"
  ul_DeviceByURL :: "ctx \<Rightarrow> url \<Rightarrow> 'd \<Rightarrow> root_device or_err \<times> 'd"
  ul_DiscoverDevices :: "ctx \<Rightarrow> string \<Rightarrow> 'd \<Rightarrow> root_device option list or_err \<times> 'd"
  ul_ssdp_Search :: "'d \<Rightarrow> (string \<times> string) list or_err \<times> 'd"
  ul_client :: "wan_client \<Rightarrow> root_device \<Rightarrow> service \<Rightarrow> 'd upnp_client"

section \<open>Constants\<close>

definition ssdpPort :: "16 word" where
  "ssdpPort = 1900"

definition searchRepeats :: nat where
  "searchRepeats = 3"

definition upnpUnicastSearchTimeout :: duration where
  "upnpUnicastSearchTimeout = 2 * second"

datatype upnpDiscovery = Unicast | Multicast

definition discovery_name :: "upnpDiscovery \<Rightarrow> string" where
  "discovery_name v = (case v of Unicast \<Rightarrow> ''unicast'' | Multicast \<Rightarrow> ''multicast'')"

type_synonym upnpSearchTarget = string

definition searchTargetIGDv2 :: upnpSearchTarget where
  "searchTargetIGDv2 = ''urn:schemas-upnp-org:device:InternetGatewayDevice:2''"

definition searchTargetIGDv1 :: upnpSearchTarget where
  "searchTargetIGDv1 = ''urn:schemas-upnp-org:device:InternetGatewayDevice:1''"

definition searchTargetAll :: upnpSearchTarget where
  "searchTargetAll = ''ssdp:all''"

definition upnpUnicastSearchTargets :: "upnpSearchTarget list" where
  "upnpUnicastSearchTargets = [searchTargetIGDv2, searchTargetIGDv1, searchTargetAll]"

definition URN_WANIPConnection_1 :: string where
  "URN_WANIPConnection_1 = ''urn:schemas-upnp-org:service:WANIPConnection:1''"

definition URN_WANIPConnection_2 :: string where
  "URN_WANIPConnection_2 = ''urn:schemas-upnp-org:service:WANIPConnection:2''"

definition URN_WANPPPConnection_1 :: string where
  "URN_WANPPPConnection_1 = ''urn:schemas-upnp-org:service:WANPPPConnection:1''"

definition URN_WANConnectionDevice_1 :: string where
  "URN_WANConnectionDevice_1 = ''urn:schemas-upnp-org:device:WANConnectionDevice:1''"

definition URN_WANConnectionDevice_2 :: string where
  "URN_WANConnectionDevice_2 = ''urn:schemas-upnp-org:device:WANConnectionDevice:2''"

definition upnpServiceRank :: "string \<Rightarrow> nat" where
  "upnpServiceRank t =
     (if t = URN_WANIPConnection_2 then 3
      else if t = URN_WANIPConnection_1 then 2
      else if t = URN_WANPPPConnection_1 then 1
      else 0)"

text \<open>
  The order of \<open>sort.SliceStable\<close> in \<open>natFromUPNPLocation\<close>: higher ranks come first.
\<close>

datatype preference = Rank nat

instantiation preference :: linorder
begin

definition less_eq_preference :: "preference \<Rightarrow> preference \<Rightarrow> bool" where
  "less_eq_preference a b = (case (a, b) of (Rank m, Rank n) \<Rightarrow> n \<le> m)"

definition less_preference :: "preference \<Rightarrow> preference \<Rightarrow> bool" where
  "less_preference a b = (case (a, b) of (Rank m, Rank n) \<Rightarrow> n < m)"

instance
  by standard (auto simp: less_eq_preference_def less_preference_def split: preference.splits)

end

lemma preference_simps [simp]: "Rank m \<le> Rank n \<longleftrightarrow> n \<le> m" "Rank m < Rank n \<longleftrightarrow> n < m"
  by (simp_all add: less_eq_preference_def less_preference_def)

definition service_preference :: "service \<Rightarrow> preference" where
  "service_preference srv = Rank (upnpServiceRank (sv_ServiceType srv))"

section \<open>From a description to a gateway\<close>

text \<open>The client and the name of a service type.\<close>

definition wan_service :: "string \<Rightarrow> (wan_client \<times> string) option" where
  "wan_service t =
     (if t = URN_WANIPConnection_2 then Some (IG2_WANIPConnection2, ''IP2'')
      else if t = URN_WANIPConnection_1 then Some (IG2_WANIPConnection1, ''IP1'')
      else if t = URN_WANPPPConnection_1 then Some (IG2_WANPPPConnection1, ''PPP1'')
      else None)"

definition natFromUPNPService ::
  "'d upnp_lib \<Rightarrow> ctx \<Rightarrow> root_device \<Rightarrow> service \<Rightarrow> upnpDiscovery \<Rightarrow> 'd \<Rightarrow> 'd upnp_NAT or_err \<times> 'd" where
  "natFromUPNPService lib ctx rootDev srv discovery d =
     (case wan_service (sv_ServiceType srv) of
        None \<Rightarrow> (Inl (Errorf ''unsupported service type %s'' [AStr (sv_ServiceType srv)]), d)
      | Some (kind, service) \<Rightarrow>
          let client = ul_client lib kind rootDev srv;
              (r, d) = uc_GetNATRSIPStatus client ctx d
          in case r of
               Inl err \<Rightarrow> (Inl (Errorf ''get NAT status: %w'' [AErr err]), d)
             | Inr (_, isNAT) \<Rightarrow>
                 if \<not> isNAT then (Inl (ErrNew ''gateway reports NAT disabled''), d)
                 else (Inr (newUPNPNAT client (''UPnP '' @ discovery_name discovery @ '' ('' @ service @ '')'')
                              (rd_URLBase rootDev)), d))"

fun first_usable ::
  "'d upnp_lib \<Rightarrow> ctx \<Rightarrow> root_device \<Rightarrow> upnpDiscovery \<Rightarrow> service list \<Rightarrow> 'd \<Rightarrow> 'd upnp_NAT option \<times> 'd" where
  "first_usable lib ctx rootDev discovery [] d = (None, d)"
| "first_usable lib ctx rootDev discovery (srv # services) d =
     (let (r, d) = natFromUPNPService lib ctx rootDev srv discovery d
      in case r of
           Inr gateway \<Rightarrow> (Some gateway, d)
         | Inl err \<Rightarrow> first_usable lib ctx rootDev discovery services d)"

definition natFromUPNPLocation ::
  "'d upnp_lib \<Rightarrow> ctx \<Rightarrow> string \<Rightarrow> upnpDiscovery \<Rightarrow> 'd \<Rightarrow> 'd upnp_NAT or_err \<times> 'd" where
  "natFromUPNPLocation lib ctx location discovery d =
     (case url_Parse location of
        None \<Rightarrow> (Inl (Errorf ''parse location: %w'' [AErr (ExtErr ''net/url'')]), d)
      | Some loc \<Rightarrow>
          let (r, d) = ul_DeviceByURL lib ctx loc d
          in case r of
               Inl err \<Rightarrow> (Inl (Errorf ''fetch device description: %w'' [AErr err]), d)
             | Inr rootDev \<Rightarrow>
                 let services = sort_key service_preference
                       (filter (\<lambda>srv. upnpServiceRank (sv_ServiceType srv) > 0) (rd_services rootDev));
                     (gateway, d) = first_usable lib ctx rootDev discovery services d
                 in case gateway of
                      Some gateway \<Rightarrow> (Inr gateway, d)
                    | None \<Rightarrow> (Inl (Errorf ''no usable WAN connection service in device at %s'' [AStr location]), d))"

section \<open>Unicast search\<close>

definition locationHasAddr :: "string \<Rightarrow> addr \<Rightarrow> bool" where
  "locationHasAddr location addr \<longleftrightarrow>
     (case url_Parse location of
        None \<Rightarrow> False
      | Some loc \<Rightarrow>
          (case ParseAddr (Hostname loc) of
             None \<Rightarrow> False
           | Some locAddr \<Rightarrow> addr_Unmap locAddr = addr_Unmap addr))"

definition searchUPNPUnicast ::
  "'d upnp_lib \<Rightarrow> addr \<times> 16 word \<Rightarrow> string \<Rightarrow> 'd \<Rightarrow> string list or_err \<times> 'd" where
  "searchUPNPUnicast lib gatewayAddr searchTarget d =
     (let mx = max (upnpUnicastSearchTimeout sdiv second) 1;
          host = addrport_String gatewayAddr;
          req = \<lparr>sr_Host = host, sr_MAN = CHR 0x22 # ''ssdp:discover'' @ [CHR 0x22],
                 sr_MX = show_nat (nat mx), sr_ST = searchTarget\<rparr>;
          (r, d) = ul_Do lib req upnpUnicastSearchTimeout searchRepeats d
      in case r of
           Inl err \<Rightarrow> (Inl err, d)
         | Inr responses \<Rightarrow>
             (Inr (filter (\<lambda>location. location \<noteq> [])
                     (map rs_Location (filter (\<lambda>resp. rs_StatusCode resp = 200) responses))), d))"

text \<open>
  The loop over the answers of one search: \<open>checked\<close> are the locations seen before. The result holds
  the gateway found, the new \<open>checked\<close> and the locations fetched.
\<close>

fun try_locations ::
  "'d upnp_lib \<Rightarrow> ctx \<Rightarrow> addr \<Rightarrow> string set \<Rightarrow> string list \<Rightarrow> 'd
   \<Rightarrow> 'd upnp_NAT option \<times> string set \<times> string list \<times> 'd" where
  "try_locations lib ctx addr checked [] d = (None, checked, [], d)"
| "try_locations lib ctx addr checked (location # locations) d =
     (if location \<in> checked then try_locations lib ctx addr checked locations d
      else
        let checked = insert location checked
        in if \<not> locationHasAddr location addr then try_locations lib ctx addr checked locations d
           else
             let (r, d) = natFromUPNPLocation lib ctx location Unicast d
             in case r of
                  Inr gateway \<Rightarrow> (Some gateway, checked, [location], d)
                | Inl err \<Rightarrow>
                    let (g, checked, fetched, d) = try_locations lib ctx addr checked locations d
                    in (g, checked, location # fetched, d))"

text \<open>The loop over the search targets; the result holds the searches made and the locations fetched.\<close>

fun try_targets ::
  "'d upnp_lib \<Rightarrow> ctx \<Rightarrow> addr \<times> 16 word \<Rightarrow> string set \<Rightarrow> string list \<Rightarrow> 'd
   \<Rightarrow> 'd upnp_NAT or_err \<times> string list \<times> string list \<times> 'd" where
  "try_targets lib ctx gatewayAddr checked [] d =
     (Inl (Errorf ''no UPnP gateway found at %s'' [AStr (addrport_String gatewayAddr)]), [], [], d)"
| "try_targets lib ctx gatewayAddr checked (target # targets) d =
     (case ul_ctx_err lib ctx d of
        Some e \<Rightarrow> (Inl (CtxErr e), [], [], d)
      | None \<Rightarrow>
          let (r, d) = searchUPNPUnicast lib gatewayAddr target d
          in case r of
               Inl err \<Rightarrow>
                 let (r, searched, fetched, d) = try_targets lib ctx gatewayAddr checked targets d
                 in (r, target # searched, fetched, d)
             | Inr locations \<Rightarrow>
                 let (g, checked, fetched, d) = try_locations lib ctx (fst gatewayAddr) checked locations d
                 in case g of
                      Some gateway \<Rightarrow> (Inr gateway, [target], fetched, d)
                    | None \<Rightarrow>
                        let (r, searched, fetched', d) = try_targets lib ctx gatewayAddr checked targets d
                        in (r, target # searched, fetched @ fetched', d))"

definition discoverUPNPUnicast ::
  "'d upnp_lib \<Rightarrow> ctx \<Rightarrow> addr \<times> 16 word \<Rightarrow> 'd \<Rightarrow> 'd upnp_NAT or_err \<times> string list \<times> string list \<times> 'd" where
  "discoverUPNPUnicast lib ctx gatewayAddr d =
     (let (r, d) = ul_NewHTTPUClient lib d
      in case r of
           Inl err \<Rightarrow> (Inl (Errorf ''create SSDP client: %w'' [AErr err]), [], [], d)
         | Inr client \<Rightarrow> try_targets lib ctx gatewayAddr {} upnpUnicastSearchTargets d)"

text \<open>
  The value that is found is offered in a select that also hears \<open>ctx.Done()\<close>: when the context is done
  it may be dropped. The list holds it in any case; that it is not taken is, for the merge that reads the
  channel, a forwarder that leaves or withdraws (\<open>merge_step\<close>).
\<close>

definition discoverUPNPUnicastWithAddr ::
  "'d upnp_lib \<Rightarrow> ctx \<Rightarrow> addr \<times> 16 word \<Rightarrow> 'd \<Rightarrow> 'd upnp_NAT list" where
  "discoverUPNPUnicastWithAddr lib ctx gatewayAddr d =
     (case fst (discoverUPNPUnicast lib ctx gatewayAddr d) of Inl err \<Rightarrow> [] | Inr gateway \<Rightarrow> [gateway])"

text \<open>A nil channel is \<open>None\<close>.\<close>

definition discoverUPNP_Unicast ::
  "'d upnp_lib \<Rightarrow> string \<Rightarrow> router or_err \<Rightarrow> ctx \<Rightarrow> 'd \<Rightarrow> 'd upnp_NAT list option" where
  "discoverUPNP_Unicast lib goos newRouter ctx d =
     (case getDefaultGateway goos newRouter of
        Inl err \<Rightarrow> None
      | Inr gateway \<Rightarrow>
     (case AddrFromSlice gateway of
        None \<Rightarrow> None
      | Some addr \<Rightarrow> Some (discoverUPNPUnicastWithAddr lib ctx (addr_Unmap addr, ssdpPort) d)))"

section \<open>Multicast search\<close>

fun contains :: "string \<Rightarrow> string \<Rightarrow> bool" where
  "contains [] sub \<longleftrightarrow> sub = []"
| "contains (c # s) sub \<longleftrightarrow> take (length sub) (c # s) = sub \<or> contains s sub"

fun first_igd :: "'d upnp_lib \<Rightarrow> ctx \<Rightarrow> (string \<times> string) list \<Rightarrow> 'd \<Rightarrow> 'd upnp_NAT list \<times> 'd" where
  "first_igd lib ctx [] d = ([], d)"
| "first_igd lib ctx ((typ, location) # deviceList) d =
     (if \<not> contains typ ''InternetGatewayDevice'' then first_igd lib ctx deviceList d
      else
        let (r, d) = natFromUPNPLocation lib ctx location Multicast d
        in case r of
             Inl err \<Rightarrow> first_igd lib ctx deviceList d
           | Inr gateway \<Rightarrow> ([gateway], d))"

text \<open>As above, a gateway that is dropped when the context is done is a forwarder that does not take it.\<close>

definition discoverUPNP_GenIGDev :: "'d upnp_lib \<Rightarrow> ctx \<Rightarrow> 'd \<Rightarrow> 'd upnp_NAT list" where
  "discoverUPNP_GenIGDev lib ctx d =
     (let (r, d) = ul_ssdp_Search lib d
      in case r of
           Inl err \<Rightarrow> []
         | Inr deviceList \<Rightarrow> fst (first_igd lib ctx deviceList d))"

text \<open>
  The visit of the services of a device by the IGD discoveries: a service whose type is in the table
  and that reports NAT enabled is offered under the table's name.
\<close>

fun offer_services ::
  "'d upnp_lib \<Rightarrow> ctx \<Rightarrow> (string \<Rightarrow> (wan_client \<times> string) option) \<Rightarrow> root_device \<Rightarrow> service list \<Rightarrow> 'd
   \<Rightarrow> 'd upnp_NAT list \<times> 'd" where
  "offer_services lib ctx table rootDev [] d = ([], d)"
| "offer_services lib ctx table rootDev (srv # services) d =
     (if ul_ctx_err lib ctx d \<noteq> None then offer_services lib ctx table rootDev services d
      else case table (sv_ServiceType srv) of
        None \<Rightarrow> offer_services lib ctx table rootDev services d
      | Some (kind, name) \<Rightarrow>
          let client = ul_client lib kind rootDev srv;
              (r, d) = uc_GetNATRSIPStatus client ctx d;
              (nats, d) = offer_services lib ctx table rootDev services d
          in case r of
               Inr (_, True) \<Rightarrow> (newUPNPNAT client name (rd_URLBase rootDev) # nats, d)
             | _ \<Rightarrow> (nats, d))"

fun offer_devices ::
  "'d upnp_lib \<Rightarrow> ctx \<Rightarrow> (string \<Rightarrow> (wan_client \<times> string) option) \<Rightarrow> root_device option list \<Rightarrow> 'd
   \<Rightarrow> 'd upnp_NAT list" where
  "offer_devices lib ctx table [] d = []"
| "offer_devices lib ctx table (None # devs) d = offer_devices lib ctx table devs d"
| "offer_devices lib ctx table (Some rootDev # devs) d =
     (let (nats, d) = offer_services lib ctx table rootDev (rd_services rootDev) d
      in nats @ offer_devices lib ctx table devs d)"

definition ig1_table :: "string \<Rightarrow> (wan_client \<times> string) option" where
  "ig1_table t =
     (if t = URN_WANIPConnection_1 then Some (IG1_WANIPConnection1, ''UPNP (IG1-IP1)'')
      else if t = URN_WANPPPConnection_1 then Some (IG1_WANPPPConnection1, ''UPNP (IG1-PPP1)'')
      else None)"

definition ig2_table :: "string \<Rightarrow> (wan_client \<times> string) option" where
  "ig2_table t =
     (if t = URN_WANIPConnection_1 then Some (IG2_WANIPConnection1, ''UPNP (IG2-IP1)'')
      else if t = URN_WANIPConnection_2 then Some (IG2_WANIPConnection2, ''UPNP (IG2-IP2)'')
      else if t = URN_WANPPPConnection_1 then Some (IG2_WANPPPConnection1, ''UPNP (IG2-PPP1)'')
      else None)"

definition discoverUPNP_IG1 :: "'d upnp_lib \<Rightarrow> ctx \<Rightarrow> 'd \<Rightarrow> 'd upnp_NAT list" where
  "discoverUPNP_IG1 lib ctx d =
     (let (r, d) = ul_DiscoverDevices lib ctx URN_WANConnectionDevice_1 d
      in case r of Inl err \<Rightarrow> [] | Inr devs \<Rightarrow> offer_devices lib ctx ig1_table devs d)"

definition discoverUPNP_IG2 :: "'d upnp_lib \<Rightarrow> ctx \<Rightarrow> 'd \<Rightarrow> 'd upnp_NAT list" where
  "discoverUPNP_IG2 lib ctx d =
     (let (r, d) = ul_DiscoverDevices lib ctx URN_WANConnectionDevice_2 d
      in case r of Inl err \<Rightarrow> [] | Inr devs \<Rightarrow> offer_devices lib ctx ig2_table devs d)"

section \<open>Stable selection\<close>





section \<open>The loops\<close>

lemma try_locations_result:
  assumes "try_locations lib ctx addr checked locations d = (g, checked', fetched, d')"
  shows "checked \<union> set fetched \<subseteq> checked' \<and> set fetched \<subseteq> set locations \<and> distinct fetched \<and>
    (\<forall>l \<in> set fetched. l \<notin> checked \<and> locationHasAddr l addr) \<and>
    (\<forall>x. g = Some x \<longrightarrow> fetched \<noteq> [] \<and>
       (\<exists>d1 d2. natFromUPNPLocation lib ctx (last fetched) Unicast d1 = (Inr x, d2)))"
  using assms
proof (induction locations arbitrary: checked d g checked' fetched d')
  case (Cons location locations)
  show ?case
  proof (cases "location \<in> checked")
    case True
    with Cons.prems have "try_locations lib ctx addr checked locations d = (g, checked', fetched, d')" by simp
    from Cons.IH [OF this] show ?thesis by auto
  next
    case new: False
    show ?thesis
    proof (cases "locationHasAddr location addr")
      case False
      with new Cons.prems
      have "try_locations lib ctx addr (insert location checked) locations d = (g, checked', fetched, d')"
        by simp
      from Cons.IH [OF this] show ?thesis by auto
    next
      case True
      obtain r d1 where r: "natFromUPNPLocation lib ctx location Unicast d = (r, d1)" by fastforce
      show ?thesis
      proof (cases r)
        case (Inr gateway)
        with new True Cons.prems r have "g = Some gateway" "checked' = insert location checked" "fetched = [location]"
          by simp_all
        with new True r Inr show ?thesis by auto
      next
        case (Inl err)
        obtain g1 c1 f1 d2 where
          rec: "try_locations lib ctx addr (insert location checked) locations d1 = (g1, c1, f1, d2)"
          by (metis prod_cases4)
        with new True Cons.prems r Inl have e: "g1 = g" "c1 = checked'" "fetched = location # f1" by simp_all
        from Cons.IH [OF rec] e new True show ?thesis by auto
      qed
    qed
  qed
qed auto

lemma try_targets_result:
  assumes "try_targets lib ctx gw checked targets d = (r, searched, fetched, d')"
  shows "(\<exists>ts. targets = searched @ ts) \<and> distinct fetched \<and>
    (\<forall>l \<in> set fetched. l \<notin> checked \<and> locationHasAddr l (fst gw)) \<and>
    (\<forall>x. r = Inr x \<longrightarrow> fetched \<noteq> [] \<and>
       (\<exists>d1 d2. natFromUPNPLocation lib ctx (last fetched) Unicast d1 = (Inr x, d2)))"
  using assms
proof (induction targets arbitrary: checked d r searched fetched d')
  case (Cons target targets)
  show ?case
  proof (cases "ul_ctx_err lib ctx d")
    case (Some e)
    with Cons.prems show ?thesis by auto
  next
    case None
    obtain s d1 where s: "searchUPNPUnicast lib gw target d = (s, d1)" by fastforce
    show ?thesis
    proof (cases s)
      case (Inl err)
      obtain r1 s1 f1 d2 where rec: "try_targets lib ctx gw checked targets d1 = (r1, s1, f1, d2)"
        by (metis prod_cases4)
      with Cons.prems None s Inl have "r1 = r" "searched = target # s1" "fetched = f1" by auto
      with Cons.IH [OF rec] show ?thesis by auto
    next
      case (Inr locations)
      obtain g c1 f1 d2 where t: "try_locations lib ctx (fst gw) checked locations d1 = (g, c1, f1, d2)"
        by (metis prod_cases4)
      note T = try_locations_result [OF t]
      show ?thesis
      proof (cases g)
        case (Some gateway)
        with Cons.prems None s Inr t T show ?thesis by auto
      next
        case g: None
        obtain r1 s1 f2 d3 where rec: "try_targets lib ctx gw c1 targets d2 = (r1, s1, f2, d3)"
          by (metis prod_cases4)
        with Cons.prems None s Inr t g have e: "r1 = r" "searched = target # s1" "fetched = f1 @ f2" by auto
        from Cons.IH [OF rec] have R: "\<exists>ts. targets = s1 @ ts" "distinct f2"
          "\<forall>l \<in> set f2. l \<notin> c1 \<and> locationHasAddr l (fst gw)"
          "\<forall>x. r1 = Inr x \<longrightarrow> f2 \<noteq> [] \<and> (\<exists>d1 d2. natFromUPNPLocation lib ctx (last f2) Unicast d1 = (Inr x, d2))"
          by blast+
        from T R(2,3) have "distinct (f1 @ f2)" by auto
        with T R e show ?thesis by auto
      qed
    qed
  qed
qed auto

section \<open>Properties\<close>

lemma dotted_plain: "set (dotted bs) \<subseteq> {c. is_digit c \<or> c = CHR ''.''}"
  by (induction bs rule: dotted.induct) (auto simp: show_byte_def dest: show_nat_digits)

lemma dotted_dot: "2 \<le> length bs \<Longrightarrow> CHR ''.'' \<in> set (dotted bs)"
  by (cases bs rule: dotted.cases) auto

lemma ParseAddr_no_colon:
  assumes "CHR '':'' \<notin> set s"
  shows "ParseAddr s = parseIPv4 s"
proof -
  have none: "parseIPv4 s = None" if "CHR ''.'' \<notin> set s \<or> CHR ''%'' \<in> set s"
  proof (rule ccontr)
    assume "parseIPv4 s \<noteq> None"
    then obtain a where "parseIPv4 s = Some a" by blast
    then obtain v :: "32 word" where "s = dotted (put_be 4 v)" unfolding parseIPv4_iff by blast
    moreover have "CHR ''.'' \<in> set (dotted (put_be 4 v))"
      by (rule dotted_dot) simp
    ultimately show False using that dotted_plain [of "put_be 4 v"] by (auto simp: subset_iff)
  qed
  define rest where "rest = dropWhile (\<lambda>c. c \<notin> {CHR ''.'', CHR '':'', CHR ''%''}) s"
  have pa: "ParseAddr s = (case rest of
      [] \<Rightarrow> None
    | c # _ \<Rightarrow> if c = CHR ''.'' then parseIPv4 s else if c = CHR '':'' then parseIPv6 s else None)"
    by (simp only: ParseAddr_def rest_def)
  show ?thesis
  proof (cases rest)
    case Nil
    then have "\<forall>c \<in> set s. c \<notin> {CHR ''.'', CHR '':'', CHR ''%''}"
      by (simp add: rest_def dropWhile_eq_Nil_conv)
    then have "CHR ''.'' \<notin> set s" by blast
    with none Nil show ?thesis by (simp add: pa)
  next
    case (Cons c cs)
    then have "c \<in> {CHR ''.'', CHR '':'', CHR ''%''}"
      by (metis hd_dropWhile list.sel(1) list.simps(3) rest_def)
    moreover have "c \<in> set s"
      using Cons by (metis list.set_intros(1) rest_def set_dropWhileD)
    ultimately consider "c = CHR ''.''" | "c = CHR ''%''" "CHR ''%'' \<in> set s"
      using assms by blast
    then show ?thesis by cases (simp_all add: pa Cons none)
  qed
qed

text \<open>
  C25. The check of a description URL is exact: it accepts the URLs whose host is a text of the gateway
  address and no others. The texts of an address are those of the grammar \<open>addr_text\<close>: for IPv4 the dotted
  decimal form, and for IPv6 any grouping, case, compression and dotted ending that RFC 4291 allows,
  with its zone; an IPv4 gateway is also met in its IPv4-mapped IPv6 form. In particular, of the hosts without a
  colon only the dotted decimal form of an IPv4 gateway is accepted, no host name and no spelling with leading
  zeros, and of the addresses as they are printed only that of the gateway.
\<close>

theorem location_check_exact:
  "(locationHasAddr location gateway \<longleftrightarrow>
     (\<exists>loc a. url_Parse location = Some loc \<and> addr_text (Hostname loc) a \<and> addr_Unmap a = addr_Unmap gateway)) \<and>
   (\<forall>loc. url_Parse location = Some loc \<longrightarrow>
     (\<forall>v. addr_Unmap gateway = Addr4 v \<longrightarrow> CHR '':'' \<notin> set (Hostname loc) \<longrightarrow>
        (locationHasAddr location gateway \<longleftrightarrow> Hostname loc = dotted (put_be 4 v))) \<and>
     (\<forall>host. host \<noteq> NoAddr \<longrightarrow> Hostname loc = addr_String host \<longrightarrow>
        (locationHasAddr location gateway \<longleftrightarrow> addr_Unmap host = addr_Unmap gateway)))"
proof (intro conjI allI impI)
  show "locationHasAddr location gateway \<longleftrightarrow>
     (\<exists>loc a. url_Parse location = Some loc \<and> addr_text (Hostname loc) a \<and> addr_Unmap a = addr_Unmap gateway)"
    by (auto simp: locationHasAddr_def simp flip: ParseAddr_iff split: option.splits)
next
  fix loc v assume url: "url_Parse location = Some loc"
    and v: "addr_Unmap gateway = Addr4 v" and h: "CHR '':'' \<notin> set (Hostname loc)"
  have "locationHasAddr location gateway \<longleftrightarrow> (\<exists>a. parseIPv4 (Hostname loc) = Some a \<and> addr_Unmap a = Addr4 v)"
    using url v ParseAddr_no_colon [OF h]
    by (auto simp: locationHasAddr_def split: option.split)
  also have "\<dots> \<longleftrightarrow> Hostname loc = dotted (put_be 4 v)"
    by (auto simp: parseIPv4_iff addr_Unmap_def)
  finally show "locationHasAddr location gateway \<longleftrightarrow> Hostname loc = dotted (put_be 4 v)" .
qed (simp add: locationHasAddr_def ParseAddr_String)

lemma dotted_plain_host: "list_all plain_host (dotted bs)"
  using dotted_plain [of bs] by (auto simp: list_all_iff plain_host_def)

lemma dotted_no_colon: "CHR '':'' \<notin> set (dotted bs)" "CHR ''['' \<notin> set (dotted bs)"
  using dotted_plain [of bs] by (auto simp: subset_iff)

lemma show_nat_all_digits: "list_all is_digit (show_nat n)"
  by (auto simp: list_all_iff intro: show_nat_digits)

lemma plain_host_port: "list_all plain_host h \<Longrightarrow> list_all is_digit port \<Longrightarrow> list_all plain_host (h @ CHR '':'' # port)"
  by (auto simp: list_all_iff plain_host_def)

lemma dotted_neq_Nil: "length bs = 4 \<Longrightarrow> dotted bs \<noteq> []"
  using dotted_dot [of bs] by auto

text \<open>The URLs a gateway advertises itself by.\<close>

lemma gateway_url:
  fixes v :: "32 word"
  assumes "list_all plain_path path"
  shows "\<exists>loc. url_Parse (''http://'' @ (dotted (put_be 4 v) @ CHR '':'' # show_nat port) @ CHR ''/'' # path) = Some loc \<and>
      Hostname loc = dotted (put_be 4 v) \<and> url_Port loc = show_nat port"
    and "\<exists>loc. url_Parse (''http://'' @ dotted (put_be 4 v) @ CHR ''/'' # path) = Some loc \<and>
      Hostname loc = dotted (put_be 4 v) \<and> url_Port loc = []"
proof -
  let ?h = "dotted (put_be 4 v)"
  note h = dotted_plain_host [of "put_be 4 v"] dotted_no_colon [of "put_be 4 v"]
  note ph = parseHost_plain [OF h(1,2) show_nat_all_digits [of port]]
  have ne: "?h \<noteq> []" by (rule dotted_neq_Nil) simp
  have brackets: "hd ?h \<noteq> CHR ''[''" using h(3) ne by (metis hd_in_set)
  have sp: "splitHostPort (?h @ CHR '':'' # show_nat port) = (?h, show_nat port)" "splitHostPort ?h = (?h, [])"
    using h(2) brackets show_nat_all_digits [of port] digits_no_separator(1) [OF show_nat_all_digits, of port]
    by (simp_all add: splitHostPort_def strip_brackets_def)
  from url_Parse_http [OF plain_host_port [OF h(1) show_nat_all_digits] ph(2) assms] sp(1)
  show "\<exists>loc. url_Parse (''http://'' @ (?h @ CHR '':'' # show_nat port) @ CHR ''/'' # path) = Some loc \<and>
      Hostname loc = ?h \<and> url_Port loc = show_nat port"
    by (intro exI conjI) (assumption, simp_all add: Hostname_def url_Port_def zero_url_def)
  from url_Parse_http [OF h(1) ph(1) assms] sp(2)
  show "\<exists>loc. url_Parse (''http://'' @ ?h @ CHR ''/'' # path) = Some loc \<and> Hostname loc = ?h \<and> url_Port loc = []"
    by (intro exI conjI) (assumption, simp_all add: Hostname_def url_Port_def zero_url_def)
qed

lemma dotted_inject:
  fixes v w :: "32 word"
  shows "dotted (put_be 4 v) = dotted (put_be 4 w) \<longleftrightarrow> v = w"
proof
  assume "dotted (put_be 4 v) = dotted (put_be 4 w)"
  then have "parseIPv4 (dotted (put_be 4 v)) = Some (Addr4 w)" unfolding parseIPv4_iff by blast
  moreover have "parseIPv4 (dotted (put_be 4 v)) = Some (Addr4 v)" unfolding parseIPv4_iff by blast
  ultimately show "v = w" by simp
qed simp

text \<open>
  The witness: a mapped IPv4 gateway by its dotted form, another address, and an IPv6 gateway by a text
  that is neither in lower case nor as short as possible.
\<close>

lemma loose_v6_text: "addr_text ''FE80:0::1'' (Addr6 (get_be ([0xFE, 0x80] @ replicate 13 0 @ [1])) [])"
proof -
  have g: "hex_text ''FE80''" "hex_text ''0''" "hex_text ''1''" by (simp_all add: hex_text_def hex_value_def Let_def)
  have n: "group_bytes ''FE80'' = [0xFE, 0x80]" "group_bytes ''0'' = [0, 0]" "group_bytes ''1'' = [0, 1]"
    by (simp_all add: group_bytes_def hex_number_def hex_value_def)
  from v6_text.Short [OF disjI2 [OF groups_text.More [OF g(1) groups_text.One [OF g(2)]]] disjI2 [OF fields_text.Group [OF g(3)]], unfolded n]
  have "v6_text ''FE80:0::1'' ([0xFE, 0x80] @ replicate 13 0 @ [1])" by (simp add: numeral_eq_Suc)
  then show ?thesis by (rule addr_text.IPv6)
qed

theorem location_check_exact_witness:
  "locationHasAddr (''http://'' @ (dotted (put_be 4 (0xC0A80101 :: 32 word)) @ CHR '':'' # show_nat 5000) @ CHR ''/'' # ''rootDesc.xml'')
     (Addr6 (mapped4 0xC0A80101) []) \<and>
   \<not> locationHasAddr (''http://'' @ (dotted (put_be 4 (0xC0A80163 :: 32 word)) @ CHR '':'' # show_nat 5000) @ CHR ''/'' # ''rootDesc.xml'')
     (Addr6 (mapped4 0xC0A80101) []) \<and>
   locationHasAddr ''http://[FE80:0::1]:80/d'' (Addr6 (get_be ([0xFE, 0x80] @ replicate 13 0 @ [1])) [])"
proof -
  have path: "list_all plain_path ''rootDesc.xml''"
    by (simp add: plain_path_def is_ctl_def)
  have gw: "addr_Unmap (Addr6 (mapped4 0xC0A80101) []) = Addr4 0xC0A80101"
    by (simp add: addr_Unmap_def addr_Is4In6_def)
  have v4: "locationHasAddr (''http://'' @ (dotted (put_be 4 (v :: 32 word)) @ CHR '':'' # show_nat 5000) @ CHR ''/'' # ''rootDesc.xml'')
     (Addr6 (mapped4 0xC0A80101) []) \<longleftrightarrow> v = 0xC0A80101" for v
  proof -
    obtain loc where loc: "url_Parse (''http://'' @ (dotted (put_be 4 v) @ CHR '':'' # show_nat 5000) @ CHR ''/'' # ''rootDesc.xml'') = Some loc"
      "Hostname loc = dotted (put_be 4 v)"
      using gateway_url(1) [OF path, of v 5000] by blast
    from conjunct2 [OF location_check_exact, rule_format, OF loc(1), of "Addr6 (mapped4 0xC0A80101) []"]
      gw loc(2) dotted_no_colon(1)
    show ?thesis by (simp add: dotted_inject)
  qed
  have "map_option Hostname (url_Parse ''http://[FE80:0::1]:80/d'') = Some ''FE80:0::1''" by code_simp
  then obtain loc where "url_Parse ''http://[FE80:0::1]:80/d'' = Some loc" "Hostname loc = ''FE80:0::1''" by auto
  with loose_v6_text have "\<exists>loc a. url_Parse ''http://[FE80:0::1]:80/d'' = Some loc \<and> addr_text (Hostname loc) a \<and>
      addr_Unmap a = addr_Unmap (Addr6 (get_be ([0xFE, 0x80] @ replicate 13 0 @ [1])) [])"
    by (intro exI conjI) (assumption, simp only:, rule refl)
  with conjunct1 [OF location_check_exact [of "''http://[FE80:0::1]:80/d''" "Addr6 (get_be ([0xFE, 0x80] @ replicate 13 0 @ [1])) []"]]
  have "locationHasAddr ''http://[FE80:0::1]:80/d'' (Addr6 (get_be ([0xFE, 0x80] @ replicate 13 0 @ [1])) [])" by (rule iffD2)
  with v4 [of "0xC0A80101"] v4 [of "0xC0A80163"] show ?thesis by simp
qed

text \<open>
  A gateway that advertises itself by its IPv4 address is recognised, whatever the path and with or
  without a port, and the address at which it is then called is its own with the advertised port, or
  80; the same URL with another address is rejected.
\<close>

theorem gateway_location_accepted:
  fixes v w :: "32 word"
  assumes "list_all plain_path path"
    and "location = ''http://'' @ (dotted (put_be 4 v) @ CHR '':'' # show_nat port) @ CHR ''/'' # path"
    and "portless = ''http://'' @ dotted (put_be 4 v) @ CHR ''/'' # path"
  shows "(locationHasAddr location (Addr4 w) \<longleftrightarrow> v = w) \<and> (locationHasAddr portless (Addr4 w) \<longleftrightarrow> v = w) \<and>
    (\<exists>loc. url_Parse location = Some loc \<and>
       deviceHostPort loc = Inr (dotted (put_be 4 v) @ CHR '':'' # show_nat port)) \<and>
    (\<exists>loc. url_Parse portless = Some loc \<and> deviceHostPort loc = Inr (dotted (put_be 4 v) @ '':80''))"
proof -
  note h = dotted_no_colon(1) [of "put_be 4 v"]
  have ne: "dotted (put_be 4 v) \<noteq> []" by (rule dotted_neq_Nil) simp
  have pa: "ParseAddr (dotted (put_be 4 v)) = Some (Addr4 v)"
    unfolding ParseAddr_no_colon [OF h] parseIPv4_iff by blast
  from gateway_url(1) [OF assms(1), of v port] gateway_url(2) [OF assms(1), of v] obtain l1 l2 where
    1: "url_Parse location = Some l1" "Hostname l1 = dotted (put_be 4 v)" "url_Port l1 = show_nat port" and
    2: "url_Parse portless = Some l2" "Hostname l2 = dotted (put_be 4 v)" "url_Port l2 = []"
    unfolding assms(2,3) by blast
  have "locationHasAddr location (Addr4 w) \<longleftrightarrow> v = w" "locationHasAddr portless (Addr4 w) \<longleftrightarrow> v = w"
    using 1 2 pa by (simp_all add: locationHasAddr_def addr_Unmap_def)
  moreover have "deviceHostPort l1 = Inr (dotted (put_be 4 v) @ CHR '':'' # show_nat port)"
    "deviceHostPort l2 = Inr (dotted (put_be 4 v) @ '':80'')"
    using 1 2 ne h by (simp_all add: deviceHostPort_def JoinHostPort_def defaultHTTPPort_def Let_def)
  ultimately show ?thesis using 1(1) 2(1) by blast
qed

theorem gateway_location_accepted_witness:
  "locationHasAddr (''http://'' @ (dotted (put_be 4 (0xC0A80101 :: 32 word)) @ CHR '':'' # show_nat 5000) @ CHR ''/'' # [])
     (Addr4 0xC0A80101)"
  using gateway_location_accepted [where path = "[]" and v = "0xC0A80101" and w = "0xC0A80101" and port = 5000,
      OF _ refl refl] by simp

text \<open>
  C7. A rogue host on the link cannot redirect the unicast discovery: whatever answers come, the only
  description URLs fetched are ones that name the searched gateway, each at most once; the searches are
  the three targets in order, and the gateway found is the one described at the last URL fetched.
\<close>

theorem unicast_only_gateway:
  "(case discoverUPNPUnicast lib ctx gatewayAddr d of (r, searched, fetched, d') \<Rightarrow>
      (\<forall>l \<in> set fetched. locationHasAddr l (fst gatewayAddr)) \<and> distinct fetched \<and>
      (\<exists>ts. upnpUnicastSearchTargets = searched @ ts) \<and>
      (\<forall>gateway. r = Inr gateway \<longrightarrow> fetched \<noteq> [] \<and>
         (\<exists>d1 d2. natFromUPNPLocation lib ctx (last fetched) Unicast d1 = (Inr gateway, d2))))"
proof -
  obtain c d1 where c: "ul_NewHTTPUClient lib d = (c, d1)" by fastforce
  show ?thesis
  proof (cases c)
    case (Inl err)
    with c show ?thesis by (simp add: discoverUPNPUnicast_def)
  next
    case (Inr client)
    obtain r searched fetched d2 where
      t: "try_targets lib ctx gatewayAddr {} upnpUnicastSearchTargets d1 = (r, searched, fetched, d2)"
      by (metis prod_cases4)
    with c Inr have "discoverUPNPUnicast lib ctx gatewayAddr d = (r, searched, fetched, d2)"
      by (simp add: discoverUPNPUnicast_def)
    with try_targets_result [OF t] show ?thesis by simp
  qed
qed

text \<open>
  A network where another host answers first, with its own URL and with the gateway's under a
  different device; the gateway offers a PPP and an IP service.
\<close>

definition gateway_url_text :: string where
  "gateway_url_text = ''http://'' @ (dotted (put_be 4 (0xC0A80101 :: 32 word)) @ CHR '':'' # show_nat 5000) @ CHR ''/'' # []"

definition rogue_url_text :: string where
  "rogue_url_text = ''http://'' @ (dotted (put_be 4 (0xC0A80163 :: 32 word)) @ CHR '':'' # show_nat 5000) @ CHR ''/'' # []"

definition rogue_lib :: "unit upnp_lib" where
  "rogue_lib =
     \<lparr>ul_ctx_err = (\<lambda>_ _. None),
      ul_NewHTTPUClient = (\<lambda>d. (Inr (), d)),
      ul_Do = (\<lambda>_ _ _ d.
        (Inr [\<lparr>rs_StatusCode = 200, rs_Location = rogue_url_text\<rparr>,
              \<lparr>rs_StatusCode = 200, rs_Location = gateway_url_text\<rparr>], d)),
      ul_DeviceByURL = (\<lambda>_ loc d.
        (Inr \<lparr>rd_URLBase = loc,
              rd_services = [\<lparr>sv_ServiceType = URN_WANPPPConnection_1, sv_id = 0\<rparr>,
                             \<lparr>sv_ServiceType = URN_WANIPConnection_1, sv_id = 1\<rparr>,
                             \<lparr>sv_ServiceType = URN_WANIPConnection_1, sv_id = 2\<rparr>]\<rparr>, d)),
      ul_DiscoverDevices = (\<lambda>_ _ d. (Inr [], d)),
      ul_ssdp_Search = (\<lambda>d. (Inr [], d)),
      ul_client = (\<lambda>_ _ srv.
        \<lparr>uc_GetExternalIPAddress = (\<lambda>_ d. (Inr [], d)),
         uc_AddPortMapping = (\<lambda>_ _ d. (None, d)),
         uc_DeletePortMapping = (\<lambda>_ _ _ _ d. (None, d)),
         uc_GetNATRSIPStatus = (\<lambda>_ d. (Inr (False, True), d))\<rparr>)\<rparr>"

lemma URN_distinct [simp]:
  "URN_WANIPConnection_1 \<noteq> URN_WANIPConnection_2" "URN_WANIPConnection_1 \<noteq> URN_WANPPPConnection_1"
  "URN_WANPPPConnection_1 \<noteq> URN_WANIPConnection_2" "URN_WANPPPConnection_1 \<noteq> URN_WANIPConnection_1"
  "URN_WANIPConnection_2 \<noteq> URN_WANIPConnection_1" "URN_WANIPConnection_2 \<noteq> URN_WANPPPConnection_1"
  by (simp_all add: URN_WANIPConnection_1_def URN_WANIPConnection_2_def URN_WANPPPConnection_1_def)

lemma gateway_url_text_parts:
  "locationHasAddr gateway_url_text (Addr4 0xC0A80101)" "\<not> locationHasAddr rogue_url_text (Addr4 0xC0A80101)"
  "gateway_url_text \<noteq> []" "rogue_url_text \<noteq> []" "gateway_url_text \<noteq> rogue_url_text"
  "url_Parse gateway_url_text \<noteq> None"
proof -
  have p: "list_all plain_path []" by simp
  have h: "url_Parse (''http://'' @ (dotted (put_be 4 v) @ CHR '':'' # show_nat 5000) @ CHR ''/'' # []) \<noteq> None \<and>
      (locationHasAddr (''http://'' @ (dotted (put_be 4 v) @ CHR '':'' # show_nat 5000) @ CHR ''/'' # [])
        (Addr4 0xC0A80101) \<longleftrightarrow> v = 0xC0A80101)" for v :: "32 word"
  proof -
    obtain loc where "url_Parse (''http://'' @ (dotted (put_be 4 v) @ CHR '':'' # show_nat 5000) @ CHR ''/'' # []) = Some loc"
      "Hostname loc = dotted (put_be 4 v)"
      using gateway_url(1) [OF p, of v 5000] by blast
    moreover have "ParseAddr (dotted (put_be 4 v)) = Some (Addr4 v)"
      unfolding ParseAddr_no_colon [OF dotted_no_colon(1)] parseIPv4_iff by blast
    ultimately show ?thesis by (simp add: locationHasAddr_def addr_Unmap_def)
  qed
  from h [of "0xC0A80101"] h [of "0xC0A80163"]
  show "locationHasAddr gateway_url_text (Addr4 0xC0A80101)" "\<not> locationHasAddr rogue_url_text (Addr4 0xC0A80101)"
    "url_Parse gateway_url_text \<noteq> None"
    by (simp_all add: gateway_url_text_def rogue_url_text_def)
  then show "gateway_url_text \<noteq> rogue_url_text" by auto
  show "gateway_url_text \<noteq> []" "rogue_url_text \<noteq> []"
    by (simp_all add: gateway_url_text_def rogue_url_text_def)
qed

lemma rank_simps [simp]:
  "upnpServiceRank URN_WANIPConnection_2 = 3" "upnpServiceRank URN_WANIPConnection_1 = 2"
  "upnpServiceRank URN_WANPPPConnection_1 = 1"
  by (simp_all add: upnpServiceRank_def)

lemma rogue_run:
  "\<exists>g. discoverUPNPUnicast rogue_lib Caller (Addr4 0xC0A80101, ssdpPort) () =
     (Inr g, [searchTargetIGDv2], [gateway_url_text], ())"
proof -
  obtain loc where loc: "url_Parse gateway_url_text = Some loc" using gateway_url_text_parts(6) by blast
  obtain g where "natFromUPNPLocation rogue_lib Caller gateway_url_text Unicast () = (Inr g, ())"
    using loc
    by (simp add: natFromUPNPLocation_def natFromUPNPService_def wan_service_def rogue_lib_def
        service_preference_def Let_def)
  then show ?thesis using gateway_url_text_parts
    by (simp add: discoverUPNPUnicast_def upnpUnicastSearchTargets_def searchUPNPUnicast_def rogue_lib_def Let_def)
qed

theorem unicast_only_gateway_witness:
  "\<exists>g. discoverUPNPUnicast rogue_lib Caller (Addr4 0xC0A80101, ssdpPort) () =
     (Inr g, [searchTargetIGDv2], [gateway_url_text], ()) \<and>
   locationHasAddr gateway_url_text (Addr4 0xC0A80101)"
  using rogue_run unicast_only_gateway [where lib = rogue_lib and ctx = Caller and
      gatewayAddr = "(Addr4 0xC0A80101, ssdpPort)" and d = "()"] by auto








section \<open>What the searches offer\<close>

text \<open>The gateway of a service of a device, when its type is in the table and it reports NAT enabled.\<close>

definition offered ::
  "'d upnp_lib \<Rightarrow> (wan_client \<Rightarrow> root_device \<Rightarrow> service \<Rightarrow> bool) \<Rightarrow> (string \<Rightarrow> (wan_client \<times> string) option)
   \<Rightarrow> root_device \<Rightarrow> service \<Rightarrow> 'd upnp_NAT option" where
  "offered lib usable table rootDev srv =
     (case table (sv_ServiceType srv) of
        None \<Rightarrow> None
      | Some (kind, name) \<Rightarrow>
          if usable kind rootDev srv then Some (newUPNPNAT (ul_client lib kind rootDev srv) name (rd_URLBase rootDev))
          else None)"

definition answers_nat ::
  "'d upnp_lib \<Rightarrow> ctx \<Rightarrow> (wan_client \<Rightarrow> root_device \<Rightarrow> service \<Rightarrow> bool) \<Rightarrow> bool" where
  "answers_nat lib ctx usable \<longleftrightarrow> (\<forall>kind rootDev srv d.
     (\<exists>x. fst (uc_GetNATRSIPStatus (ul_client lib kind rootDev srv) ctx d) = Inr (x, True)) \<longleftrightarrow> usable kind rootDev srv)"

lemma offer_services_exact:
  assumes "answers_nat lib ctx usable" and "\<And>d. ul_ctx_err lib ctx d = None"
  shows "fst (offer_services lib ctx table rootDev services d) = List.map_filter (offered lib usable table rootDev) services"
proof (induction services arbitrary: d)
  case (Cons srv services)
  show ?case
  proof (cases "table (sv_ServiceType srv)")
    case None
    with Cons.IH show ?thesis by (simp add: assms(2) offered_def map_filter_simps)
  next
    case (Some kn)
    obtain kind name where kn: "kn = (kind, name)" by fastforce
    obtain r d1 where r: "uc_GetNATRSIPStatus (ul_client lib kind rootDev srv) ctx d = (r, d1)" by fastforce
    with assms(1) have u: "usable kind rootDev srv \<longleftrightarrow> (\<exists>x. r = Inr (x, True))"
      by (metis answers_nat_def fst_conv)
    obtain nats d2 where rest: "offer_services lib ctx table rootDev services d1 = (nats, d2)" by fastforce
    with Cons.IH [of d1] have "nats = List.map_filter (offered lib usable table rootDev) services" by simp
    note run = Some kn r rest this
    show ?thesis
    proof (cases r)
      case (Inl e)
      with run u show ?thesis by (simp add: assms(2) offered_def [of lib usable table rootDev srv] map_filter_simps)
    next
      case (Inr xb)
      then obtain x b where "r = Inr (x, b)" by (cases xb) simp
      with run u show ?thesis by (cases b) (simp_all add: assms(2) offered_def [of lib usable table rootDev srv] map_filter_simps)
    qed
  qed
qed (simp add: map_filter_simps)

lemma offer_devices_exact:
  assumes "answers_nat lib ctx usable" and "\<And>d. ul_ctx_err lib ctx d = None"
  shows "offer_devices lib ctx table devs d =
    concat (map (\<lambda>rootDev. List.map_filter (offered lib usable table rootDev) (rd_services rootDev)) (List.map_filter id devs))"
proof (induction devs arbitrary: d)
  case (Cons dev devs)
  show ?case
  proof (cases dev)
    case None
    with Cons.IH show ?thesis by (simp add: map_filter_simps)
  next
    case (Some rootDev)
    obtain nats d1 where o: "offer_services lib ctx table rootDev (rd_services rootDev) d = (nats, d1)" by fastforce
    with offer_services_exact [OF assms, of table rootDev "rd_services rootDev" d] Cons.IH [of d1] Some show ?thesis
      by (simp add: map_filter_simps)
  qed
qed (simp add: map_filter_simps)

text \<open>Whatever the network does, an offer is of a service of the device, of a type in the table.\<close>

lemma offer_services_sound:
  assumes "u \<in> set (fst (offer_services lib ctx table rootDev services d))"
  shows "\<exists>srv kind name d0 d1 b. srv \<in> set services \<and> table (sv_ServiceType srv) = Some (kind, name) \<and>
    u = newUPNPNAT (ul_client lib kind rootDev srv) name (rd_URLBase rootDev) \<and> ul_ctx_err lib ctx d0 = None \<and>
    uc_GetNATRSIPStatus (ul_client lib kind rootDev srv) ctx d0 = (Inr (b, True), d1)"
  using assms
proof (induction services arbitrary: d)
  case (Cons srv services)
  show ?case
  proof (cases "ul_ctx_err lib ctx d = None \<and> table (sv_ServiceType srv) \<noteq> None")
    case False
    with Cons.prems have "u \<in> set (fst (offer_services lib ctx table rootDev services d))" by (auto split: if_splits option.splits)
    from Cons.IH [OF this] show ?thesis by (simp only: list.set insert_iff) blast
  next
    case True
    then obtain kind name where t: "ul_ctx_err lib ctx d = None" "table (sv_ServiceType srv) = Some (kind, name)" by auto
    obtain r d1 where r: "uc_GetNATRSIPStatus (ul_client lib kind rootDev srv) ctx d = (r, d1)" by fastforce
    obtain nats d2 where rest: "offer_services lib ctx table rootDev services d1 = (nats, d2)" by fastforce
    show ?thesis
    proof (cases "u \<in> set nats")
      case True
      with rest have "u \<in> set (fst (offer_services lib ctx table rootDev services d1))" by simp
      from Cons.IH [OF this] show ?thesis by (simp only: list.set insert_iff) blast
    next
      case False
      have "fst (offer_services lib ctx table rootDev (srv # services) d) =
          (case r of Inr (x, True) \<Rightarrow> newUPNPNAT (ul_client lib kind rootDev srv) name (rd_URLBase rootDev) # nats | _ \<Rightarrow> nats)"
        using t r rest by (simp split: sum.split bool.split)
      with Cons.prems False obtain b where "r = Inr (b, True)"
        "u = newUPNPNAT (ul_client lib kind rootDev srv) name (rd_URLBase rootDev)"
        by (auto simp del: offer_services.simps split: sum.splits bool.splits)
      with t r show ?thesis
        by (intro exI [of _ srv] exI [of _ kind] exI [of _ name] exI [of _ d] exI [of _ d1] exI [of _ b]) simp
    qed
  qed
qed simp

lemma offer_devices_sound:
  assumes "u \<in> set (offer_devices lib ctx table devs d)"
  shows "\<exists>rootDev srv kind name d0 d1 b. Some rootDev \<in> set devs \<and> srv \<in> set (rd_services rootDev) \<and>
    table (sv_ServiceType srv) = Some (kind, name) \<and>
    u = newUPNPNAT (ul_client lib kind rootDev srv) name (rd_URLBase rootDev) \<and> ul_ctx_err lib ctx d0 = None \<and>
    uc_GetNATRSIPStatus (ul_client lib kind rootDev srv) ctx d0 = (Inr (b, True), d1)"
  using assms
proof (induction devs arbitrary: d)
  case (Cons dev devs)
  show ?case
  proof (cases dev)
    case None
    with Cons.prems have "u \<in> set (offer_devices lib ctx table devs d)" by simp
    from Cons.IH [OF this] show ?thesis by (simp only: list.set insert_iff) blast
  next
    case (Some rootDev)
    obtain nats d1 where o: "offer_services lib ctx table rootDev (rd_services rootDev) d = (nats, d1)" by fastforce
    with Cons.prems Some consider "u \<in> set nats" | "u \<in> set (offer_devices lib ctx table devs d1)" by auto
    then show ?thesis
    proof cases
      case 1
      with o have "u \<in> set (fst (offer_services lib ctx table rootDev (rd_services rootDev) d))" by simp
      from offer_services_sound [OF this] Some show ?thesis by (simp only: list.set insert_iff) blast
    next
      case 2
      from Cons.IH [OF this] show ?thesis by (simp only: list.set insert_iff) blast
    qed
  qed
qed simp

definition listed :: "(string \<times> wan_client \<times> string) list \<Rightarrow> (string \<Rightarrow> (wan_client \<times> string) option) \<Rightarrow> bool" where
  "listed rows table \<longleftrightarrow> distinct (map fst rows) \<and> table = map_of rows"

lemma ig_listed:
  "listed [(''urn:schemas-upnp-org:service:WANIPConnection:1'', IG1_WANIPConnection1, ''UPNP (IG1-IP1)''),
     (''urn:schemas-upnp-org:service:WANPPPConnection:1'', IG1_WANPPPConnection1, ''UPNP (IG1-PPP1)'')] ig1_table"
  "listed [(''urn:schemas-upnp-org:service:WANIPConnection:1'', IG2_WANIPConnection1, ''UPNP (IG2-IP1)''),
     (''urn:schemas-upnp-org:service:WANIPConnection:2'', IG2_WANIPConnection2, ''UPNP (IG2-IP2)''),
     (''urn:schemas-upnp-org:service:WANPPPConnection:1'', IG2_WANPPPConnection1, ''UPNP (IG2-PPP1)'')] ig2_table"
  unfolding listed_def ig1_table_def ig2_table_def URN_WANIPConnection_1_def URN_WANIPConnection_2_def URN_WANPPPConnection_1_def
  by (simp_all add: fun_eq_iff)

lemma rows_at:
  "distinct (map fst rows) \<Longrightarrow>
   concat (map (\<lambda>(urn, kind, name). if t = urn \<and> P kind then [f kind name] else []) rows) =
   (case map_of rows t of Some (kind, name) \<Rightarrow> if P kind then [f kind name] else [] | None \<Rightarrow> [])"
proof (induction rows)
  case (Cons row rows)
  obtain urn kind name where row: "row = (urn, kind, name)" by (cases row) auto
  show ?case
  proof (cases "t = urn")
    case True
    with Cons.prems row have "map_of rows t = None" by (auto simp: map_of_eq_None_iff)
    with Cons row True show ?thesis by simp
  next
    case False
    with Cons row show ?thesis by simp
  qed
qed simp

lemma offered_rows:
  assumes "listed rows table"
  shows "List.map_filter (offered lib usable table dev) services =
    [newUPNPNAT (ul_client lib kind dev srv) name (rd_URLBase dev).
       srv \<leftarrow> services, (urn, kind, name) \<leftarrow> rows, sv_ServiceType srv = urn \<and> usable kind dev srv]"
proof (induction services)
  case (Cons srv services)
  from assms rows_at [of rows "sv_ServiceType srv" "\<lambda>kind. usable kind dev srv"
      "\<lambda>kind name. newUPNPNAT (ul_client lib kind dev srv) name (rd_URLBase dev)"]
  have "concat (map (\<lambda>(urn, kind, name). if sv_ServiceType srv = urn \<and> usable kind dev srv
      then [newUPNPNAT (ul_client lib kind dev srv) name (rd_URLBase dev)] else []) rows) =
      (case offered lib usable table dev srv of Some u \<Rightarrow> [u] | None \<Rightarrow> [])"
    by (auto simp: listed_def offered_def split: option.split)
  with Cons.IH show ?case by (cases "offered lib usable table dev srv") (simp_all add: map_filter_simps)
qed (simp add: map_filter_simps)

lemma concat_present: "concat (map f (List.map_filter id xs)) = concat (map (case_option [] f) xs)"
  by (induction xs) (auto simp: map_filter_simps split: option.split)

lemma devices_rows:
  assumes "listed rows table" and "\<forall>d. ul_ctx_err lib ctx d = None"
    and "\<forall>kind dev srv d. usable kind dev srv =
           (\<exists>b. fst (uc_GetNATRSIPStatus (ul_client lib kind dev srv) ctx d) = Inr (b, True))"
  shows "offer_devices lib ctx table devs d =
    [\<lparr>up_c = ul_client lib kind dev srv, up_typ = name, up_URLBase = rd_URLBase dev, up_ports = Map.empty\<rparr>.
       Some dev \<leftarrow> devs, srv \<leftarrow> rd_services dev, (urn, kind, name) \<leftarrow> rows, sv_ServiceType srv = urn \<and> usable kind dev srv]"
proof -
  have "answers_nat lib ctx usable" using assms(3) by (simp add: answers_nat_def)
  from offer_devices_exact [OF this spec [OF assms(2)]] show ?thesis
    by (simp only: offered_rows [OF assms(1)] newUPNPNAT_def concat_present)
qed

lemma offer_devices_vouched:
  assumes "listed rows table" and "u \<in> set (offer_devices lib ctx table devs d)"
  shows "\<exists>dev srv urn kind name b d0 d1. Some dev \<in> set devs \<and> srv \<in> set (rd_services dev) \<and>
    (urn, kind, name) \<in> set rows \<and> sv_ServiceType srv = urn \<and>
    u = \<lparr>up_c = ul_client lib kind dev srv, up_typ = name, up_URLBase = rd_URLBase dev, up_ports = Map.empty\<rparr> \<and>
    ul_ctx_err lib ctx d0 = None \<and> uc_GetNATRSIPStatus (up_c u) ctx d0 = (Inr (b, True), d1)"
proof -
  from offer_devices_sound [OF assms(2)] obtain dev srv kind name d0 d1 b where
    u: "Some dev \<in> set devs" "srv \<in> set (rd_services dev)" "table (sv_ServiceType srv) = Some (kind, name)"
    "u = newUPNPNAT (ul_client lib kind dev srv) name (rd_URLBase dev)" "ul_ctx_err lib ctx d0 = None"
    "uc_GetNATRSIPStatus (ul_client lib kind dev srv) ctx d0 = (Inr (b, True), d1)" by blast
  from assms(1) u(3) have "(sv_ServiceType srv, kind, name) \<in> set rows" by (auto simp: listed_def dest: map_of_SomeD)
  with u show ?thesis
    by (intro exI [of _ dev] exI [of _ srv] exI [of _ "sv_ServiceType srv"] exI [of _ kind] exI [of _ name]
        exI [of _ b] exI [of _ d0] exI [of _ d1]) (simp add: newUPNPNAT_def)
qed

text \<open>
  C29. The multicast searches for IGD devices offer what they found, and nothing else. The first asks for
  devices of version 1 of the WAN connection device and serves IP and PPP connections of version 1, the
  second asks for version 2 and also serves IP connections of version 2; each type has its own client and
  its own name. Whatever the devices answer and whenever the context ends, every gateway offered belongs
  to such a service of a device found, has the client and the name of its type, an empty cache and the base URL of
  the device, and reported NAT enabled. While the context lasts and the services keep their answers, there
  is one for each such service, in the order of the devices and of their services; devices without a
  description are passed over.
\<close>

theorem multicast_offers_exact:
  fixes lib :: "'d upnp_lib"
  shows "let ig1 = [(''urn:schemas-upnp-org:service:WANIPConnection:1'', IG1_WANIPConnection1, ''UPNP (IG1-IP1)''),
        (''urn:schemas-upnp-org:service:WANPPPConnection:1'', IG1_WANPPPConnection1, ''UPNP (IG1-PPP1)'')];
      ig2 = [(''urn:schemas-upnp-org:service:WANIPConnection:1'', IG2_WANIPConnection1, ''UPNP (IG2-IP1)''),
        (''urn:schemas-upnp-org:service:WANIPConnection:2'', IG2_WANIPConnection2, ''UPNP (IG2-IP2)''),
        (''urn:schemas-upnp-org:service:WANPPPConnection:1'', IG2_WANPPPConnection1, ''UPNP (IG2-PPP1)'')];
      found = (\<lambda>urn. case fst (ul_DiscoverDevices lib ctx urn d) of Inl e \<Rightarrow> [] | Inr devs \<Rightarrow> devs);
      devs1 = found ''urn:schemas-upnp-org:device:WANConnectionDevice:1'';
      devs2 = found ''urn:schemas-upnp-org:device:WANConnectionDevice:2'';
      gateway = (\<lambda>dev srv kind name. \<lparr>up_c = ul_client lib kind dev srv, up_typ = name, up_URLBase = rd_URLBase dev,
        up_ports = Map.empty\<rparr>);
      vouched = (\<lambda>rows devs u. \<exists>dev srv urn kind name b d0 d1. Some dev \<in> set devs \<and> srv \<in> set (rd_services dev) \<and>
        (urn, kind, name) \<in> set rows \<and> sv_ServiceType srv = urn \<and> u = gateway dev srv kind name \<and>
        ul_ctx_err lib ctx d0 = None \<and> uc_GetNATRSIPStatus (up_c u) ctx d0 = (Inr (b, True), d1))
    in (\<forall>u \<in> set (discoverUPNP_IG1 lib ctx d). vouched ig1 devs1 u) \<and>
       (\<forall>u \<in> set (discoverUPNP_IG2 lib ctx d). vouched ig2 devs2 u) \<and>
       (\<forall>usable :: wan_client \<Rightarrow> root_device \<Rightarrow> service \<Rightarrow> bool.
          (\<forall>d. ul_ctx_err lib ctx d = None) \<longrightarrow>
          (\<forall>kind dev srv d. usable kind dev srv =
             (\<exists>b. fst (uc_GetNATRSIPStatus (ul_client lib kind dev srv) ctx d) = Inr (b, True))) \<longrightarrow>
          discoverUPNP_IG1 lib ctx d =
            [gateway dev srv kind name. Some dev \<leftarrow> devs1, srv \<leftarrow> rd_services dev, (urn, kind, name) \<leftarrow> ig1,
               sv_ServiceType srv = urn \<and> usable kind dev srv] \<and>
          discoverUPNP_IG2 lib ctx d =
            [gateway dev srv kind name. Some dev \<leftarrow> devs2, srv \<leftarrow> rd_services dev, (urn, kind, name) \<leftarrow> ig2,
               sv_ServiceType srv = urn \<and> usable kind dev srv])"
proof -
  have IG1: "\<exists>d'. discoverUPNP_IG1 lib ctx d = offer_devices lib ctx ig1_table
      (case fst (ul_DiscoverDevices lib ctx ''urn:schemas-upnp-org:device:WANConnectionDevice:1'' d) of
         Inl e \<Rightarrow> [] | Inr devs \<Rightarrow> devs) d'"
    and IG2: "\<exists>d'. discoverUPNP_IG2 lib ctx d = offer_devices lib ctx ig2_table
      (case fst (ul_DiscoverDevices lib ctx ''urn:schemas-upnp-org:device:WANConnectionDevice:2'' d) of
         Inl e \<Rightarrow> [] | Inr devs \<Rightarrow> devs) d'"
    by (auto simp: discoverUPNP_IG1_def discoverUPNP_IG2_def URN_WANConnectionDevice_1_def URN_WANConnectionDevice_2_def
        split: prod.splits sum.splits)
  obtain e1 where e1: "discoverUPNP_IG1 lib ctx d = offer_devices lib ctx ig1_table
      (case fst (ul_DiscoverDevices lib ctx ''urn:schemas-upnp-org:device:WANConnectionDevice:1'' d) of
         Inl e \<Rightarrow> [] | Inr devs \<Rightarrow> devs) e1" using IG1 by blast
  obtain e2 where e2: "discoverUPNP_IG2 lib ctx d = offer_devices lib ctx ig2_table
      (case fst (ul_DiscoverDevices lib ctx ''urn:schemas-upnp-org:device:WANConnectionDevice:2'' d) of
         Inl e \<Rightarrow> [] | Inr devs \<Rightarrow> devs) e2" using IG2 by blast
  show ?thesis unfolding Let_def e1 e2
    by (intro conjI ballI allI impI;
      (erule offer_devices_vouched [OF ig_listed(1)] offer_devices_vouched [OF ig_listed(2)] |
       erule (1) devices_rows [OF ig_listed(1)] devices_rows [OF ig_listed(2)]))
qed

text \<open>A router that describes a PPP service, which reports NAT disabled, and two IP services.\<close>

definition router_lib :: "url \<Rightarrow> unit upnp_lib" where
  "router_lib base = rogue_lib\<lparr>ul_DiscoverDevices := (\<lambda>ctx urn d. (Inr [None, Some \<lparr>rd_URLBase = base,
       rd_services = [\<lparr>sv_ServiceType = URN_WANPPPConnection_1, sv_id = 0\<rparr>,
         \<lparr>sv_ServiceType = URN_WANIPConnection_2, sv_id = 1\<rparr>, \<lparr>sv_ServiceType = URN_WANIPConnection_1, sv_id = 2\<rparr>]\<rparr>], d)),
     ul_client := (\<lambda>kind rootDev srv. (ul_client rogue_lib kind rootDev srv)
       \<lparr>uc_GetNATRSIPStatus := (\<lambda>ctx d. (Inr (False, sv_id srv \<noteq> 0), d))\<rparr>)\<rparr>"

theorem multicast_offers_exact_witness:
  "map up_typ (discoverUPNP_IG1 (router_lib zero_url) Caller ()) = [''UPNP (IG1-IP1)''] \<and>
   map up_typ (discoverUPNP_IG2 (router_lib zero_url) Caller ()) = [''UPNP (IG2-IP2)'', ''UPNP (IG2-IP1)'']"
proof -
  let ?lib = "router_lib zero_url"
  have live: "\<forall>d. ul_ctx_err ?lib Caller d = None" by (simp add: router_lib_def rogue_lib_def)
  have answers: "\<forall>kind dev srv d. (sv_id srv \<noteq> 0) =
      (\<exists>b. fst (uc_GetNATRSIPStatus (ul_client ?lib kind dev srv) Caller d) = Inr (b, True))"
    by (auto simp: router_lib_def)
  have found: "ul_DiscoverDevices ?lib Caller urn () = (Inr [None, Some \<lparr>rd_URLBase = zero_url,
      rd_services = [\<lparr>sv_ServiceType = URN_WANPPPConnection_1, sv_id = 0\<rparr>,
        \<lparr>sv_ServiceType = URN_WANIPConnection_2, sv_id = 1\<rparr>, \<lparr>sv_ServiceType = URN_WANIPConnection_1, sv_id = 2\<rparr>]\<rparr>], ())" for urn
    by (simp add: router_lib_def)
  note exact = multicast_offers_exact [of ?lib Caller "()", unfolded Let_def found, THEN conjunct2, THEN conjunct2,
      rule_format, of "\<lambda>kind dev srv. sv_id srv \<noteq> 0", OF live [rule_format] answers [rule_format]]
  show ?thesis
    unfolding conjunct1 [OF exact] conjunct2 [OF exact]
    by (simp add: URN_WANPPPConnection_1_def URN_WANIPConnection_1_def URN_WANIPConnection_2_def)
qed

section \<open>The gateway objects\<close>

text \<open>The names under which a UPnP gateway is found.\<close>

definition gateway_names :: "string set" where
  "gateway_names = {''UPNP (IG1-IP1)'', ''UPNP (IG1-PPP1)'', ''UPNP (IG2-IP1)'', ''UPNP (IG2-IP2)'', ''UPNP (IG2-PPP1)''} \<union>
     (\<lambda>(m, s). ''UPnP '' @ discovery_name m @ '' ('' @ s @ '')'') ` (UNIV \<times> {''IP1'', ''IP2'', ''PPP1''})"

definition new_gateway :: "'d upnp_NAT \<Rightarrow> bool" where
  "new_gateway u \<longleftrightarrow> (\<exists>c base. \<exists>typ \<in> gateway_names. u = newUPNPNAT c typ base)"

lemma natFromUPNPService_new:
  "natFromUPNPService lib ctx rootDev srv m d = (Inr u, d') \<Longrightarrow> new_gateway u"
  by (auto simp: natFromUPNPService_def wan_service_def new_gateway_def gateway_names_def Let_def
      split: option.splits sum.splits prod.splits if_splits)

lemma first_usable_new:
  "first_usable lib ctx rootDev m services d = (Some u, d') \<Longrightarrow> new_gateway u"
  by (induction services arbitrary: d) (auto split: sum.splits prod.splits dest: natFromUPNPService_new)

lemma natFromUPNPLocation_new:
  "natFromUPNPLocation lib ctx location m d = (Inr u, d') \<Longrightarrow> new_gateway u"
  by (auto simp: natFromUPNPLocation_def Let_def split: option.splits sum.splits prod.splits dest: first_usable_new)

lemma first_igd_new: "u \<in> set (fst (first_igd lib ctx devs d)) \<Longrightarrow> new_gateway u"
  by (induction lib ctx devs d rule: first_igd.induct)
    (auto split: sum.splits prod.splits if_splits dest: natFromUPNPLocation_new)

lemma table_names:
  "\<forall>t k n. ig1_table t = Some (k, n) \<longrightarrow> n \<in> gateway_names" "\<forall>t k n. ig2_table t = Some (k, n) \<longrightarrow> n \<in> gateway_names"
  by (auto simp: ig1_table_def ig2_table_def gateway_names_def split: if_splits)

lemma offer_devices_new:
  assumes "\<forall>t k n. table t = Some (k, n) \<longrightarrow> n \<in> gateway_names" and "u \<in> set (offer_devices lib ctx table devs d)"
  shows "new_gateway u"
  using offer_devices_sound [OF assms(2)] assms(1) unfolding new_gateway_def by blast

lemma discovered_new:
  "u \<in> set (discoverUPNP_IG1 lib ctx d) \<Longrightarrow> new_gateway u"
  "u \<in> set (discoverUPNP_IG2 lib ctx d) \<Longrightarrow> new_gateway u"
  "u \<in> set (discoverUPNP_GenIGDev lib ctx d) \<Longrightarrow> new_gateway u"
  "discoverUPNP_Unicast lib goos newRouter ctx d = Some us \<Longrightarrow> u \<in> set us \<Longrightarrow> new_gateway u"
proof -
  show "u \<in> set (discoverUPNP_IG1 lib ctx d) \<Longrightarrow> new_gateway u" "u \<in> set (discoverUPNP_IG2 lib ctx d) \<Longrightarrow> new_gateway u"
    by (auto simp: discoverUPNP_IG1_def discoverUPNP_IG2_def split: sum.splits prod.splits
        intro: offer_devices_new [OF table_names(1)] offer_devices_new [OF table_names(2)])
  show "u \<in> set (discoverUPNP_GenIGDev lib ctx d) \<Longrightarrow> new_gateway u"
    by (auto simp: discoverUPNP_GenIGDev_def split: sum.splits prod.splits intro: first_igd_new)
  have "new_gateway g" if "discoverUPNPUnicast lib ctx gw d = (Inr g, x)" for g gw x
  proof -
    from that obtain d1 where "try_targets lib ctx gw {} upnpUnicastSearchTargets d1 = (Inr g, x)"
      by (auto simp: discoverUPNPUnicast_def split: sum.splits prod.splits)
    moreover obtain searched fetched d2 where "x = (searched, fetched, d2)" by (cases x) auto
    ultimately show ?thesis using try_targets_result natFromUPNPLocation_new by metis
  qed
  then show "discoverUPNP_Unicast lib goos newRouter ctx d = Some us \<Longrightarrow> u \<in> set us \<Longrightarrow> new_gateway u"
    by (auto simp: discoverUPNP_Unicast_def discoverUPNPUnicastWithAddr_def prod_eq_iff split: sum.splits option.splits)
qed

end
