(* ===== verification/Go_Chan.thy ===== *)
theory Go_Chan
  imports Prelude
begin

text \<open>
  Go channels seen from a receiver: what \<open>nat.go\<close> uses of them.
\<close>

section \<open>Channels\<close>

text \<open>
  A channel seen from the receiver: the values a receive would get now, in order, and whether it is
  closed behind them. For a buffered channel these are its buffer, for an unbuffered one the values of
  the senders that wait on it, in the order of the queue they wait in.
\<close>

datatype 'a chan = Chan (ready: "'a list") (closed: bool)

definition receive :: "'a chan \<Rightarrow> ('a option \<times> 'a chan) option" where
  "receive ch =
     (case ready ch of
        v # vs \<Rightarrow> Some (Some v, Chan vs (closed ch))
      | [] \<Rightarrow> if closed ch then Some (None, ch) else None)"

definition blocked :: "'a chan option \<Rightarrow> bool" where
  "blocked c \<longleftrightarrow> (case c of None \<Rightarrow> True | Some ch \<Rightarrow> receive ch = None)"

lemma receive_simps [simp]:
  "receive (Chan (v # vs) b) = Some (Some v, Chan vs b)"
  "receive (Chan [] True) = Some (None, Chan [] True)" "receive (Chan [] False) = None"
  by (simp_all add: receive_def)

lemma receive_cases:
  "receive ch = Some (v, ch') \<longleftrightarrow>
     (\<exists>w vs. ready ch = w # vs \<and> v = Some w \<and> ch' = Chan vs (closed ch)) \<or>
     ready ch = [] \<and> closed ch \<and> v = None \<and> ch' = ch"
  by (auto simp: receive_def split: list.splits)

lemma receive_None_iff: "receive ch = None \<longleftrightarrow> ready ch = [] \<and> \<not> closed ch"
  by (auto simp: receive_def split: list.splits)

end
