(* ===== verification/Gateway_Select.thy ===== *)
theory Gateway_Select
  imports Dual_Stack Upnp_Discovery Go_Chan
begin

text \<open>
  Discovery in \<open>nat.go\<close> and \<open>pcp.go\<close>: \<open>selectGateway\<close> as a state machine against the goroutines
  that publish results, the merging of channels, and the sources themselves.
\<close>

section \<open>Sources of PCP gateways\<close>

text \<open>A goroutine that publishes at most one value on a buffered channel: the values it publishes.\<close>

definition pcpProbeTimeout :: duration where
  "pcpProbeTimeout = 2 * second"

definition published :: "'a or_err \<Rightarrow> 'a list" where
  "published r = (case r of Inl err \<Rightarrow> [] | Inr gateway \<Rightarrow> [gateway])"

definition nat_discoverPCP ::
  "string \<Rightarrow> router or_err \<Rightarrow> (ctx \<Rightarrow> ctx_err option) \<Rightarrow> net_env \<Rightarrow> net_env \<Rightarrow> ctx \<Rightarrow> pcp_nat list" where
  "nat_discoverPCP goos newRouter ctx_err net4 net6 ctx =
     published (fst (DiscoverPCP goos newRouter ctx_err net4 net6 (WithTimeout ctx pcpProbeTimeout)))"

definition discoverPCPv4 ::
  "string \<Rightarrow> router or_err \<Rightarrow> (ctx \<Rightarrow> ctx_err option) \<Rightarrow> net_env \<Rightarrow> ctx \<Rightarrow> pcp_nat list" where
  "discoverPCPv4 goos newRouter ctx_err net4 ctx =
     published (fst (DiscoverPCPIPv4 goos newRouter ctx_err net4 (WithTimeout ctx pcpProbeTimeout)))"

definition discoverPCPv6 ::
  "string \<Rightarrow> router or_err \<Rightarrow> (ctx \<Rightarrow> ctx_err option) \<Rightarrow> net_env \<Rightarrow> ctx \<Rightarrow> client list" where
  "discoverPCPv6 goos newRouter ctx_err net6 ctx =
     published (fst (DiscoverPCPIPv6 goos newRouter ctx_err net6 (WithTimeout ctx pcpProbeTimeout)))"

section \<open>The selection\<close>

record ('n, 'p) gatewaySelection =
  gs_pcp4 :: "'n option"
  gs_pcp6 :: "'p option"
  gs_fallback :: "'n option"

definition no_selection :: "('n, 'p) gatewaySelection" where
  "no_selection = \<lparr>gs_pcp4 = None, gs_pcp6 = None, gs_fallback = None\<rparr>"

text \<open>A received value with its \<open>ok\<close>: \<open>None\<close> says that the channel is closed.\<close>

definition keepPCPv4 :: "'n option \<Rightarrow> ('n, 'p) gatewaySelection \<Rightarrow> ('n, 'p) gatewaySelection" where
  "keepPCPv4 v s = (case v of Some gateway \<Rightarrow> s\<lparr>gs_pcp4 := Some gateway\<rparr> | None \<Rightarrow> s)"

definition keepPCPv6 :: "'p option \<Rightarrow> ('n, 'p) gatewaySelection \<Rightarrow> ('n, 'p) gatewaySelection" where
  "keepPCPv6 v s = (case v of Some client \<Rightarrow> s\<lparr>gs_pcp6 := Some client\<rparr> | None \<Rightarrow> s)"

definition keepFallback :: "'n option \<Rightarrow> ('n, 'p) gatewaySelection \<Rightarrow> ('n, 'p) gatewaySelection" where
  "keepFallback v s =
     (case v of
        Some gateway \<Rightarrow> if gs_fallback s = None then s\<lparr>gs_fallback := Some gateway\<rparr> else s
      | None \<Rightarrow> s)"

text \<open>The result: a NAT alone, or wrapped for pinholes.\<close>

datatype ('n, 'p) selected = Plain 'n | DualStack "('n, 'p) natWithPCPIPv6"

definition gs_gateway :: "('n, 'p) gatewaySelection \<Rightarrow> ('n, 'p) selected or_err" where
  "gs_gateway s =
     (let gateway = (case gs_pcp4 s of Some g \<Rightarrow> Some g | None \<Rightarrow> gs_fallback s)
      in case gateway of
           None \<Rightarrow> Inl nat_ErrNoNATFound
         | Some gateway \<Rightarrow>
             (case gs_pcp6 s of
                Some pcp6 \<Rightarrow> Inr (DualStack (newNATWithPCPIPv6 gateway pcp6))
              | None \<Rightarrow> Inr (Plain gateway)))"

section \<open>The state machine of selectGateway\<close>

text \<open>
  The state of the call: the channels (\<open>None\<close> for nil), what was found, whether the context is done and
  whether the inner loop, which drains the channels after it, has been entered. The \<open>pub\<close> fields are
  histories: the values published on a channel while it was not nil, as the \<open>end\<close> fields are of its
  closing, and \<open>sl_withdrawn\<close> of an offer to the fallback channel that was withdrawn.
\<close>

record ('n, 'p) sel =
  sl_pcp4s :: "'n chan option"
  sl_pcp6s :: "'p chan option"
  sl_fallbacks :: "'n chan option"
  sl_found :: "('n, 'p) gatewaySelection"
  sl_expired :: bool
  sl_draining :: bool
  sl_pub4 :: "'n list"
  sl_pub6 :: "'p list"
  sl_pubF :: "'n list"
  sl_end4 :: bool
  sl_end6 :: bool
  sl_endF :: bool
  sl_withdrawn :: bool

definition settled :: "('n, 'p) sel \<Rightarrow> bool" where
  "settled s \<longleftrightarrow> sl_pcp4s s = None \<and> sl_pcp6s s = None \<and>
     (gs_pcp4 (sl_found s) \<noteq> None \<or> gs_fallback (sl_found s) \<noteq> None \<or> sl_fallbacks s = None)"

definition all_nil :: "('n, 'p) sel \<Rightarrow> bool" where
  "all_nil s \<longleftrightarrow> sl_pcp4s s = None \<and> sl_pcp6s s = None \<and> sl_fallbacks s = None"

definition finished :: "('n, 'p) sel \<Rightarrow> bool" where
  "finished s \<longleftrightarrow> (if sl_draining s then all_nil s else settled s)"

inductive select_step :: "('n, 'p) sel \<Rightarrow> ('n, 'p) sel \<Rightarrow> bool" where
  Recv4: "\<not> finished s \<Longrightarrow> sl_pcp4s s = Some ch \<Longrightarrow> receive ch = Some (v, ch') \<Longrightarrow>
    select_step s (s\<lparr>sl_pcp4s := None, sl_found := keepPCPv4 v (sl_found s)\<rparr>)"
| Recv6: "\<not> finished s \<Longrightarrow> sl_pcp6s s = Some ch \<Longrightarrow> receive ch = Some (v, ch') \<Longrightarrow>
    select_step s (s\<lparr>sl_pcp6s := None, sl_found := keepPCPv6 v (sl_found s)\<rparr>)"
| RecvF: "\<not> finished s \<Longrightarrow> sl_fallbacks s = Some ch \<Longrightarrow> receive ch = Some (v, ch') \<Longrightarrow>
    select_step s (s\<lparr>sl_fallbacks := (if v = None then None else Some ch'),
      sl_found := keepFallback v (sl_found s)\<rparr>)"
| Done: "\<not> finished s \<Longrightarrow> \<not> sl_draining s \<Longrightarrow> sl_expired s \<Longrightarrow> select_step s (s\<lparr>sl_draining := True\<rparr>)"
| Default: "\<not> finished s \<Longrightarrow> sl_draining s \<Longrightarrow>
    blocked (sl_pcp4s s) \<Longrightarrow> blocked (sl_pcp6s s) \<Longrightarrow> blocked (sl_fallbacks s) \<Longrightarrow>
    select_step s (s\<lparr>sl_pcp4s := None, sl_pcp6s := None, sl_fallbacks := None\<rparr>)"

text \<open>
  The outside: goroutines publish and close, the context ends, and a goroutine of \<open>mergeNATs\<close> that
  offers a value withdraws it when the context is done.
\<close>

inductive outside_step :: "('n, 'p) sel \<Rightarrow> ('n, 'p) sel \<Rightarrow> bool" where
  Publish4: "sl_pcp4s s = Some (Chan vs False) \<Longrightarrow>
    outside_step s (s\<lparr>sl_pcp4s := Some (Chan (vs @ [v]) False), sl_pub4 := sl_pub4 s @ [v]\<rparr>)"
| Close4: "sl_pcp4s s = Some (Chan vs False) \<Longrightarrow>
    outside_step s (s\<lparr>sl_pcp4s := Some (Chan vs True), sl_end4 := True\<rparr>)"
| Publish6: "sl_pcp6s s = Some (Chan us False) \<Longrightarrow>
    outside_step s (s\<lparr>sl_pcp6s := Some (Chan (us @ [u]) False), sl_pub6 := sl_pub6 s @ [u]\<rparr>)"
| Close6: "sl_pcp6s s = Some (Chan us False) \<Longrightarrow>
    outside_step s (s\<lparr>sl_pcp6s := Some (Chan us True), sl_end6 := True\<rparr>)"
| PublishF: "sl_fallbacks s = Some (Chan vs False) \<Longrightarrow>
    outside_step s (s\<lparr>sl_fallbacks := Some (Chan (vs @ [v]) False), sl_pubF := sl_pubF s @ [v]\<rparr>)"
| CloseF: "sl_fallbacks s = Some (Chan vs False) \<Longrightarrow>
    outside_step s (s\<lparr>sl_fallbacks := Some (Chan vs True), sl_endF := True\<rparr>)"
| WithdrawF: "sl_fallbacks s = Some (Chan (us @ v # vs) False) \<Longrightarrow> sl_expired s \<Longrightarrow>
    outside_step s (s\<lparr>sl_fallbacks := Some (Chan (us @ vs) False), sl_withdrawn := True\<rparr>)"
| Expire: "outside_step s (s\<lparr>sl_expired := True\<rparr>)"

definition select_start :: "bool \<Rightarrow> ('n, 'p) sel" where
  "select_start expired =
     \<lparr>sl_pcp4s = Some (Chan [] False), sl_pcp6s = Some (Chan [] False), sl_fallbacks = Some (Chan [] False),
      sl_found = no_selection, sl_expired = expired, sl_draining = False,
      sl_pub4 = [], sl_pub6 = [], sl_pubF = [],
      sl_end4 = False, sl_end6 = False, sl_endF = False, sl_withdrawn = False\<rparr>"

inductive select_run :: "('n, 'p) sel \<Rightarrow> bool" where
  Start: "select_run (select_start expired)"
| Select: "select_run s \<Longrightarrow> select_step s s' \<Longrightarrow> select_run s'"
| Outside: "select_run s \<Longrightarrow> outside_step s s' \<Longrightarrow> select_run s'"

text \<open>What the call returns in a finished state; \<open>e\<close> is the error of the context when it is done.\<close>

definition select_result :: "ctx_err \<Rightarrow> ('n, 'p) sel \<Rightarrow> ('n, 'p) selected or_err" where
  "select_result e s =
     (case gs_gateway (sl_found s) of
        Inl err \<Rightarrow> if sl_expired s then Inl (Errorf ''%w: %w'' [AErr err, AErr (CtxErr e)]) else Inl err
      | Inr gateway \<Rightarrow> Inr gateway)"

section \<open>The call returns\<close>

definition chan_size :: "'a chan option \<Rightarrow> nat" where
  "chan_size c = (case c of None \<Rightarrow> 0 | Some ch \<Rightarrow> Suc (length (ready ch)))"

definition select_size :: "('n, 'p) sel \<Rightarrow> nat" where
  "select_size s = chan_size (sl_pcp4s s) + chan_size (sl_pcp6s s) + chan_size (sl_fallbacks s) +
     (if sl_draining s then 0 else 1)"

lemma select_step_size: "select_step s s' \<Longrightarrow> select_size s' < select_size s"
proof (induction rule: select_step.induct)
  case (RecvF s ch v ch')
  then show ?case by (auto simp: select_size_def chan_size_def receive_cases)
next
  case (Default s)
  then show ?case
    by (auto simp: select_size_def chan_size_def finished_def all_nil_def split: option.splits)
qed (auto simp: select_size_def chan_size_def)

lemma select_progress:
  assumes "sl_expired s" and "\<not> finished s"
  shows "\<exists>s'. select_step s s'"
proof (cases "sl_draining s \<and> blocked (sl_pcp4s s) \<and> blocked (sl_pcp6s s) \<and> blocked (sl_fallbacks s)")
  case True
  with assms(2) show ?thesis by (blast intro: select_step.Default)
next
  case False
  then consider "\<not> sl_draining s" | "\<not> blocked (sl_pcp4s s)" | "\<not> blocked (sl_pcp6s s)" | "\<not> blocked (sl_fallbacks s)"
    by blast
  then show ?thesis
  proof cases
    case 1
    with assms show ?thesis by (blast intro: select_step.Done)
  next
    case 2
    then obtain ch v ch' where "sl_pcp4s s = Some ch" "receive ch = Some (v, ch')"
      by (auto simp: blocked_def split: option.splits)
    with assms(2) show ?thesis by (blast intro: select_step.Recv4)
  next
    case 3
    then obtain ch v ch' where "sl_pcp6s s = Some ch" "receive ch = Some (v, ch')"
      by (auto simp: blocked_def split: option.splits)
    with assms(2) show ?thesis by (blast intro: select_step.Recv6)
  next
    case 4
    then obtain ch v ch' where "sl_fallbacks s = Some ch" "receive ch = Some (v, ch')"
      by (auto simp: blocked_def split: option.splits)
    with assms(2) show ?thesis by (blast intro: select_step.RecvF)
  qed
qed

lemma select_step_expired: "select_step s s' \<Longrightarrow> sl_expired s' = sl_expired s"
  by (induction rule: select_step.induct) auto

text \<open>
  \<open>selectGateway\<close> returns once its context is done, whatever its sources do: from every state with a
  done context it can reach its return by its own steps alone, it is never stuck before that, and it can
  make at most as many steps as there are values ready, channels open and one more.
\<close>

theorem select_returns:
  assumes "sl_expired s"
  shows "(\<exists>s'. select_step\<^sup>*\<^sup>* s s' \<and> finished s') \<and>
    (\<forall>k s'. (select_step ^^ k) s s' \<longrightarrow> k \<le> select_size s \<and> (finished s' \<or> (\<exists>s''. select_step s' s'')))"
proof -
  have down: "sl_expired s' \<and> select_size s' < select_size s" if "sl_expired s" "select_step s s'" for s s' :: "('a, 'b) sel"
    using that select_step_size select_step_expired by metis
  note ends = runs_to_end [of sl_expired select_step select_size finished, OF down select_progress assms]
  from ends show ?thesis by blast
qed

theorem select_returns_witness:
  "\<exists>s'. select_step\<^sup>*\<^sup>* (select_start True :: (nat, nat) sel) s' \<and> finished s'"
  using select_returns [of "select_start True :: (nat, nat) sel"] by (simp add: select_start_def)

section \<open>What the call returns\<close>

definition first :: "'a list \<Rightarrow> 'a option" where
  "first xs = (case xs of [] \<Rightarrow> None | x # _ \<Rightarrow> Some x)"

lemma first_simps [simp]: "first [] = None" "first (x # xs) = Some x"
  "first (xs @ ys) = (case first xs of None \<Rightarrow> first ys | Some x \<Rightarrow> Some x)"
  by (simp_all add: first_def split: list.split)

lemma first_None_iff: "first xs = None \<longleftrightarrow> xs = []" "None = first xs \<longleftrightarrow> xs = []"
  by (cases xs; simp)+

text \<open>
  A probe channel against its history: while it is not nil nothing was taken from it and it is closed
  when the history says so; once it is nil, what was kept is the first value published, and without the
  drain something was published or the channel was closed.
\<close>

definition probe_inv :: "'a chan option \<Rightarrow> 'a option \<Rightarrow> 'a list \<Rightarrow> bool \<Rightarrow> bool \<Rightarrow> bool" where
  "probe_inv c kept pub ended draining \<longleftrightarrow>
     (case c of
        Some ch \<Rightarrow> ready ch = pub \<and> closed ch = ended \<and> kept = None
      | None \<Rightarrow> kept = first pub \<and> (draining \<or> pub \<noteq> [] \<or> ended))"

text \<open>The fallback channel is read until a value was kept and the probes are done.\<close>

definition fallback_inv :: "'a chan option \<Rightarrow> 'a option \<Rightarrow> 'a list \<Rightarrow> bool \<Rightarrow> bool \<Rightarrow> bool \<Rightarrow> bool" where
  "fallback_inv c kept pub ended withdrawn draining \<longleftrightarrow>
     (case c of
        Some ch \<Rightarrow> closed ch = ended \<and> set (ready ch) \<subseteq> set pub \<and>
          (\<not> withdrawn \<longrightarrow> (\<exists>taken. pub = taken @ ready ch \<and> kept = first taken))
      | None \<Rightarrow> (\<not> withdrawn \<longrightarrow> kept = first pub) \<and> (draining \<or> ended)) \<and>
     set_option kept \<subseteq> set pub"

definition select_inv :: "('n, 'p) sel \<Rightarrow> bool" where
  "select_inv s \<longleftrightarrow>
     probe_inv (sl_pcp4s s) (gs_pcp4 (sl_found s)) (sl_pub4 s) (sl_end4 s) (sl_draining s) \<and>
     probe_inv (sl_pcp6s s) (gs_pcp6 (sl_found s)) (sl_pub6 s) (sl_end6 s) (sl_draining s) \<and>
     fallback_inv (sl_fallbacks s) (gs_fallback (sl_found s)) (sl_pubF s) (sl_endF s) (sl_withdrawn s) (sl_draining s) \<and>
     (sl_draining s \<longrightarrow> sl_expired s) \<and> (sl_withdrawn s \<longrightarrow> sl_expired s)"

lemma keep_fields [simp]:
  "gs_pcp4 (keepPCPv4 v f) = (case v of Some g \<Rightarrow> Some g | None \<Rightarrow> gs_pcp4 f)"
  "gs_pcp6 (keepPCPv4 v f) = gs_pcp6 f" "gs_fallback (keepPCPv4 v f) = gs_fallback f"
  "gs_pcp6 (keepPCPv6 u f) = (case u of Some g \<Rightarrow> Some g | None \<Rightarrow> gs_pcp6 f)"
  "gs_pcp4 (keepPCPv6 u f) = gs_pcp4 f" "gs_fallback (keepPCPv6 u f) = gs_fallback f"
  "gs_fallback (keepFallback v f) = (case gs_fallback f of Some g \<Rightarrow> Some g | None \<Rightarrow> v)"
  "gs_pcp4 (keepFallback v f) = gs_pcp4 f" "gs_pcp6 (keepFallback v f) = gs_pcp6 f"
  by (simp_all add: keepPCPv4_def keepPCPv6_def keepFallback_def split: option.split)

lemma probe_receive:
  assumes "probe_inv (Some ch) kept pub ended draining" and "receive ch = Some (v, ch')"
  shows "probe_inv None (case v of Some g \<Rightarrow> Some g | None \<Rightarrow> kept) pub ended draining"
  using assms by (auto simp: probe_inv_def receive_cases)

lemma probe_publish:
  "probe_inv (Some (Chan vs False)) kept pub ended draining \<Longrightarrow>
   probe_inv (Some (Chan (vs @ [v]) False)) kept (pub @ [v]) ended draining"
  by (auto simp: probe_inv_def)

lemma probe_close:
  "probe_inv (Some (Chan vs False)) kept pub ended draining \<Longrightarrow>
   probe_inv (Some (Chan vs True)) kept pub True draining"
  by (auto simp: probe_inv_def)

lemma probe_drain: "probe_inv c kept pub ended draining \<Longrightarrow> probe_inv c kept pub ended True"
  by (auto simp: probe_inv_def split: option.splits)

lemma probe_abandon: "probe_inv c kept pub ended True \<Longrightarrow> blocked c \<Longrightarrow> probe_inv None kept pub ended True"
  by (auto simp: probe_inv_def blocked_def receive_None_iff split: option.splits)

lemmas probe_rules = probe_receive probe_publish probe_close probe_drain probe_abandon

lemma fallback_receive:
  assumes "fallback_inv (Some ch) kept pub ended withdrawn draining" and "receive ch = Some (v, ch')"
  shows "fallback_inv (if v = None then None else Some ch') (case kept of Some g \<Rightarrow> Some g | None \<Rightarrow> v)
           pub ended withdrawn draining"
  using assms(2) unfolding receive_cases
proof (elim disjE exE conjE)
  fix w vs
  assume r: "ready ch = w # vs" "v = Some w" "ch' = Chan vs (closed ch)"
  have "\<exists>taken. pub = taken @ vs \<and> (case kept of Some g \<Rightarrow> Some g | None \<Rightarrow> v) = first taken" if "\<not> withdrawn"
  proof -
    from that assms(1) r obtain taken where "pub = taken @ w # vs" "kept = first taken"
      by (auto simp: fallback_inv_def)
    with r show ?thesis by (intro exI [of _ "taken @ [w]"]) (simp split: option.split)
  qed
  with assms(1) r show ?thesis by (auto simp: fallback_inv_def split: option.splits)
next
  assume "ready ch = []" "closed ch" "v = None" "ch' = ch"
  with assms(1) show ?thesis by (auto simp: fallback_inv_def split: option.splits)
qed

lemma fallback_publish:
  assumes "fallback_inv (Some (Chan vs False)) kept pub ended withdrawn draining"
  shows "fallback_inv (Some (Chan (vs @ [v]) False)) kept (pub @ [v]) ended withdrawn draining"
proof -
  have "\<exists>taken. pub @ [v] = taken @ vs @ [v] \<and> kept = first taken" if "\<not> withdrawn"
    using that assms by (auto simp: fallback_inv_def)
  with assms show ?thesis by (auto simp: fallback_inv_def)
qed

lemma fallback_close:
  "fallback_inv (Some (Chan vs False)) kept pub ended withdrawn draining \<Longrightarrow>
   fallback_inv (Some (Chan vs True)) kept pub True withdrawn draining"
  by (auto simp: fallback_inv_def)

lemma fallback_withdraw:
  "fallback_inv (Some (Chan (us @ v # vs) False)) kept pub ended withdrawn draining \<Longrightarrow>
   fallback_inv (Some (Chan (us @ vs) False)) kept pub ended True draining"
  by (auto simp: fallback_inv_def)

lemma fallback_drain:
  "fallback_inv c kept pub ended withdrawn draining \<Longrightarrow> fallback_inv c kept pub ended withdrawn True"
  by (auto simp: fallback_inv_def split: option.splits)

lemma fallback_abandon:
  "fallback_inv c kept pub ended withdrawn True \<Longrightarrow> blocked c \<Longrightarrow> fallback_inv None kept pub ended withdrawn True"
  by (auto simp: fallback_inv_def blocked_def receive_None_iff split: option.splits)

lemmas fallback_rules = fallback_receive fallback_publish fallback_close fallback_withdraw fallback_drain
  fallback_abandon

lemma select_inv_step: "select_step s s' \<Longrightarrow> select_inv s \<Longrightarrow> select_inv s'"
proof (induction rule: select_step.induct)
  case (Recv4 s ch v ch')
  then show ?case by (auto simp: select_inv_def intro: probe_receive)
next
  case (Recv6 s ch v ch')
  then show ?case by (auto simp: select_inv_def intro: probe_receive)
next
  case (RecvF s ch v ch')
  have "fallback_inv (if v = None then None else Some ch')
      (case gs_fallback (sl_found s) of Some g \<Rightarrow> Some g | None \<Rightarrow> v) (sl_pubF s) (sl_endF s) (sl_withdrawn s) (sl_draining s)"
    by (rule fallback_receive [OF _ RecvF.hyps(3)]) (use RecvF in \<open>simp add: select_inv_def\<close>)
  with RecvF.prems show ?case by (simp add: select_inv_def)
next
  case (Done s)
  then show ?case by (auto simp: select_inv_def intro: probe_drain fallback_drain)
next
  case (Default s)
  then show ?case by (auto simp: select_inv_def intro: probe_abandon fallback_abandon)
qed

lemma select_inv_outside: "outside_step s s' \<Longrightarrow> select_inv s \<Longrightarrow> select_inv s'"
  by (induction rule: outside_step.induct) (auto simp: select_inv_def intro: probe_rules fallback_rules)

lemma select_inv_run: "select_run s \<Longrightarrow> select_inv s"
proof (induction rule: select_run.induct)
  case (Start expired)
  show ?case by (simp add: select_inv_def probe_inv_def fallback_inv_def select_start_def no_selection_def)
qed (auto intro: select_inv_step select_inv_outside)

text \<open>The channels of a finished call: nil, except the one of the fallbacks when something was kept.\<close>

lemma finished_channels:
  assumes "finished s"
  shows "sl_pcp4s s = None" and "sl_pcp6s s = None"
    and "gs_pcp4 (sl_found s) \<noteq> None \<or> gs_fallback (sl_found s) \<noteq> None \<or> sl_fallbacks s = None"
  using assms by (auto simp: finished_def settled_def all_nil_def split: if_splits)

lemma finished_found:
  assumes "select_run s" and "finished s"
  shows "gs_pcp4 (sl_found s) = first (sl_pub4 s)" and "gs_pcp6 (sl_found s) = first (sl_pub6 s)"
    and "set_option (gs_fallback (sl_found s)) \<subseteq> set (sl_pubF s)"
    and "first (sl_pub4 s) = None \<Longrightarrow> \<not> sl_withdrawn s \<Longrightarrow> gs_fallback (sl_found s) = first (sl_pubF s)"
proof -
  note inv = select_inv_run [OF assms(1)] and fin = finished_channels [OF assms(2)]
  show 4: "gs_pcp4 (sl_found s) = first (sl_pub4 s)" and "gs_pcp6 (sl_found s) = first (sl_pub6 s)"
    and "set_option (gs_fallback (sl_found s)) \<subseteq> set (sl_pubF s)"
    using inv fin(1,2) by (simp_all add: select_inv_def probe_inv_def fallback_inv_def)
  assume "first (sl_pub4 s) = None" "\<not> sl_withdrawn s"
  with fin(3) 4 have "gs_fallback (sl_found s) \<noteq> None \<or> sl_fallbacks s = None" by simp
  with inv \<open>\<not> sl_withdrawn s\<close> show "gs_fallback (sl_found s) = first (sl_pubF s)"
    by (auto simp: select_inv_def fallback_inv_def split: option.splits)
qed

text \<open>A gateway with or without pinholes, and the error of an empty search.\<close>

definition with_pinholes :: "'p option \<Rightarrow> 'n \<Rightarrow> ('n, 'p) selected" where
  "with_pinholes client g = (case client of Some p \<Rightarrow> DualStack (newNATWithPCPIPv6 g p) | None \<Rightarrow> Plain g)"

definition nothing_found :: "ctx_err \<Rightarrow> bool \<Rightarrow> go_err" where
  "nothing_found e expired =
     (if expired then Errorf ''%w: %w'' [AErr nat_ErrNoNATFound, AErr (CtxErr e)] else nat_ErrNoNATFound)"

lemma select_result_found:
  "select_result e s =
     (case gs_pcp4 (sl_found s) of
        Some g \<Rightarrow> Inr (with_pinholes (gs_pcp6 (sl_found s)) g)
      | None \<Rightarrow>
          (case gs_fallback (sl_found s) of
             Some g \<Rightarrow> Inr (with_pinholes (gs_pcp6 (sl_found s)) g)
           | None \<Rightarrow> Inl (nothing_found e (sl_expired s))))"
  by (simp add: select_result_def gs_gateway_def with_pinholes_def nothing_found_def split: option.split)

lemma select_outcome:
  assumes "select_run s" and "finished s"
  shows
    "(case first (sl_pub4 s) of
        Some g \<Rightarrow> select_result e s = Inr (with_pinholes (first (sl_pub6 s)) g)
      | None \<Rightarrow>
          if \<not> sl_withdrawn s
          then select_result e s =
            (case first (sl_pubF s) of
               Some g \<Rightarrow> Inr (with_pinholes (first (sl_pub6 s)) g)
             | None \<Rightarrow> Inl (nothing_found e (sl_expired s)))
          else select_result e s = Inl (nothing_found e True) \<or>
            (\<exists>g \<in> set (sl_pubF s). select_result e s = Inr (with_pinholes (first (sl_pub6 s)) g)))"
proof (cases "first (sl_pub4 s)")
  case (Some g)
  with finished_found(1,2) [OF assms] show ?thesis by (simp add: select_result_found)
next
  case None
  have "sl_expired s" if "sl_withdrawn s"
    using that select_inv_run [OF assms(1)] by (simp add: select_inv_def)
  with None finished_found [OF assms] show ?thesis
    by (cases "first (sl_pubF s)"; cases "gs_fallback (sl_found s)") (auto simp: select_result_found)
qed

text \<open>
  C9. What \<open>selectGateway\<close> returns, whatever the order in which results and the deadline arrive: the first
  gateway of the PCPv4 probe when it published one, otherwise the first fallback, wrapped for pinholes
  exactly when the PCPv6 probe published a client; the no-NAT error, joined with the one of the context
  when it is done, if nothing was published. Only a fallback whose offer was withdrawn at the deadline
  may be passed over.
\<close>

theorem select_prefers_pcp:
  assumes "select_run s" and "finished s"
  shows
    "(case first (sl_pub4 s) of
        Some g \<Rightarrow> select_result e s = Inr (with_pinholes (first (sl_pub6 s)) g)
      | None \<Rightarrow>
          if \<not> sl_withdrawn s
          then select_result e s =
            (case first (sl_pubF s) of
               Some g \<Rightarrow> Inr (with_pinholes (first (sl_pub6 s)) g)
             | None \<Rightarrow> Inl (nothing_found e (sl_expired s)))
          else select_result e s = Inl (nothing_found e True) \<or>
            (\<exists>g \<in> set (sl_pubF s). select_result e s = Inr (with_pinholes (first (sl_pub6 s)) g)))"
  by (rule select_outcome [OF assms])

text \<open>A run in which the PCPv4 probe fails, the PCPv6 probe publishes 5 and a fallback 7 is offered.\<close>

abbreviation dual_run :: "(nat, nat) sel" where
  "dual_run \<equiv> (select_start False)
     \<lparr>sl_pcp4s := None, sl_pcp6s := None, sl_fallbacks := Some (Chan [] False),
      sl_found := \<lparr>gs_pcp4 = None, gs_pcp6 = Some 5, gs_fallback = Some 7\<rparr>,
      sl_pub6 := [5], sl_pubF := [7], sl_end4 := True\<rparr>"

lemma dual_run: "select_run dual_run"
proof -
  let ?s0 = "select_start False :: (nat, nat) sel"
  let ?s1 = "?s0\<lparr>sl_pcp4s := Some (Chan [] True), sl_end4 := True\<rparr>"
  let ?s2 = "?s1\<lparr>sl_pcp4s := None, sl_found := keepPCPv4 None (sl_found ?s1)\<rparr>"
  let ?s3 = "?s2\<lparr>sl_fallbacks := Some (Chan ([] @ [7]) False), sl_pubF := sl_pubF ?s2 @ [7]\<rparr>"
  let ?s4 = "?s3\<lparr>sl_fallbacks := (if Some (7::nat) = None then None else Some (Chan [] False)),
                sl_found := keepFallback (Some 7) (sl_found ?s3)\<rparr>"
  let ?s5 = "?s4\<lparr>sl_pcp6s := Some (Chan ([] @ [5]) False), sl_pub6 := sl_pub6 ?s4 @ [5]\<rparr>"
  let ?s6 = "?s5\<lparr>sl_pcp6s := None, sl_found := keepPCPv6 (Some 5) (sl_found ?s5)\<rparr>"
  note defs = select_start_def finished_def settled_def no_selection_def
    keepPCPv4_def keepPCPv6_def keepFallback_def
  have "select_run ?s0" by (rule select_run.Start)
  then have "select_run ?s1" by (rule select_run.Outside [OF _ outside_step.Close4]) (simp add: defs)
  then have "select_run ?s2" by (rule select_run.Select [OF _ select_step.Recv4])
      (auto simp: defs intro: receive_simps)
  then have "select_run ?s3" by (rule select_run.Outside [OF _ outside_step.PublishF]) (simp add: defs)
  then have "select_run ?s4" by (rule select_run.Select [OF _ select_step.RecvF])
      (auto simp: defs intro: receive_simps)
  then have "select_run ?s5" by (rule select_run.Outside [OF _ outside_step.Publish6]) (simp add: defs)
  then have "select_run ?s6" by (rule select_run.Select [OF _ select_step.Recv6])
      (auto simp: defs intro: receive_simps)
  moreover have "?s6 = dual_run" by (simp add: defs)
  ultimately show ?thesis by simp
qed

lemma dual_run_finished: "finished dual_run"
  by (simp add: finished_def settled_def select_start_def)

theorem select_prefers_pcp_witness:
  "select_result DeadlineExceeded dual_run = Inr (DualStack (newNATWithPCPIPv6 7 5))"
  using select_prefers_pcp [OF dual_run dual_run_finished, of DeadlineExceeded]
  by (simp add: select_start_def with_pinholes_def)

lemma select_hears:
  assumes "select_run s" and "finished s" and "\<not> sl_expired s"
  shows "sl_pub4 s \<noteq> [] \<or> sl_end4 s" and "sl_pub6 s \<noteq> [] \<or> sl_end6 s"
    and "select_result e s = Inl err \<Longrightarrow>
      err = nat_ErrNoNATFound \<and> sl_pub4 s = [] \<and> sl_end4 s \<and> sl_pubF s = [] \<and> sl_endF s"
proof -
  note inv = select_inv_run [OF assms(1), unfolded select_inv_def] and fin = finished_channels [OF assms(2)]
  from inv assms(3) have undrained: "\<not> sl_draining s" "\<not> sl_withdrawn s" by auto
  with inv fin(1,2) show heard: "sl_pub4 s \<noteq> [] \<or> sl_end4 s" "sl_pub6 s \<noteq> [] \<or> sl_end6 s"
    by (simp_all add: probe_inv_def)
  assume "select_result e s = Inl err"
  then have none: "gs_pcp4 (sl_found s) = None" "gs_fallback (sl_found s) = None"
    "err = nothing_found e (sl_expired s)"
    by (auto simp: select_result_found split: option.splits)
  with finished_found [OF assms(1,2)] undrained have "sl_pub4 s = []" "sl_pubF s = []"
    by (simp_all add: first_None_iff)
  moreover from none fin(3) inv undrained have "sl_endF s" by (simp add: fallback_inv_def)
  ultimately show "err = nat_ErrNoNATFound \<and> sl_pub4 s = [] \<and> sl_end4 s \<and> sl_pubF s = [] \<and> sl_endF s"
    using none heard assms(3) by (simp add: nothing_found_def)
qed

text \<open>
  Without the deadline no source is abandoned: both PCP probes have published or ended, and a call
  that returns an error has seen the PCPv4 probe and every fallback end without a gateway, so that the
  plain no-NAT error is a statement about the network.
\<close>

theorem select_hears_out:
  assumes "select_run s" and "finished s" and "\<not> sl_expired s"
  shows "(sl_pub4 s \<noteq> [] \<or> sl_end4 s) \<and> (sl_pub6 s \<noteq> [] \<or> sl_end6 s) \<and>
    (\<forall>err. select_result e s = Inl err \<longrightarrow>
       err = nat_ErrNoNATFound \<and> sl_pub4 s = [] \<and> sl_end4 s \<and> sl_pubF s = [] \<and> sl_endF s)"
  using select_hears [OF assms] by blast

theorem select_hears_out_witness: "sl_end4 dual_run \<and> sl_pub6 dual_run \<noteq> []"
  using select_hears_out [OF dual_run dual_run_finished] by (simp add: select_start_def)

end
