(* ===== verification/Merge_NATs.thy ===== *)
theory Merge_NATs
  imports Go_Chan "HOL-Library.Multiset" "HOL-Library.Sublist"
begin

text \<open>
  \<open>mergeNATs\<close> of \<open>nat.go\<close>: one goroutine for each source that forwards its values to an unbuffered
  channel until the source is closed or the context is done, and one that closes the channel after the
  last of them.
\<close>

section \<open>The goroutines\<close>

text \<open>
  Where a forwarding goroutine is: at the outer select, at the inner one with a value on offer, or
  returned. \<open>fw_pub\<close> is the history of its source, everything that was published on it.
\<close>

datatype position = Waiting | Offering | Returned

record 'n forwarder =
  fw_source :: "'n chan"
  fw_at :: position
  fw_pub :: "'n list"

text \<open>
  \<open>mg_offers\<close> is the queue of senders on the unbuffered channel, each with the value it offers;
  \<open>mg_out\<close> the history of what the receiver got, with the forwarder it came from.
\<close>

record 'n merge =
  mg_fws :: "'n forwarder list"
  mg_offers :: "(nat \<times> 'n) list"
  mg_out :: "(nat \<times> 'n) list"
  mg_done :: bool
  mg_closed :: bool

definition new_forwarder :: "'n chan \<Rightarrow> 'n forwarder" where
  "new_forwarder ch = \<lparr>fw_source = ch, fw_at = Waiting, fw_pub = ready ch\<rparr>"

text \<open>A nil source gets no goroutine.\<close>

definition mergeNATs :: "bool \<Rightarrow> 'n chan option list \<Rightarrow> 'n merge" where
  "mergeNATs cancelled sources =
     \<lparr>mg_fws = map new_forwarder (List.map_filter id sources), mg_offers = [], mg_out = [],
      mg_done = cancelled, mg_closed = False\<rparr>"

abbreviation fw_set :: "nat \<Rightarrow> ('n forwarder \<Rightarrow> 'n forwarder) \<Rightarrow> 'n merge \<Rightarrow> 'n merge" where
  "fw_set i f m \<equiv> m\<lparr>mg_fws := (mg_fws m)[i := f (mg_fws m ! i)]\<rparr>"

text \<open>The steps the goroutines make by themselves.\<close>

inductive merge_step :: "'n merge \<Rightarrow> 'n merge \<Rightarrow> bool" where
  Take: "i < length (mg_fws m) \<Longrightarrow> fw_at (mg_fws m ! i) = Waiting \<Longrightarrow>
    receive (fw_source (mg_fws m ! i)) = Some (Some v, ch) \<Longrightarrow>
    merge_step m ((fw_set i (\<lambda>w. w\<lparr>fw_source := ch, fw_at := Offering\<rparr>) m)\<lparr>mg_offers := mg_offers m @ [(i, v)]\<rparr>)"
| Ended: "i < length (mg_fws m) \<Longrightarrow> fw_at (mg_fws m ! i) = Waiting \<Longrightarrow>
    receive (fw_source (mg_fws m ! i)) = Some (None, ch) \<Longrightarrow>
    merge_step m (fw_set i (\<lambda>w. w\<lparr>fw_at := Returned\<rparr>) m)"
| Leave: "i < length (mg_fws m) \<Longrightarrow> fw_at (mg_fws m ! i) = Waiting \<Longrightarrow> mg_done m \<Longrightarrow>
    merge_step m (fw_set i (\<lambda>w. w\<lparr>fw_at := Returned\<rparr>) m)"
| Withdraw: "i < length (mg_fws m) \<Longrightarrow> fw_at (mg_fws m ! i) = Offering \<Longrightarrow> mg_done m \<Longrightarrow>
    mg_offers m = us @ (i, v) # vs \<Longrightarrow>
    merge_step m ((fw_set i (\<lambda>w. w\<lparr>fw_at := Returned\<rparr>) m)\<lparr>mg_offers := us @ vs\<rparr>)"
| Close: "\<forall>w \<in> set (mg_fws m). fw_at w = Returned \<Longrightarrow> \<not> mg_closed m \<Longrightarrow>
    merge_step m (m\<lparr>mg_closed := True\<rparr>)"

text \<open>The rendezvous with a receiver.\<close>

inductive deliver :: "'n merge \<Rightarrow> 'n merge \<Rightarrow> bool" where
  Deliver: "mg_offers m = (i, v) # vs \<Longrightarrow>
    deliver m ((fw_set i (\<lambda>w. w\<lparr>fw_at := Waiting\<rparr>) m)\<lparr>mg_offers := vs, mg_out := mg_out m @ [(i, v)]\<rparr>)"

text \<open>The outside: the sources publish and close, and the context ends.\<close>

inductive source_step :: "'n merge \<Rightarrow> 'n merge \<Rightarrow> bool" where
  Publish: "i < length (mg_fws m) \<Longrightarrow> fw_source (mg_fws m ! i) = Chan vs False \<Longrightarrow>
    source_step m (fw_set i (\<lambda>w. w\<lparr>fw_source := Chan (vs @ [v]) False, fw_pub := fw_pub w @ [v]\<rparr>) m)"
| End: "i < length (mg_fws m) \<Longrightarrow> fw_source (mg_fws m ! i) = Chan vs False \<Longrightarrow>
    source_step m (fw_set i (\<lambda>w. w\<lparr>fw_source := Chan vs True\<rparr>) m)"
| Cancel: "source_step m (m\<lparr>mg_done := True\<rparr>)"

inductive merge_run :: "'n merge \<Rightarrow> 'n merge \<Rightarrow> bool" for m0 where
  Start: "merge_run m0 m0"
| Step: "merge_run m0 m \<Longrightarrow> merge_step m m' \<Longrightarrow> merge_run m0 m'"
| Receive: "merge_run m0 m \<Longrightarrow> deliver m m' \<Longrightarrow> merge_run m0 m'"
| Outside: "merge_run m0 m \<Longrightarrow> source_step m m' \<Longrightarrow> merge_run m0 m'"

section \<open>What is delivered\<close>

text \<open>The values of one forwarder in a list of tagged ones.\<close>

definition of_fw :: "nat \<Rightarrow> (nat \<times> 'n) list \<Rightarrow> 'n list" where
  "of_fw i xs = map snd (filter (\<lambda>x. fst x = i) xs)"

lemma of_fw_simps [simp]:
  "of_fw i [] = []" "of_fw i ((j, v) # xs) = (if j = i then v # of_fw i xs else of_fw i xs)"
  "of_fw i (xs @ ys) = of_fw i xs @ of_fw i ys"
  by (simp_all add: of_fw_def)

text \<open>
  One forwarder: what the receiver got from it, then its offer, are the beginning of its source; until
  the context is done the rest is still in the source, and it has returned only at its end.
\<close>

definition fw_ok :: "'n forwarder \<Rightarrow> 'n list \<Rightarrow> 'n list \<Rightarrow> bool \<Rightarrow> bool" where
  "fw_ok w out offers cancelled \<longleftrightarrow>
     (if fw_at w = Returned \<and> cancelled then prefix (out @ offers) (fw_pub w)
      else fw_pub w = out @ offers @ ready (fw_source w)) \<and>
     length offers = (if fw_at w = Offering then 1 else 0) \<and>
     (fw_at w = Returned \<and> \<not> cancelled \<longrightarrow> ready (fw_source w) = [] \<and> closed (fw_source w))"

definition merge_inv :: "'n merge \<Rightarrow> bool" where
  "merge_inv m \<longleftrightarrow>
     (\<forall>i < length (mg_fws m). fw_ok (mg_fws m ! i) (of_fw i (mg_out m)) (of_fw i (mg_offers m)) (mg_done m)) \<and>
     fst ` set (mg_offers m @ mg_out m) \<subseteq> {..<length (mg_fws m)} \<and>
     (mg_closed m \<longrightarrow> (\<forall>w \<in> set (mg_fws m). fw_at w = Returned))"

lemma fw_ok_take:
  assumes "fw_ok w out offers b" and "fw_at w = Waiting" and "receive (fw_source w) = Some (Some v, ch)"
  shows "fw_ok (w\<lparr>fw_source := ch, fw_at := Offering\<rparr>) out (offers @ [v]) b"
  using assms by (auto simp: fw_ok_def receive_cases)

lemma fw_ok_ended:
  assumes "fw_ok w out offers b" and "fw_at w = Waiting" and "receive (fw_source w) = Some (None, ch)"
  shows "fw_ok (w\<lparr>fw_at := Returned\<rparr>) out offers b"
  using assms by (auto simp: fw_ok_def receive_cases)

lemma fw_ok_leave:
  assumes "fw_ok w out offers True" and "fw_at w = Waiting"
  shows "fw_ok (w\<lparr>fw_at := Returned\<rparr>) out offers True"
  using assms by (auto simp: fw_ok_def)

lemma fw_ok_withdraw:
  assumes "fw_ok w out offers True" and "fw_at w = Offering"
  shows "fw_ok (w\<lparr>fw_at := Returned\<rparr>) out [] True"
  using assms by (auto simp: fw_ok_def)

lemma fw_ok_deliver:
  assumes "fw_ok w out (v # offers) b"
  shows "fw_at w = Offering \<and> offers = [] \<and> fw_ok (w\<lparr>fw_at := Waiting\<rparr>) (out @ [v]) offers b"
  using assms by (auto simp: fw_ok_def split: if_splits)

lemma fw_ok_publish:
  assumes "fw_ok w out offers b" and "fw_source w = Chan vs False"
  shows "fw_ok (w\<lparr>fw_source := Chan (vs @ [v]) False, fw_pub := fw_pub w @ [v]\<rparr>) out offers b"
  using assms by (auto simp: fw_ok_def split: if_splits)

lemma fw_ok_end:
  assumes "fw_ok w out offers b" and "fw_source w = Chan vs False"
  shows "fw_ok (w\<lparr>fw_source := Chan vs True\<rparr>) out offers b"
  using assms by (auto simp: fw_ok_def split: if_splits)

lemma fw_ok_cancel: "fw_ok w out offers b \<Longrightarrow> fw_ok w out offers True"
  by (auto simp: fw_ok_def split: if_splits)

lemma of_fw_out: "i \<notin> fst ` set xs \<Longrightarrow> of_fw i xs = []"
  by (auto simp: of_fw_def filter_empty_conv)

text \<open>A change of one forwarder.\<close>

lemma merge_inv_change:
  assumes "merge_inv m" and "i < length (mg_fws m)"
    and "mg_fws m' = (mg_fws m)[i := w']" and "mg_done m' = mg_done m" and "mg_closed m' = mg_closed m"
    and "\<And>j. j \<noteq> i \<Longrightarrow> of_fw j (mg_out m') = of_fw j (mg_out m) \<and> of_fw j (mg_offers m') = of_fw j (mg_offers m)"
    and "fst ` set (mg_offers m' @ mg_out m') \<subseteq> insert i (fst ` set (mg_offers m @ mg_out m))"
    and "fw_ok w' (of_fw i (mg_out m')) (of_fw i (mg_offers m')) (mg_done m)"
    and "fw_at (mg_fws m ! i) = Returned \<Longrightarrow> fw_at w' = Returned"
  shows "merge_inv m'"
proof -
  have "fw_ok (mg_fws m' ! j) (of_fw j (mg_out m')) (of_fw j (mg_offers m')) (mg_done m')"
    if "j < length (mg_fws m')" for j
    using that assms by (cases "j = i") (simp_all add: merge_inv_def)
  moreover have "fst ` set (mg_offers m' @ mg_out m') \<subseteq> {..<length (mg_fws m')}"
    using assms(1,2,3,7) by (auto simp: merge_inv_def)
  moreover have "fw_at w = Returned" if "mg_closed m'" "w \<in> set (mg_fws m')" for w
  proof -
    from that(1) assms(1,5) have all: "\<forall>w \<in> set (mg_fws m). fw_at w = Returned" by (simp add: merge_inv_def)
    with assms(2,9) have "fw_at w' = Returned" by simp
    with that(2) all assms(3) set_update_subset_insert [of "mg_fws m" i w'] show ?thesis by auto
  qed
  ultimately show ?thesis by (simp add: merge_inv_def)
qed

lemma merge_inv_nth:
  "merge_inv m \<Longrightarrow> i < length (mg_fws m) \<Longrightarrow>
   fw_ok (mg_fws m ! i) (of_fw i (mg_out m)) (of_fw i (mg_offers m)) (mg_done m)"
  by (simp add: merge_inv_def)

lemma merge_inv_step: "merge_step m m' \<Longrightarrow> merge_inv m \<Longrightarrow> merge_inv m'"
proof (induction rule: merge_step.induct)
  case (Take i m v ch)
  show ?case
    by (rule merge_inv_change
        [OF Take.prems Take.hyps(1), where w' = "(mg_fws m ! i)\<lparr>fw_source := ch, fw_at := Offering\<rparr>"])
      (use fw_ok_take [OF merge_inv_nth [OF Take.prems Take.hyps(1)] Take.hyps(2,3)] Take.hyps(2) in auto)
next
  case (Ended i m ch)
  show ?case
    by (rule merge_inv_change
        [OF Ended.prems Ended.hyps(1), where w' = "(mg_fws m ! i)\<lparr>fw_at := Returned\<rparr>"])
      (use fw_ok_ended [OF merge_inv_nth [OF Ended.prems Ended.hyps(1)] Ended.hyps(2,3)] in auto)
next
  case (Leave i m)
  show ?case
    by (rule merge_inv_change
        [OF Leave.prems Leave.hyps(1), where w' = "(mg_fws m ! i)\<lparr>fw_at := Returned\<rparr>"])
      (use fw_ok_leave [of "mg_fws m ! i"] merge_inv_nth [OF Leave.prems Leave.hyps(1)] Leave.hyps(2,3) in auto)
next
  case (Withdraw i m us v vs)
  from merge_inv_nth [OF Withdraw.prems Withdraw.hyps(1)] Withdraw.hyps(2,4)
  have "of_fw i us = []" "of_fw i vs = []" by (auto simp: fw_ok_def)
  with fw_ok_withdraw [of "mg_fws m ! i" "of_fw i (mg_out m)" "of_fw i (mg_offers m)"]
    merge_inv_nth [OF Withdraw.prems Withdraw.hyps(1)] Withdraw.hyps
  have "fw_ok ((mg_fws m ! i)\<lparr>fw_at := Returned\<rparr>) (of_fw i (mg_out m)) (of_fw i (us @ vs)) (mg_done m)" by simp
  then show ?case
    by (intro merge_inv_change
        [OF Withdraw.prems Withdraw.hyps(1), where w' = "(mg_fws m ! i)\<lparr>fw_at := Returned\<rparr>"]) (use Withdraw.hyps(4) in auto)
next
  case (Close m)
  then show ?case by (simp add: merge_inv_def)
qed

lemma merge_inv_deliver: "deliver m m' \<Longrightarrow> merge_inv m \<Longrightarrow> merge_inv m'"
proof (induction rule: deliver.induct)
  case (Deliver m i v vs)
  then have i: "i < length (mg_fws m)" by (auto simp: merge_inv_def)
  from fw_ok_deliver [of "mg_fws m ! i" "of_fw i (mg_out m)" v "of_fw i vs"] merge_inv_nth [OF Deliver.prems i]
    Deliver.hyps
  have "fw_at (mg_fws m ! i) = Offering"
    "fw_ok ((mg_fws m ! i)\<lparr>fw_at := Waiting\<rparr>) (of_fw i (mg_out m @ [(i, v)])) (of_fw i vs) (mg_done m)" by auto
  then show ?case
    by (intro merge_inv_change [OF Deliver.prems i, where w' = "(mg_fws m ! i)\<lparr>fw_at := Waiting\<rparr>"]) (use Deliver.hyps in auto)
qed

lemma merge_inv_source: "source_step m m' \<Longrightarrow> merge_inv m \<Longrightarrow> merge_inv m'"
proof (induction rule: source_step.induct)
  case (Publish i m vs v)
  show ?case
    by (rule merge_inv_change
        [OF Publish.prems Publish.hyps(1), where w' = "(mg_fws m ! i)\<lparr>fw_source := Chan (vs @ [v]) False, fw_pub := fw_pub (mg_fws m ! i) @ [v]\<rparr>"])
      (use fw_ok_publish [OF merge_inv_nth [OF Publish.prems Publish.hyps(1)] Publish.hyps(2)] in auto)
next
  case (End i m vs)
  show ?case
    by (rule merge_inv_change
        [OF End.prems End.hyps(1), where w' = "(mg_fws m ! i)\<lparr>fw_source := Chan vs True\<rparr>"])
      (use fw_ok_end [OF merge_inv_nth [OF End.prems End.hyps(1)] End.hyps(2)] in auto)
next
  case (Cancel m)
  then show ?case by (auto simp: merge_inv_def intro: fw_ok_cancel)
qed

lemma merge_inv_start: "merge_inv (mergeNATs cancelled sources)"
  by (auto simp: merge_inv_def mergeNATs_def new_forwarder_def fw_ok_def)

lemma merge_inv_run: "merge_run (mergeNATs cancelled sources) m \<Longrightarrow> merge_inv m"
  by (induction rule: merge_run.induct)
    (auto intro: merge_inv_start merge_inv_step merge_inv_deliver merge_inv_source)

lemma mset_of_fws:
  "fst ` set xs \<subseteq> {..<n} \<Longrightarrow> mset (map snd xs) = (\<Sum>i<n. mset (of_fw i xs))"
proof (induction xs)
  case (Cons x xs)
  obtain j v where x: "x = (j, v)" by (cases x)
  have "(\<Sum>i<n. mset (of_fw i (x # xs))) = (\<Sum>i<n. (if j = i then {#v#} else {#}) + mset (of_fw i xs))"
    by (rule sum.cong) (auto simp: x)
  also have "\<dots> = {#v#} + (\<Sum>i<n. mset (of_fw i xs))"
    using Cons.prems by (simp add: sum.distrib x)
  finally show ?case using Cons by (simp add: x)
qed simp

lemma merge_closed_offers:
  assumes "merge_inv m" and "mg_closed m"
  shows "mg_offers m = []"
proof (rule ccontr)
  assume "mg_offers m \<noteq> []"
  then obtain i v vs where offer: "mg_offers m = (i, v) # vs" by (metis list.exhaust surj_pair)
  with assms(1) have i: "i < length (mg_fws m)" by (auto simp: merge_inv_def)
  with fw_ok_deliver [of "mg_fws m ! i"] merge_inv_nth [OF assms(1) i] offer
  have "fw_at (mg_fws m ! i) = Offering" by auto
  with assms i show False by (simp add: merge_inv_def)
qed

lemma merge_complete:
  assumes "merge_run (mergeNATs cancelled sources) m" and "mg_closed m" and "\<not> mg_done m"
  shows "\<forall>w \<in> set (mg_fws m). closed (fw_source w)"
    and "i < length (mg_fws m) \<Longrightarrow> of_fw i (mg_out m) = fw_pub (mg_fws m ! i)"
    and "mset (map snd (mg_out m)) = (\<Sum>i < length (mg_fws m). mset (fw_pub (mg_fws m ! i)))"
proof -
  note inv = merge_inv_run [OF assms(1)] and ok = merge_inv_nth [OF merge_inv_run [OF assms(1)]]
  have all: "closed (fw_source (mg_fws m ! i)) \<and> of_fw i (mg_out m) = fw_pub (mg_fws m ! i)"
    if "i < length (mg_fws m)" for i
    using ok [OF that] that assms(2,3) inv merge_closed_offers [OF inv assms(2)] by (simp add: merge_inv_def fw_ok_def)
  then show "\<forall>w \<in> set (mg_fws m). closed (fw_source w)"
    and "i < length (mg_fws m) \<Longrightarrow> of_fw i (mg_out m) = fw_pub (mg_fws m ! i)"
    by (auto simp: in_set_conv_nth)
  have "fst ` set (mg_out m) \<subseteq> {..<length (mg_fws m)}" using inv by (auto simp: merge_inv_def)
  from mset_of_fws [OF this] all
  show "mset (map snd (mg_out m)) = (\<Sum>i < length (mg_fws m). mset (fw_pub (mg_fws m ! i)))" by simp
qed

text \<open>
  C16. \<open>mergeNATs\<close> delivers, from each source, a prefix of what the source published, in order and without
  repetition, and nothing else. When it closes its channel no goroutine is left that could send on it,
  and unless the context ended every source has ended and each of its gateways was delivered.
\<close>

theorem merge_delivers:
  assumes "merge_run (mergeNATs cancelled sources) m"
  shows "(\<forall>i < length (mg_fws m). prefix (of_fw i (mg_out m)) (fw_pub (mg_fws m ! i))) \<and>
    (\<forall>x \<in> set (mg_out m). fst x < length (mg_fws m)) \<and>
    (mg_closed m \<longrightarrow> mg_offers m = [] \<and>
      (\<not> mg_done m \<longrightarrow>
        (\<forall>w \<in> set (mg_fws m). closed (fw_source w)) \<and>
        (\<forall>i < length (mg_fws m). of_fw i (mg_out m) = fw_pub (mg_fws m ! i)) \<and>
        mset (map snd (mg_out m)) = (\<Sum>i < length (mg_fws m). mset (fw_pub (mg_fws m ! i)))))"
proof -
  note inv = merge_inv_run [OF assms] and ok = merge_inv_nth [OF merge_inv_run [OF assms]]
  have "prefix (of_fw i (mg_out m)) (fw_pub (mg_fws m ! i))" if "i < length (mg_fws m)" for i
    using ok [OF that] by (auto simp: fw_ok_def dest: append_prefixD split: if_splits)
  moreover have "\<forall>x \<in> set (mg_out m). fst x < length (mg_fws m)" using inv by (auto simp: merge_inv_def)
  ultimately show ?thesis using merge_closed_offers [OF inv] merge_complete [OF assms] by simp
qed

text \<open>A nil source and one that published 7 and ended, forwarded to the end.\<close>

abbreviation forwarded :: "nat merge" where
  "forwarded \<equiv>
     \<lparr>mg_fws = [\<lparr>fw_source = Chan [] True, fw_at = Returned, fw_pub = [7]\<rparr>], mg_offers = [], mg_out = [(0, 7)],
      mg_done = False, mg_closed = True\<rparr>"

lemma forwarded: "merge_run (mergeNATs False [None, Some (Chan [7] True)]) forwarded"
proof -
  let ?m0 = "mergeNATs False [None, Some (Chan [7::nat] True)]"
  let ?m1 = "(fw_set 0 (\<lambda>w. w\<lparr>fw_source := Chan [] True, fw_at := Offering\<rparr>) ?m0)\<lparr>mg_offers := mg_offers ?m0 @ [(0, 7)]\<rparr>"
  let ?m2 = "(fw_set 0 (\<lambda>w. w\<lparr>fw_at := Waiting\<rparr>) ?m1)\<lparr>mg_offers := [], mg_out := mg_out ?m1 @ [(0, 7)]\<rparr>"
  let ?m3 = "fw_set 0 (\<lambda>w. w\<lparr>fw_at := Returned\<rparr>) ?m2"
  let ?m4 = "?m3\<lparr>mg_closed := True\<rparr>"
  note defs = mergeNATs_def new_forwarder_def
  have "merge_run ?m0 ?m0" by (rule merge_run.Start)
  then have "merge_run ?m0 ?m1"
    by (rule merge_run.Step [OF _ merge_step.Take]) (auto simp: defs intro: receive_simps)
  then have "merge_run ?m0 ?m2" by (rule merge_run.Receive [OF _ deliver.Deliver]) (simp add: defs)
  then have "merge_run ?m0 ?m3"
    by (rule merge_run.Step [OF _ merge_step.Ended]) (auto simp: defs intro: receive_simps)
  then have "merge_run ?m0 ?m4" by (rule merge_run.Step [OF _ merge_step.Close]) (simp_all add: defs)
  moreover have "?m4 = forwarded" by (simp add: defs)
  ultimately show ?thesis by simp
qed

theorem merge_delivers_witness:
  "of_fw 0 (mg_out forwarded) = fw_pub (mg_fws forwarded ! 0) \<and> closed (fw_source (mg_fws forwarded ! 0))"
  using merge_delivers [OF forwarded] by simp

section \<open>The channel is closed\<close>

definition fw_size :: "'n forwarder \<Rightarrow> nat" where
  "fw_size w = (case fw_at w of Waiting \<Rightarrow> 2 | Offering \<Rightarrow> 1 | Returned \<Rightarrow> 0)"

definition merge_size :: "'n merge \<Rightarrow> nat" where
  "merge_size m = sum_list (map fw_size (mg_fws m)) + (if mg_closed m then 0 else 1)"

lemma sum_list_change:
  "i < length ws \<Longrightarrow> f w < f (ws ! i) \<Longrightarrow> sum_list (map f (ws[i := w])) < (sum_list (map f ws) :: nat)"
proof (induction ws arbitrary: i)
  case (Cons a ws)
  then show ?case by (cases i) auto
qed simp

lemma merge_step_size: "merge_step m m' \<Longrightarrow> merge_size m' < merge_size m"
proof (induction rule: merge_step.induct)
  case (Take i m v ch)
  then show ?case by (simp add: merge_size_def sum_list_change fw_size_def)
next
  case (Ended i m ch)
  then show ?case by (simp add: merge_size_def sum_list_change fw_size_def)
next
  case (Leave i m)
  then show ?case by (simp add: merge_size_def sum_list_change fw_size_def)
next
  case (Withdraw i m us v vs)
  then show ?case by (simp add: merge_size_def sum_list_change fw_size_def)
qed (simp add: merge_size_def)

lemma merge_step_done: "merge_step m m' \<Longrightarrow> mg_done m' = mg_done m"
  by (induction rule: merge_step.induct) auto

lemma offer_split: "of_fw i xs \<noteq> [] \<Longrightarrow> \<exists>us v vs. xs = us @ (i, v) # vs"
proof (induction xs)
  case (Cons x xs)
  obtain j v where x: "x = (j, v)" by (cases x)
  show ?case
  proof (cases "j = i")
    case True
    with x have "x # xs = [] @ (i, v) # xs" by simp
    then show ?thesis by blast
  next
    case False
    with Cons x obtain us v vs where "xs = us @ (i, v) # vs" by auto
    then have "x # xs = (x # us) @ (i, v) # vs" by simp
    then show ?thesis by blast
  qed
qed simp

lemma merge_progress:
  assumes "merge_inv m" and "mg_done m" and "\<not> mg_closed m"
  shows "\<exists>m'. merge_step m m'"
proof (cases "\<forall>w \<in> set (mg_fws m). fw_at w = Returned")
  case True
  with assms(3) show ?thesis by (blast intro: merge_step.Close)
next
  case False
  then obtain i where i: "i < length (mg_fws m)" "fw_at (mg_fws m ! i) \<noteq> Returned"
    by (auto simp: in_set_conv_nth)
  show ?thesis
  proof (cases "fw_at (mg_fws m ! i)")
    case Waiting
    with i assms(2) show ?thesis by (blast intro: merge_step.Leave)
  next
    case Offering
    with merge_inv_nth [OF assms(1) i(1)] have "of_fw i (mg_offers m) \<noteq> []" by (auto simp: fw_ok_def)
    then obtain us v vs where "mg_offers m = us @ (i, v) # vs" using offer_split by metis
    with i Offering assms(2) show ?thesis by (blast intro: merge_step.Withdraw)
  qed (use i in simp)
qed

text \<open>
  C32. No goroutine of \<open>mergeNATs\<close> outlives its context: once it is done they all return and the channel
  is closed, even if nobody receives any more and no source ever ends; they are never stuck before, and
  make at most two steps each and one more.
\<close>

theorem merge_closes:
  assumes "merge_run (mergeNATs cancelled sources) m" and "mg_done m"
  shows "(\<exists>m'. merge_step\<^sup>*\<^sup>* m m' \<and> mg_closed m') \<and>
    (\<forall>k m'. (merge_step ^^ k) m m' \<longrightarrow>
       k \<le> 2 * length (mg_fws m) + 1 \<and> (mg_closed m' \<or> (\<exists>m''. merge_step m' m'')))"
proof -
  let ?P = "\<lambda>m. merge_inv m \<and> mg_done m"
  have "?P m" using merge_inv_run [OF assms(1)] assms(2) by simp
  note ends = runs_to_end [of ?P merge_step merge_size mg_closed, OF _ _ this]
  have "sum_list (map fw_size ws) \<le> 2 * length ws" for ws :: "'a forwarder list"
    by (induction ws) (auto simp: fw_size_def split: position.split)
  from this [of "mg_fws m"] have "merge_size m \<le> 2 * length (mg_fws m) + 1" by (simp add: merge_size_def)
  moreover have "\<exists>m'. merge_step\<^sup>*\<^sup>* m m' \<and> ?P m' \<and> mg_closed m'"
    by (rule ends(1)) (use merge_inv_step merge_step_done merge_step_size merge_progress in metis)+
  moreover have "k \<le> merge_size m \<and> ?P m' \<and> (mg_closed m' \<or> (\<exists>m''. merge_step m' m''))"
    if "(merge_step ^^ k) m m'" for k m'
    by (rule ends(2) [OF _ _ that]) (use merge_inv_step merge_step_done merge_step_size merge_progress in metis)+
  ultimately show ?thesis by (meson order_trans)
qed

theorem merge_closes_witness:
  "\<exists>m'. merge_step\<^sup>*\<^sup>* (mergeNATs True [None, Some (Chan [7::nat] False)]) m' \<and> mg_closed m'"
  using merge_closes [OF merge_run.Start, of True "[None, Some (Chan [7::nat] False)]"]
  by (simp add: mergeNATs_def)

text \<open>Without the context ending, sources that have ended and a receiver that keeps receiving are enough.\<close>

definition drain_step :: "'n merge \<Rightarrow> 'n merge \<Rightarrow> bool" where
  "drain_step m m' \<longleftrightarrow> merge_step m m' \<or> deliver m m'"

definition fw_work :: "'n forwarder \<Rightarrow> nat" where
  "fw_work w = 3 * length (ready (fw_source w)) + (case fw_at w of Waiting \<Rightarrow> 1 | Offering \<Rightarrow> 2 | Returned \<Rightarrow> 0)"

definition merge_work :: "'n merge \<Rightarrow> nat" where
  "merge_work m = sum_list (map fw_work (mg_fws m)) + (if mg_closed m then 0 else 1)"

lemma merge_step_work: "merge_step m m' \<Longrightarrow> merge_work m' < merge_work m"
proof (induction rule: merge_step.induct)
  case (Take i m v ch)
  from Take.hyps(3) obtain vs where r: "ready (fw_source (mg_fws m ! i)) = v # vs"
    "ch = Chan vs (closed (fw_source (mg_fws m ! i)))" by (auto simp: receive_cases)
  with Take show ?case by (simp add: merge_work_def fw_work_def sum_list_change)
next
  case (Ended i m ch)
  then show ?case by (simp add: merge_work_def fw_work_def sum_list_change)
next
  case (Leave i m)
  then show ?case by (simp add: merge_work_def fw_work_def sum_list_change)
next
  case (Withdraw i m us v vs)
  then show ?case by (simp add: merge_work_def fw_work_def sum_list_change)
qed (simp add: merge_work_def)

lemma sum_list_change2:
  "i < length ws \<Longrightarrow> Suc (f w) < f (ws ! i) \<Longrightarrow> Suc (sum_list (map f (ws[i := w]))) < (sum_list (map f ws) :: nat)"
proof (induction ws arbitrary: i)
  case (Cons a ws)
  then show ?case by (cases i) auto
qed simp

lemma merge_step_offers_work:
  "merge_step m m' \<Longrightarrow> length (mg_offers m') + merge_work m' < length (mg_offers m) + merge_work m"
proof (induction rule: merge_step.induct)
  case (Take i m v ch)
  from Take.hyps(3) obtain vs where r: "ready (fw_source (mg_fws m ! i)) = v # vs"
    "ch = Chan vs (closed (fw_source (mg_fws m ! i)))" by (auto simp: receive_cases)
  with Take sum_list_change2 [of i "mg_fws m" fw_work "(mg_fws m ! i)\<lparr>fw_source := ch, fw_at := Offering\<rparr>"]
  show ?case by (simp add: merge_work_def fw_work_def)
next
  case (Withdraw i m us v vs)
  with merge_step_work [OF merge_step.Withdraw [OF Withdraw]] show ?case by simp
next
  case (Ended i m ch)
  with merge_step_work [OF merge_step.Ended [OF Ended]] show ?case by simp
next
  case (Leave i m)
  with merge_step_work [OF merge_step.Leave [OF Leave]] show ?case by simp
next
  case (Close m)
  with merge_step_work [OF merge_step.Close [OF Close]] show ?case by simp
qed

lemma deliver_work:
  assumes "deliver m m'" and "merge_inv m"
  shows "merge_work m' < merge_work m"
  using assms
proof (induction rule: deliver.induct)
  case (Deliver m i v vs)
  then have i: "i < length (mg_fws m)" by (auto simp: merge_inv_def)
  with fw_ok_deliver [of "mg_fws m ! i" "of_fw i (mg_out m)" v "of_fw i vs"] merge_inv_nth [of m i] Deliver
  have "fw_at (mg_fws m ! i) = Offering" by auto
  with i show ?case by (simp add: merge_work_def fw_work_def sum_list_change)
qed

definition draining :: "'n merge \<Rightarrow> bool" where
  "draining m \<longleftrightarrow> merge_inv m \<and> \<not> mg_done m \<and> (\<forall>w \<in> set (mg_fws m). closed (fw_source w))"

lemma set_update_mem: "x \<in> set (xs[i := y]) \<Longrightarrow> i < length xs \<and> x = y \<or> x \<in> set xs"
  using set_update_subset_insert [of xs i y] by (cases "i < length xs") (auto simp: list_update_beyond)

lemma map_update_same: "f y = f (xs ! i) \<Longrightarrow> map f (xs[i := y]) = map f xs"
  by (cases "i < length xs") (simp_all add: map_update list_update_same_conv list_update_beyond)

lemma draining_progress:
  assumes "draining m" and "\<not> mg_closed m"
  shows "\<exists>m'. drain_step m m'"
proof (cases "\<forall>w \<in> set (mg_fws m). fw_at w = Returned")
  case True
  with assms(2) show ?thesis unfolding drain_step_def by (blast intro: merge_step.Close)
next
  case False
  then obtain i where i: "i < length (mg_fws m)" "fw_at (mg_fws m ! i) \<noteq> Returned"
    by (auto simp: in_set_conv_nth)
  show ?thesis
  proof (cases "fw_at (mg_fws m ! i)")
    case Waiting
    from assms(1) i have "closed (fw_source (mg_fws m ! i))" by (simp add: draining_def)
    then obtain r ch where "receive (fw_source (mg_fws m ! i)) = Some (r, ch)"
      by (metis not_None_eq receive_None_iff surj_pair)
    with i Waiting show ?thesis
      unfolding drain_step_def by (cases r) (blast intro: merge_step.Take merge_step.Ended)+
  next
    case Offering
    with assms(1) i merge_inv_nth [of m i] have "of_fw i (mg_offers m) \<noteq> []"
      by (auto simp: fw_ok_def draining_def)
    then obtain j v vs where "mg_offers m = (j, v) # vs" by (cases "mg_offers m") auto
    then show ?thesis unfolding drain_step_def by (blast intro: deliver.Deliver)
  qed (use i in simp)
qed

section \<open>Histories\<close>

lemma merge_step_inner: "merge_step m m' \<Longrightarrow> mg_out m' = mg_out m \<and> mg_done m' = mg_done m \<and> (mg_closed m \<longrightarrow> mg_closed m')"
  by (induction rule: merge_step.induct) auto

lemma deliver_inner: "deliver m m' \<Longrightarrow> mg_done m' = mg_done m \<and> mg_closed m' = mg_closed m"
  by (induction rule: deliver.induct) auto

text \<open>Sources that have published everything never publish more, so that the histories do not change.\<close>

definition source_pubs :: "'n merge \<Rightarrow> 'n list list" where
  "source_pubs m = map fw_pub (mg_fws m)"

definition ended :: "'n merge \<Rightarrow> bool" where
  "ended m \<longleftrightarrow> (\<forall>w \<in> set (mg_fws m). closed (fw_source w))"

lemma merge_pubs_fixed:
  assumes "merge_run m0 m" and "ended m0"
  shows "source_pubs m = source_pubs m0 \<and> ended m"
  using assms(1)
proof (induction rule: merge_run.induct)
  case (Step m m')
  from Step(2,3) show ?case
    by (induction rule: merge_step.induct)
      (auto simp: source_pubs_def ended_def map_update_same receive_cases dest!: set_update_mem)
next
  case (Receive m m')
  from Receive(2,3) show ?case
    by (induction rule: deliver.induct)
      (auto simp: source_pubs_def ended_def map_update_same dest!: set_update_mem)
next
  case (Outside m m')
  from Outside(2,3) show ?case
  proof (induction rule: source_step.induct)
    case (Publish i m vs v)
    from Publish.prems Publish.hyps(1) have "closed (fw_source (mg_fws m ! i))" by (auto simp: ended_def)
    with Publish.hyps(2) show ?case by simp
  next
    case (End i m vs)
    from End.prems End.hyps(1) have "closed (fw_source (mg_fws m ! i))" by (auto simp: ended_def)
    with End.hyps(2) show ?case by simp
  qed (simp add: source_pubs_def ended_def)
qed (use assms(2) in simp)

lemma sum_subset_mset: "(\<And>i. i \<in> A \<Longrightarrow> f i \<subseteq># g i) \<Longrightarrow> sum f A \<subseteq># (sum g A :: 'b multiset)"
  by (induction A rule: infinite_finite_induct) (auto intro: subset_mset.add_mono)

lemma sum_pubs: "(\<Sum>i < length (mg_fws m). mset (fw_pub (mg_fws m ! i))) = sum_list (map mset (source_pubs m))"
  by (simp add: source_pubs_def sum_list_sum_nth lessThan_atLeast0)

lemma merge_sub:
  assumes "merge_run (mergeNATs c sources) m"
  shows "mset (map snd (mg_out m)) \<subseteq># sum_list (map mset (source_pubs m))"
proof -
  note inv = merge_inv_run [OF assms]
  have "fst ` set (mg_out m) \<subseteq> {..<length (mg_fws m)}" using inv by (auto simp: merge_inv_def)
  from mset_of_fws [OF this]
  have "mset (map snd (mg_out m)) = (\<Sum>i < length (mg_fws m). mset (of_fw i (mg_out m)))" .
  also have "\<dots> \<subseteq># (\<Sum>i < length (mg_fws m). mset (fw_pub (mg_fws m ! i)))"
  proof (rule sum_subset_mset)
    fix i assume "i \<in> {..<length (mg_fws m)}"
    then have "prefix (of_fw i (mg_out m)) (fw_pub (mg_fws m ! i))"
      using merge_inv_nth [OF inv, of i] by (auto simp: fw_ok_def dest: append_prefixD split: if_splits)
    then show "mset (of_fw i (mg_out m)) \<subseteq># mset (fw_pub (mg_fws m ! i))" by (auto simp: prefix_def)
  qed
  finally show ?thesis by (simp add: sum_pubs)
qed

end
