(* ===== verification/Discover_NATs.thy ===== *)
theory Discover_NATs
  imports Gateway_Select Merge_NATs
begin

text \<open>
  \<open>DiscoverNATs\<close> of \<open>nat.go\<close>: the sources of gateways, and the two merges that forward them to the caller.
\<close>

section \<open>The sources\<close>

datatype 'd gateway = PcpGateway pcp_nat | UpnpGateway "'d upnp_NAT" | NatpmpGateway natpmpNAT

text \<open>
  What a host finds in its network: the routing table, the PCP servers, the libraries for UPnP with a
  state of the outside for each discovery, and whether the gateway speaks NAT-PMP.
\<close>

record 'd network =
  nw_goos :: string
  nw_router :: "router or_err"
  nw_ctx_err :: "ctx \<Rightarrow> ctx_err option"
  nw_net4 :: net_env
  nw_net6 :: net_env
  nw_lib :: "'d upnp_lib"
  nw_upnp :: 'd
  nw_natpmp :: "net_ip \<Rightarrow> unit or_err"

text \<open>What the PCP probes of the network publish.\<close>

definition pcp_nats :: "'d network \<Rightarrow> ctx \<Rightarrow> 'd gateway list" where
  "pcp_nats nw ctx = map PcpGateway
     (nat_discoverPCP (nw_goos nw) (nw_router nw) (nw_ctx_err nw) (nw_net4 nw) (nw_net6 nw) ctx)"

definition pcp4_nats :: "'d network \<Rightarrow> ctx \<Rightarrow> 'd gateway list" where
  "pcp4_nats nw ctx = map PcpGateway (discoverPCPv4 (nw_goos nw) (nw_router nw) (nw_ctx_err nw) (nw_net4 nw) ctx)"

definition pcp6_clients :: "'d network \<Rightarrow> ctx \<Rightarrow> client list" where
  "pcp6_clients nw ctx = discoverPCPv6 (nw_goos nw) (nw_router nw) (nw_ctx_err nw) (nw_net6 nw) ctx"

text \<open>The arguments of the merge of fallbacks: what each channel carries, \<open>None\<close> for nil.\<close>

definition fallback_sources :: "'d network \<Rightarrow> ctx \<Rightarrow> 'd gateway list option list" where
  "fallback_sources nw ctx =
     [Some (map UpnpGateway (discoverUPNP_IG1 (nw_lib nw) ctx (nw_upnp nw))),
      Some (map UpnpGateway (discoverUPNP_IG2 (nw_lib nw) ctx (nw_upnp nw))),
      map_option (map UpnpGateway)
        (discoverUPNP_Unicast (nw_lib nw) (nw_goos nw) (nw_router nw) ctx (nw_upnp nw)),
      Some (map UpnpGateway (discoverUPNP_GenIGDev (nw_lib nw) ctx (nw_upnp nw))),
      map_option (map NatpmpGateway) (discoverNATPMP (nw_goos nw) (nw_router nw) (nw_natpmp nw) False)]"

text \<open>A goroutine that is late is a forwarder that is late to take its values.\<close>

definition sources_of :: "'n list option list \<Rightarrow> 'n chan option list" where
  "sources_of = map (map_option (\<lambda>vs. Chan vs True))"

definition discoverFallbackNATs :: "'d network \<Rightarrow> ctx \<Rightarrow> bool \<Rightarrow> 'd gateway merge" where
  "discoverFallbackNATs nw ctx cancelled = mergeNATs cancelled (sources_of (fallback_sources nw ctx))"

definition present :: "'n list option list \<Rightarrow> 'n list list" where
  "present sources = List.map_filter id sources"

lemma sources_present:
  "List.map_filter id (sources_of sources) = map (\<lambda>vs. Chan vs True) (present sources)"
  by (induction sources) (auto simp: sources_of_def present_def map_filter_simps split: option.split)

lemma sources_start:
  "source_pubs (mergeNATs cancelled (sources_of sources)) = present sources"
  "ended (mergeNATs cancelled (sources_of sources))"
  by (auto simp: source_pubs_def ended_def mergeNATs_def new_forwarder_def comp_def sources_present)

text \<open>A network whose gateway answers UPnP searches and NAT-PMP, where PCP does not answer in time.\<close>

definition home_ip :: net_ip where
  "home_ip = [192, 168, 1, 1]"

definition home_network :: "unit network" where
  "home_network =
     \<lparr>nw_goos = ''linux'', nw_router = Inr (\<lambda>_. Inr (None, Some home_ip, Some [192, 168, 1, 2])),
      nw_ctx_err = (\<lambda>ctx. if ctx = Caller then None else Some DeadlineExceeded),
      nw_net4 = silent_env, nw_net6 = silent_env, nw_lib = rogue_lib, nw_upnp = (),
      nw_natpmp = (\<lambda>_. Inr ())\<rparr>"

lemma home_sources:
  "\<exists>g. present (fallback_sources home_network Caller) =
     [[], [], [UpnpGateway g], [], [NatpmpGateway (new_natpmpNAT home_ip)]]"
  "pcp_nats home_network Caller = []" "pcp4_nats home_network Caller = []" "pcp6_clients home_network Caller = []"
proof -
  have a: "AddrFromSlice home_ip = Some (Addr4 0xC0A80101)" "addr_Unmap (Addr4 0xC0A80101) = Addr4 0xC0A80101"
    by (simp_all add: AddrFromSlice_def AddrFrom4_def addr_Unmap_def get_be_def be_nat_def home_ip_def)
  obtain g where "discoverUPNPUnicast rogue_lib Caller (Addr4 0xC0A80101, ssdpPort) () =
     (Inr g, [searchTargetIGDv2], [gateway_url_text], ())"
    using rogue_run by blast
  with a show "\<exists>g. present (fallback_sources home_network Caller) =
     [[], [], [UpnpGateway g], [], [NatpmpGateway (new_natpmpNAT home_ip)]]"
    by (simp add: present_def map_filter_simps fallback_sources_def home_network_def discoverUPNP_IG1_def
        discoverUPNP_IG2_def discoverUPNP_GenIGDev_def discoverUPNP_Unicast_def discoverUPNPUnicastWithAddr_def
        discoverNATPMP_def discoverNATPMPWithAddr_def getDefaultGateway_def rogue_lib_def)
  show "pcp_nats home_network Caller = []" "pcp4_nats home_network Caller = []" "pcp6_clients home_network Caller = []"
    by (simp_all add: pcp_nats_def pcp4_nats_def pcp6_clients_def nat_discoverPCP_def discoverPCPv4_def
        discoverPCPv6_def discovery_defs home_network_def published_def)
qed

section \<open>DiscoverNATs\<close>

text \<open>
  The two merges of \<open>DiscoverNATs\<close>: that of the fallbacks, whose channel is the first source of the other,
  and the one that the caller receives from, whose second source is the PCP probe.
\<close>

record 'n nats_search =
  ns_inner :: "'n merge"
  ns_outer :: "'n merge"

definition nats_start :: "'d network \<Rightarrow> ctx \<Rightarrow> bool \<Rightarrow> 'd gateway nats_search" where
  "nats_start nw ctx cancelled =
     \<lparr>ns_inner = discoverFallbackNATs nw ctx cancelled,
      ns_outer = mergeNATs cancelled [Some (Chan [] False), Some (Chan (pcp_nats nw ctx) True)]\<rparr>"

text \<open>
  A rendezvous on the unbuffered channel between them takes both: a forwarder of the inner merge that offers,
  and the first forwarder of the outer one, waiting, which then offers the same value to the caller. When
  the inner channel is closed that forwarder returns.
\<close>

inductive nats_step :: "'n nats_search \<Rightarrow> 'n nats_search \<Rightarrow> bool" where
  Inner: "merge_step (ns_inner s) i \<Longrightarrow> nats_step s (s\<lparr>ns_inner := i\<rparr>)"
| Transfer: "deliver (ns_inner s) i \<Longrightarrow> mg_out i = mg_out (ns_inner s) @ [(k, v)] \<Longrightarrow>
    fw_at (mg_fws (ns_outer s) ! 0) = Waiting \<Longrightarrow>
    nats_step s \<lparr>ns_inner = i,
      ns_outer = (fw_set 0 (\<lambda>w. w\<lparr>fw_pub := fw_pub w @ [v], fw_at := Offering\<rparr>) (ns_outer s))
        \<lparr>mg_offers := mg_offers (ns_outer s) @ [(0, v)]\<rparr>\<rparr>"
| Closed: "mg_closed (ns_inner s) \<Longrightarrow> fw_at (mg_fws (ns_outer s) ! 0) = Waiting \<Longrightarrow>
    nats_step s (s\<lparr>ns_outer := fw_set 0 (\<lambda>w. w\<lparr>fw_source := Chan [] True, fw_at := Returned\<rparr>) (ns_outer s)\<rparr>)"
| Outer: "merge_step (ns_outer s) m \<Longrightarrow> nats_step s (s\<lparr>ns_outer := m\<rparr>)"
| Receive: "deliver (ns_outer s) m \<Longrightarrow> nats_step s (s\<lparr>ns_outer := m\<rparr>)"

text \<open>The states of a call of \<open>DiscoverNATs\<close>; its context may end at any time.\<close>

inductive DiscoverNATs :: "'d network \<Rightarrow> ctx \<Rightarrow> 'd gateway nats_search \<Rightarrow> bool" for nw ctx where
  Start: "DiscoverNATs nw ctx (nats_start nw ctx cancelled)"
| Step: "DiscoverNATs nw ctx s \<Longrightarrow> nats_step s s' \<Longrightarrow> DiscoverNATs nw ctx s'"
| Cancel: "DiscoverNATs nw ctx s \<Longrightarrow>
    DiscoverNATs nw ctx \<lparr>ns_inner = (ns_inner s)\<lparr>mg_done := True\<rparr>, ns_outer = (ns_outer s)\<lparr>mg_done := True\<rparr>\<rparr>"

text \<open>
  Each merge by itself makes a run of \<open>Merge_NATs\<close>; what the inner one delivered is what was published
  to the first forwarder of the outer one.
\<close>

definition nats_inv :: "'n list option list \<Rightarrow> 'n list \<Rightarrow> 'n nats_search \<Rightarrow> bool" where
  "nats_inv sources pcp s \<longleftrightarrow>
     (\<exists>c. merge_run (mergeNATs c (sources_of sources)) (ns_inner s)) \<and>
     (\<exists>c. merge_run (mergeNATs c [Some (Chan [] False), Some (Chan pcp True)]) (ns_outer s)) \<and>
     mg_done (ns_inner s) = mg_done (ns_outer s) \<and>
     (\<exists>w0 w1. mg_fws (ns_outer s) = [w0, w1] \<and> fw_pub w0 = map snd (mg_out (ns_inner s)) \<and> ready (fw_source w0) = [] \<and>
        (closed (fw_source w0) \<longrightarrow> mg_closed (ns_inner s)) \<and>
        (fw_at w0 \<noteq> Returned \<longrightarrow> fw_source w0 = Chan [] False) \<and> fw_pub w1 = pcp \<and> closed (fw_source w1))"

lemma nats_inv_start: "nats_inv (fallback_sources nw ctx) (pcp_nats nw ctx) (nats_start nw ctx cancelled)"
  unfolding nats_inv_def nats_start_def discoverFallbackNATs_def
  by (auto intro: merge_run.Start simp: mergeNATs_def map_filter_simps new_forwarder_def)

lemma nats_inv_inner:
  assumes "nats_inv sources pcp s" and "merge_step (ns_inner s) i"
  shows "nats_inv sources pcp (s\<lparr>ns_inner := i\<rparr>)"
  using assms merge_step_inner [OF assms(2)] unfolding nats_inv_def by (auto intro: merge_run.Step)

lemma nats_inv_transfer:
  assumes "nats_inv sources pcp s" and "deliver (ns_inner s) i" and "mg_out i = mg_out (ns_inner s) @ [(k, v)]"
    and "fw_at (mg_fws (ns_outer s) ! 0) = Waiting"
  shows "nats_inv sources pcp \<lparr>ns_inner = i,
      ns_outer = (fw_set 0 (\<lambda>w. w\<lparr>fw_pub := fw_pub w @ [v], fw_at := Offering\<rparr>) (ns_outer s))
        \<lparr>mg_offers := mg_offers (ns_outer s) @ [(0, v)]\<rparr>\<rparr>"
proof -
  let ?o = "ns_outer s"
  from assms(1) obtain c c' w0 w1 where r: "merge_run (mergeNATs c (sources_of sources)) (ns_inner s)"
    "merge_run (mergeNATs c' [Some (Chan [] False), Some (Chan pcp True)]) ?o"
    and o: "mg_done (ns_inner s) = mg_done ?o" "mg_fws ?o = [w0, w1]" "fw_pub w0 = map snd (mg_out (ns_inner s))"
      "ready (fw_source w0) = []" "closed (fw_source w0) \<longrightarrow> mg_closed (ns_inner s)"
      "fw_at w0 \<noteq> Returned \<longrightarrow> fw_source w0 = Chan [] False" "fw_pub w1 = pcp" "closed (fw_source w1)"
    unfolding nats_inv_def by blast
  from assms(4) o have w0: "fw_source w0 = Chan [] False" "fw_at w0 = Waiting" by simp_all
  let ?o1 = "fw_set 0 (\<lambda>w. w\<lparr>fw_source := Chan ([] @ [v]) False, fw_pub := fw_pub w @ [v]\<rparr>) ?o"
  let ?o2 = "(fw_set 0 (\<lambda>w. w\<lparr>fw_source := Chan [] False, fw_at := Offering\<rparr>) ?o1)\<lparr>mg_offers := mg_offers ?o1 @ [(0, v)]\<rparr>"
  have "merge_run (mergeNATs c' [Some (Chan [] False), Some (Chan pcp True)]) ?o1"
    by (rule merge_run.Outside [OF r(2) source_step.Publish]) (use o(2) w0 in simp_all)
  then have "merge_run (mergeNATs c' [Some (Chan [] False), Some (Chan pcp True)]) ?o2"
    by (rule merge_run.Step [OF _ merge_step.Take]) (use o(2) w0 in \<open>auto intro: receive_simps\<close>)
  moreover have "?o2 = (fw_set 0 (\<lambda>w. w\<lparr>fw_pub := fw_pub w @ [v], fw_at := Offering\<rparr>) ?o)
      \<lparr>mg_offers := mg_offers ?o @ [(0, v)]\<rparr>" using o(2) w0 by (cases w0) simp
  ultimately have "merge_run (mergeNATs c' [Some (Chan [] False), Some (Chan pcp True)])
      ((fw_set 0 (\<lambda>w. w\<lparr>fw_pub := fw_pub w @ [v], fw_at := Offering\<rparr>) ?o)\<lparr>mg_offers := mg_offers ?o @ [(0, v)]\<rparr>)" by simp
  moreover have "merge_run (mergeNATs c (sources_of sources)) i" using r(1) assms(2) by (rule merge_run.Receive)
  ultimately show ?thesis
    unfolding nats_inv_def using deliver_inner [OF assms(2)] assms(3) o w0 by auto
qed

lemma nats_inv_closed:
  assumes "nats_inv sources pcp s" and "mg_closed (ns_inner s)" and "fw_at (mg_fws (ns_outer s) ! 0) = Waiting"
  shows "nats_inv sources pcp (s\<lparr>ns_outer := fw_set 0 (\<lambda>w. w\<lparr>fw_source := Chan [] True, fw_at := Returned\<rparr>) (ns_outer s)\<rparr>)"
proof -
  let ?o = "ns_outer s"
  from assms(1) obtain c c' w0 w1 where r: "merge_run (mergeNATs c (sources_of sources)) (ns_inner s)"
    "merge_run (mergeNATs c' [Some (Chan [] False), Some (Chan pcp True)]) ?o"
    and o: "mg_done (ns_inner s) = mg_done ?o" "mg_fws ?o = [w0, w1]" "fw_pub w0 = map snd (mg_out (ns_inner s))"
      "fw_at w0 \<noteq> Returned \<longrightarrow> fw_source w0 = Chan [] False" "fw_pub w1 = pcp" "closed (fw_source w1)"
    unfolding nats_inv_def by blast
  from assms(3) o have w0: "fw_source w0 = Chan [] False" "fw_at w0 = Waiting" by simp_all
  let ?o1 = "fw_set 0 (\<lambda>w. w\<lparr>fw_source := Chan [] True\<rparr>) ?o"
  let ?o2 = "fw_set 0 (\<lambda>w. w\<lparr>fw_at := Returned\<rparr>) ?o1"
  have "merge_run (mergeNATs c' [Some (Chan [] False), Some (Chan pcp True)]) ?o1"
    by (rule merge_run.Outside [OF r(2) source_step.End]) (use o(2) w0 in simp_all)
  then have "merge_run (mergeNATs c' [Some (Chan [] False), Some (Chan pcp True)]) ?o2"
    by (rule merge_run.Step [OF _ merge_step.Ended]) (use o(2) w0 in \<open>auto intro: receive_simps\<close>)
  moreover have "?o2 = fw_set 0 (\<lambda>w. w\<lparr>fw_source := Chan [] True, fw_at := Returned\<rparr>) ?o"
    using o(2) w0 by (cases w0) simp
  ultimately show ?thesis unfolding nats_inv_def using r(1) o w0 assms(2) by auto
qed

lemma two_update: "[a, b][i := c] = (if i = 0 then [c, b] else if i = 1 then [a, c] else [a, b])"
  by (cases i) (auto split: nat.split)

lemma less_2: "i < Suc (Suc 0) \<longleftrightarrow> i = 0 \<or> i = 1" by auto

lemma nats_inv_outer:
  assumes "nats_inv sources pcp s" and "merge_step (ns_outer s) m"
  shows "nats_inv sources pcp (s\<lparr>ns_outer := m\<rparr>)"
proof -
  let ?o = "ns_outer s"
  from assms(1) obtain c c' w0 w1 where r: "merge_run (mergeNATs c (sources_of sources)) (ns_inner s)"
    "merge_run (mergeNATs c' [Some (Chan [] False), Some (Chan pcp True)]) ?o"
    and o: "mg_done (ns_inner s) = mg_done ?o" "mg_fws ?o = [w0, w1]" "fw_pub w0 = map snd (mg_out (ns_inner s))"
      "ready (fw_source w0) = []" "closed (fw_source w0) \<longrightarrow> mg_closed (ns_inner s)"
      "fw_at w0 \<noteq> Returned \<longrightarrow> fw_source w0 = Chan [] False" "fw_pub w1 = pcp" "closed (fw_source w1)"
    unfolding nats_inv_def by blast
  have "\<exists>w0 w1. mg_fws m = [w0, w1] \<and> fw_pub w0 = map snd (mg_out (ns_inner s)) \<and> ready (fw_source w0) = [] \<and>
      (closed (fw_source w0) \<longrightarrow> mg_closed (ns_inner s)) \<and>
      (fw_at w0 \<noteq> Returned \<longrightarrow> fw_source w0 = Chan [] False) \<and> fw_pub w1 = pcp \<and> closed (fw_source w1)"
    using assms(2) o
    by (induction ?o m rule: merge_step.induct) (auto simp: two_update less_2 receive_cases split: if_splits)
  with r merge_run.Step [OF r(2) assms(2)] merge_step_inner [OF assms(2)] o(1) show ?thesis
    unfolding nats_inv_def by (simp) blast
qed

lemma nats_inv_receive:
  assumes "nats_inv sources pcp s" and "deliver (ns_outer s) m"
  shows "nats_inv sources pcp (s\<lparr>ns_outer := m\<rparr>)"
proof -
  let ?o = "ns_outer s"
  from assms(1) obtain c c' w0 w1 where r: "merge_run (mergeNATs c (sources_of sources)) (ns_inner s)"
    "merge_run (mergeNATs c' [Some (Chan [] False), Some (Chan pcp True)]) ?o"
    and o: "mg_done (ns_inner s) = mg_done ?o" "mg_fws ?o = [w0, w1]" "fw_pub w0 = map snd (mg_out (ns_inner s))"
      "ready (fw_source w0) = []" "closed (fw_source w0) \<longrightarrow> mg_closed (ns_inner s)"
      "fw_at w0 \<noteq> Returned \<longrightarrow> fw_source w0 = Chan [] False" "fw_pub w1 = pcp" "closed (fw_source w1)"
    unfolding nats_inv_def by blast
  have "\<exists>w0 w1. mg_fws m = [w0, w1] \<and> fw_pub w0 = map snd (mg_out (ns_inner s)) \<and> ready (fw_source w0) = [] \<and>
      (closed (fw_source w0) \<longrightarrow> mg_closed (ns_inner s)) \<and>
      (fw_at w0 \<noteq> Returned \<longrightarrow> fw_source w0 = Chan [] False) \<and> fw_pub w1 = pcp \<and> closed (fw_source w1)"
    using assms(2)
  proof (cases rule: deliver.cases)
    case (Deliver i v vs)
    from Deliver(2) merge_inv_run [OF r(2)] o(2) have "i = 0 \<or> i = 1" by (auto simp: merge_inv_def less_2)
    moreover have "fw_at (mg_fws ?o ! i) = Offering"
      using fw_ok_deliver [of "mg_fws ?o ! i"] merge_inv_nth [OF merge_inv_run [OF r(2)], of i] Deliver(2) calculation o(2)
      by fastforce
    ultimately show ?thesis using Deliver(1) o by (auto simp: two_update)
  qed
  with r merge_run.Receive [OF r(2) assms(2)] deliver_inner [OF assms(2)] o(1) show ?thesis
    unfolding nats_inv_def by (simp) blast
qed

lemma nats_inv_step: "nats_step s s' \<Longrightarrow> nats_inv sources pcp s \<Longrightarrow> nats_inv sources pcp s'"
  by (induction rule: nats_step.induct)
    (auto intro: nats_inv_inner nats_inv_transfer nats_inv_closed nats_inv_outer nats_inv_receive)

lemma nats_inv_run: "DiscoverNATs nw ctx s \<Longrightarrow> nats_inv (fallback_sources nw ctx) (pcp_nats nw ctx) s"
proof (induction rule: DiscoverNATs.induct)
  case (Cancel s)
  have "merge_run m0 m \<Longrightarrow> merge_run m0 (m\<lparr>mg_done := True\<rparr>)" for m0 m :: "'a gateway merge"
    by (rule merge_run.Outside [OF _ source_step.Cancel])
  with Cancel.IH show ?case unfolding nats_inv_def by simp blast
qed (auto intro: nats_inv_start nats_inv_step)

section \<open>Closing\<close>

definition nats_work :: "'n nats_search \<Rightarrow> nat" where
  "nats_work s = 2 * merge_work (ns_inner s) + merge_work (ns_outer s)"

lemma nats_step_work:
  assumes "nats_step s s'" and "nats_inv sources pcp s"
  shows "nats_work s' < nats_work s"
proof -
  from assms(2) obtain w0 w1 where inv: "merge_inv (ns_inner s)" "merge_inv (ns_outer s)" "mg_fws (ns_outer s) = [w0, w1]"
    "ready (fw_source w0) = []"
    unfolding nats_inv_def using merge_inv_run by blast
  from assms(1) show ?thesis
  proof (cases rule: nats_step.cases)
    case (Inner i)
    with merge_step_work [OF Inner(2)] show ?thesis by (simp add: nats_work_def)
  next
    case (Transfer i k v)
    with deliver_work [OF Transfer(2) inv(1)] inv(3,4) show ?thesis
      by (simp add: nats_work_def merge_work_def fw_work_def)
  next
    case Closed
    with inv(3) show ?thesis by (simp add: nats_work_def merge_work_def fw_work_def)
  next
    case (Outer m)
    with merge_step_work [OF Outer(2)] show ?thesis by (simp add: nats_work_def)
  next
    case (Receive m)
    with deliver_work [OF Receive(2) inv(2)] show ?thesis by (simp add: nats_work_def)
  qed
qed

lemma nats_progress:
  assumes "nats_inv sources pcp s" and "\<not> mg_closed (ns_outer s)"
  shows "\<exists>s'. nats_step s s'"
proof -
  let ?o = "ns_outer s" and ?i = "ns_inner s"
  from assms(1) obtain c c' w0 w1 where r: "merge_run (mergeNATs c (sources_of sources)) ?i"
    "merge_run (mergeNATs c' [Some (Chan [] False), Some (Chan pcp True)]) ?o"
    and o: "mg_done ?i = mg_done ?o" "mg_fws ?o = [w0, w1]" "closed (fw_source w1)"
    unfolding nats_inv_def by blast
  note inv = merge_inv_run [OF r(1)] merge_inv_run [OF r(2)]
  show ?thesis
  proof (cases "mg_done ?o")
    case True
    from merge_progress [OF inv(2) True assms(2)] show ?thesis by (blast intro: nats_step.Outer)
  next
    case False
    show ?thesis
    proof (cases "mg_offers ?o")
      case (Cons x xs)
      then show ?thesis by (metis deliver.Deliver nats_step.Receive surj_pair)
    next
      case Nil
      then have "fw_at w0 \<noteq> Offering" "fw_at w1 \<noteq> Offering"
        using merge_inv_nth [OF inv(2), of 0] merge_inv_nth [OF inv(2), of 1] o(2) by (auto simp: fw_ok_def)
      then consider "fw_at w1 = Waiting" | "fw_at w0 = Waiting" | "\<forall>w \<in> set (mg_fws ?o). fw_at w = Returned"
        using o(2) by (cases "fw_at w0"; cases "fw_at w1") auto
      then show ?thesis
      proof cases
        case 1
        obtain v ch where "receive (fw_source w1) = Some (v, ch)"
          using o(3) by (metis not_None_eq receive_None_iff surj_pair)
        then have "\<exists>m. merge_step ?o m"
          using merge_step.Take [of 1 ?o _ ch] merge_step.Ended [of 1 ?o ch] 1 o(2) by (cases v) auto
        then show ?thesis by (blast intro: nats_step.Outer)
      next
        case 2
        with o(2) have at0: "fw_at (mg_fws ?o ! 0) = Waiting" by simp
        show ?thesis
        proof (cases "mg_closed ?i")
          case True
          with at0 show ?thesis by (blast intro: nats_step.Closed)
        next
          case open_chan: False
          have "draining ?i"
            using inv(1) False o(1) merge_pubs_fixed [OF r(1) sources_start(2)] by (simp add: draining_def ended_def)
          from draining_progress [OF this open_chan] obtain i where "merge_step ?i i \<or> deliver ?i i"
            by (auto simp: drain_step_def)
          then show ?thesis
          proof
            assume d: "deliver ?i i"
            then obtain k v where "mg_out i = mg_out ?i @ [(k, v)]" by cases simp
            from nats_step.Transfer [OF d this at0] show ?thesis by blast
          qed (blast intro: nats_step.Inner)
        qed
      next
        case 3
        with assms(2) show ?thesis by (blast intro: merge_step.Close nats_step.Outer)
      qed
    qed
  qed
qed

section \<open>What is delivered\<close>

lemma nats_delivered:
  assumes "nats_inv sources pcp s"
  shows "mset (map snd (mg_out (ns_outer s))) \<subseteq># sum_list (map mset (present sources)) + mset pcp"
    and "mg_closed (ns_outer s) \<Longrightarrow> \<not> mg_done (ns_outer s) \<Longrightarrow>
      mset (map snd (mg_out (ns_outer s))) = sum_list (map mset (present sources)) + mset pcp"
proof -
  let ?o = "ns_outer s" and ?i = "ns_inner s"
  from assms obtain c c' w0 w1 where r: "merge_run (mergeNATs c (sources_of sources)) ?i"
    "merge_run (mergeNATs c' [Some (Chan [] False), Some (Chan pcp True)]) ?o"
    and o: "mg_done ?i = mg_done ?o" "mg_fws ?o = [w0, w1]" "fw_pub w0 = map snd (mg_out ?i)" "fw_pub w1 = pcp"
      "closed (fw_source w0) \<longrightarrow> mg_closed ?i"
    unfolding nats_inv_def by blast
  have inner: "source_pubs ?i = present sources"
    using merge_pubs_fixed [OF r(1) sources_start(2)] sources_start(1) by metis
  have outer: "sum_list (map mset (source_pubs ?o)) = mset (map snd (mg_out ?i)) + mset pcp"
    using o(2-4) by (simp add: source_pubs_def)
  from merge_sub [OF r(2)] merge_sub [OF r(1)]
  show "mset (map snd (mg_out ?o)) \<subseteq># sum_list (map mset (present sources)) + mset pcp"
    unfolding inner outer by (meson subset_mset.add_right_mono subset_mset.order_trans)
  assume fin: "mg_closed ?o" "\<not> mg_done ?o"
  from merge_complete(3) [OF r(2) fin] have all: "mset (map snd (mg_out ?o)) = sum_list (map mset (source_pubs ?o))"
    by (simp only: sum_pubs)
  from merge_complete(1) [OF r(2) fin] o(2,5) have "mg_closed ?i" by simp
  moreover from fin(2) o(1) have "\<not> mg_done ?i" by simp
  ultimately have "mset (map snd (mg_out ?i)) = sum_list (map mset (present sources))"
    using merge_complete(3) [OF r(1), unfolded sum_pubs inner] by blast
  with all outer show "mset (map snd (mg_out ?o)) = sum_list (map mset (present sources)) + mset pcp" by simp
qed

text \<open>Everything that the search finds, written out.\<close>

definition all_found :: "'d network \<Rightarrow> ctx \<Rightarrow> 'd gateway multiset" where
  "all_found nw ctx =
     mset (map UpnpGateway (discoverUPNP_IG1 (nw_lib nw) ctx (nw_upnp nw))) +
     mset (map UpnpGateway (discoverUPNP_IG2 (nw_lib nw) ctx (nw_upnp nw))) +
     (case discoverUPNP_Unicast (nw_lib nw) (nw_goos nw) (nw_router nw) ctx (nw_upnp nw) of
        None \<Rightarrow> {#} | Some gs \<Rightarrow> mset (map UpnpGateway gs)) +
     mset (map UpnpGateway (discoverUPNP_GenIGDev (nw_lib nw) ctx (nw_upnp nw))) +
     (case discoverNATPMP (nw_goos nw) (nw_router nw) (nw_natpmp nw) False of
        None \<Rightarrow> {#} | Some gs \<Rightarrow> mset (map NatpmpGateway gs)) +
     mset (map PcpGateway (nat_discoverPCP (nw_goos nw) (nw_router nw) (nw_ctx_err nw) (nw_net4 nw) (nw_net6 nw) ctx))"

lemma all_found_sources: "sum_list (map mset (present (fallback_sources nw ctx))) + mset (pcp_nats nw ctx) = all_found nw ctx"
  unfolding fallback_sources_def present_def pcp_nats_def all_found_def
  by (cases "discoverUPNP_Unicast (nw_lib nw) (nw_goos nw) (nw_router nw) ctx (nw_upnp nw)";
      cases "discoverNATPMP (nw_goos nw) (nw_router nw) (nw_natpmp nw) False")
    (simp_all add: map_filter_simps)

text \<open>
  C19. \<open>DiscoverNATs\<close> returns all NATs. At every moment what the caller has received are gateways that
  its sources found, each at most as often as it was found: by the two UPnP multicast searches, the unicast
  search, the one for generic devices, NAT-PMP and PCP. As long as somebody receives, the channel is
  closed, whatever the schedule, after a number of steps that is known from the start, also if the context
  ends meanwhile; and when it is closed without the context having ended, everything was received.
\<close>

theorem discover_nats_complete:
  fixes nw :: "'d network"
  assumes "DiscoverNATs nw ctx s"
  shows "let delivered = (\<lambda>s :: 'd gateway nats_search. mset (map snd (mg_out (ns_outer s))));
      found = mset (map UpnpGateway (discoverUPNP_IG1 (nw_lib nw) ctx (nw_upnp nw))) +
        mset (map UpnpGateway (discoverUPNP_IG2 (nw_lib nw) ctx (nw_upnp nw))) +
        (case discoverUPNP_Unicast (nw_lib nw) (nw_goos nw) (nw_router nw) ctx (nw_upnp nw) of
           None \<Rightarrow> {#} | Some gs \<Rightarrow> mset (map UpnpGateway gs)) +
        mset (map UpnpGateway (discoverUPNP_GenIGDev (nw_lib nw) ctx (nw_upnp nw))) +
        (case discoverNATPMP (nw_goos nw) (nw_router nw) (nw_natpmp nw) False of
           None \<Rightarrow> {#} | Some gs \<Rightarrow> mset (map NatpmpGateway gs)) +
        mset (map PcpGateway (nat_discoverPCP (nw_goos nw) (nw_router nw) (nw_ctx_err nw) (nw_net4 nw) (nw_net6 nw) ctx))
    in delivered s \<subseteq># found \<and>
       (mg_closed (ns_outer s) \<longrightarrow> mg_done (ns_outer s) \<or> delivered s = found) \<and>
       (\<exists>s'. nats_step\<^sup>*\<^sup>* s s' \<and> mg_closed (ns_outer s')) \<and>
       (\<forall>k s'. (nats_step ^^ k) s s' \<longrightarrow> k \<le> nats_work s \<and> (mg_closed (ns_outer s') \<or> (\<exists>s''. nats_step s' s'')))"
proof -
  let ?P = "nats_inv (fallback_sources nw ctx) (pcp_nats nw ctx)"
  have start: "?P s" using assms by (rule nats_inv_run)
  have down: "?P s' \<and> nats_work s' < nats_work s" if "?P s" "nats_step s s'" for s s'
    using that nats_inv_step nats_step_work by metis
  have progress: "\<exists>s'. nats_step s s'" if "?P s" "\<not> mg_closed (ns_outer s)" for s
    using that by (rule nats_progress)
  have "\<exists>s'. nats_step\<^sup>*\<^sup>* s s' \<and> ?P s' \<and> mg_closed (ns_outer s')"
    by (rule runs_to_end(1) [where size = nats_work]) (fact down | fact progress | fact start)+
  then have "\<exists>s'. nats_step\<^sup>*\<^sup>* s s' \<and> mg_closed (ns_outer s')" by blast
  moreover have "k \<le> nats_work s \<and> ?P s' \<and> (mg_closed (ns_outer s') \<or> (\<exists>s''. nats_step s' s''))"
    if "(nats_step ^^ k) s s'" for k s'
    by (rule runs_to_end(2) [where F = "\<lambda>s. mg_closed (ns_outer s)"]) (fact down | fact progress | fact start | fact that)+
  ultimately show ?thesis
    using nats_delivered [OF start, unfolded all_found_sources] unfolding Let_def all_found_def by blast
qed

theorem discover_nats_complete_witness:
  "\<exists>s g. nats_step\<^sup>*\<^sup>* (nats_start home_network Caller False) s \<and> mg_closed (ns_outer s) \<and>
     mset (map snd (mg_out (ns_outer s))) = {#UpnpGateway g, NatpmpGateway (new_natpmpNAT home_ip)#}"
proof -
  note start = DiscoverNATs.Start [of home_network Caller False]
  from discover_nats_complete [OF start] obtain s where
    s: "nats_step\<^sup>*\<^sup>* (nats_start home_network Caller False) s" "mg_closed (ns_outer s)"
    unfolding Let_def by blast
  from s(1) have "DiscoverNATs home_network Caller s \<and> mg_done (ns_outer s) = mg_done (ns_outer (nats_start home_network Caller False))"
  proof (induction rule: rtranclp_induct)
    case (step s s')
    have "mg_done (ns_outer s') = mg_done (ns_outer s)"
      using step.hyps(2) by cases (auto dest: merge_step_inner deliver_inner)
    with step DiscoverNATs.Step show ?case by metis
  qed (simp add: start)
  then have run: "DiscoverNATs home_network Caller s" and "\<not> mg_done (ns_outer s)"
    by (simp_all add: nats_start_def mergeNATs_def)
  obtain g where g: "present (fallback_sources home_network Caller) =
     [[], [], [UpnpGateway g], [], [NatpmpGateway (new_natpmpNAT home_ip)]]" using home_sources(1) by blast
  from all_found_sources [of home_network Caller, unfolded g home_sources(2)]
  have "all_found home_network Caller = {#UpnpGateway g, NatpmpGateway (new_natpmpNAT home_ip)#}" by (simp add: add_mset_commute)
  with discover_nats_complete [OF run] s(2) \<open>\<not> mg_done (ns_outer s)\<close>
  have "mset (map snd (mg_out (ns_outer s))) = {#UpnpGateway g, NatpmpGateway (new_natpmpNAT home_ip)#}"
    unfolding Let_def all_found_def by simp
  with s show ?thesis by blast
qed

end
