(* ===== verification/Discover_Gateway.thy ===== *)
theory Discover_Gateway
  imports Discover_NATs
begin

text \<open>
  \<open>DiscoverGateway\<close> of \<open>nat.go\<close>: the sources, the merging of their channels and the selection, with the
  steps of all of them interleaved.
\<close>

section \<open>Selection and merging together\<close>

text \<open>The channel of a merge as its receiver sees it.\<close>

definition view :: "'n merge \<Rightarrow> 'n chan" where
  "view m = Chan (map snd (mg_offers m)) (mg_closed m)"

text \<open>What the receiver \<open>s\<close> observes of a step of the goroutines, while its channel is not nil.\<close>

definition observe :: "'n merge \<Rightarrow> 'n merge \<Rightarrow> ('n, 'p) sel \<Rightarrow> ('n, 'p) sel" where
  "observe m m' s =
     (if sl_fallbacks s = None then s
      else s\<lparr>sl_fallbacks := Some (view m'),
             sl_pubF := sl_pubF s @ map snd (drop (length (mg_offers m)) (mg_offers m')),
             sl_endF := mg_closed m',
             sl_withdrawn := sl_withdrawn s \<or> length (mg_offers m') < length (mg_offers m)\<rparr>)"

text \<open>
  \<open>selectGateway\<close> against the merge of its fallbacks: a receive of a fallback is a rendezvous with a
  forwarder, the context is shared, and the PCP probes publish what \<open>p4\<close> and \<open>p6\<close> hold before they
  close their channels.
\<close>

inductive gateway_run ::
  "'n list \<Rightarrow> 'p list \<Rightarrow> 'n list option list \<Rightarrow> ('n, 'p) sel \<Rightarrow> 'n merge \<Rightarrow> bool" for p4 p6 sources where
  Start: "gateway_run p4 p6 sources (select_start c) (mergeNATs c (sources_of sources))"
| Own: "gateway_run p4 p6 sources s m \<Longrightarrow> select_step s s' \<Longrightarrow>
    sl_fallbacks s' = sl_fallbacks s \<or> sl_fallbacks s' = None \<Longrightarrow> gateway_run p4 p6 sources s' m"
| Fallback: "gateway_run p4 p6 sources s m \<Longrightarrow> select_step s s' \<Longrightarrow> deliver m m' \<Longrightarrow>
    sl_fallbacks s' = Some (view m') \<Longrightarrow> gateway_run p4 p6 sources s' m'"
| Merge: "gateway_run p4 p6 sources s m \<Longrightarrow> merge_step m m' \<Longrightarrow> gateway_run p4 p6 sources (observe m m' s) m'"
| Probe: "gateway_run p4 p6 sources s m \<Longrightarrow> outside_step s s' \<Longrightarrow>
    sl_fallbacks s' = sl_fallbacks s \<Longrightarrow> sl_expired s' = sl_expired s \<Longrightarrow>
    prefix (sl_pub4 s') p4 \<Longrightarrow> (sl_end4 s' \<longrightarrow> sl_pub4 s' = p4) \<Longrightarrow>
    prefix (sl_pub6 s') p6 \<Longrightarrow> (sl_end6 s' \<longrightarrow> sl_pub6 s' = p6) \<Longrightarrow> gateway_run p4 p6 sources s' m"
| Deadline: "gateway_run p4 p6 sources s m \<Longrightarrow>
    gateway_run p4 p6 sources (s\<lparr>sl_expired := True\<rparr>) (m\<lparr>mg_done := True\<rparr>)"

definition coupled :: "('n, 'p) sel \<Rightarrow> 'n merge \<Rightarrow> bool" where
  "coupled s m \<longleftrightarrow>
     sl_expired s = mg_done m \<and> set (map snd (mg_out m)) \<subseteq> set (sl_pubF s) \<and>
     set (sl_pubF s) \<subseteq> set (concat (source_pubs m)) \<and> (sl_endF s \<longrightarrow> mg_closed m) \<and>
     (\<forall>ch. sl_fallbacks s = Some ch \<longrightarrow>
        ch = view m \<and> set (map snd (mg_offers m)) \<subseteq> set (sl_pubF s) \<and> sl_endF s = mg_closed m)"

lemma observe_cases:
  assumes "merge_step m m'" and "merge_inv m" and "coupled s m"
  shows "observe m m' s = s \<or> outside_step s (observe m m' s)"
proof (cases "sl_fallbacks s")
  case (Some ch)
  with assms(3) have s: "sl_fallbacks s = Some (view m)" "sl_endF s = mg_closed m" "sl_expired s = mg_done m"
    by (auto simp: coupled_def)
  have open_if: "\<not> mg_closed m" if "i < length (mg_fws m)" "fw_at (mg_fws m ! i) \<noteq> Returned" for i
    using that assms(2) by (auto simp: merge_inv_def)
  from assms(1) s open_if show ?thesis
  proof (induction rule: merge_step.induct)
    case (Take i m v ch)
    then have "\<not> mg_closed m" by force
    with Take have "outside_step s
        (s\<lparr>sl_fallbacks := Some (Chan (map snd (mg_offers m) @ [v]) False), sl_pubF := sl_pubF s @ [v]\<rparr>)"
      by (intro outside_step.PublishF) (simp add: view_def)
    with Take \<open>\<not> mg_closed m\<close> show ?case by (cases s) (simp add: observe_def view_def)
  next
    case (Ended i m ch)
    then show ?case by (cases s) (simp add: observe_def view_def)
  next
    case (Leave i m)
    then show ?case by (cases s) (simp add: observe_def view_def)
  next
    case (Withdraw i m us v vs)
    then have "\<not> mg_closed m" by force
    with Withdraw have "outside_step s
        (s\<lparr>sl_fallbacks := Some (Chan (map snd us @ map snd vs) False), sl_withdrawn := True\<rparr>)"
      by (intro outside_step.WithdrawF [where v = v]) (simp_all add: view_def)
    with Withdraw \<open>\<not> mg_closed m\<close> show ?case by (cases s) (simp add: observe_def view_def)
  next
    case (Close m)
    then have "outside_step s (s\<lparr>sl_fallbacks := Some (Chan (map snd (mg_offers m)) True), sl_endF := True\<rparr>)"
      by (intro outside_step.CloseF) (simp add: view_def)
    with Close show ?case by (cases s) (simp add: observe_def view_def)
  qed
qed (simp add: observe_def)

lemma taken_published:
  assumes "merge_inv m" and "i < length (mg_fws m)" and "fw_at (mg_fws m ! i) = Waiting"
    and "receive (fw_source (mg_fws m ! i)) = Some (Some v, ch)"
  shows "v \<in> set (concat (source_pubs m))"
proof -
  from merge_inv_nth [OF assms(1,2)] assms(3,4) have "v \<in> set (fw_pub (mg_fws m ! i))"
    by (auto simp: fw_ok_def receive_cases)
  with assms(2) show ?thesis by (auto simp: source_pubs_def intro: nth_mem)
qed

lemma coupled_merge:
  assumes "merge_step m m'" and "merge_inv m" and "coupled s m" and "source_pubs m' = source_pubs m"
  shows "coupled (observe m m' s) m'"
  using assms
proof (induction rule: merge_step.induct)
  case (Take i m v ch)
  from taken_published [OF Take.prems(1) Take.hyps] Take.prems show ?case
    by (auto simp: coupled_def observe_def image_subset_iff)
qed (auto simp: coupled_def observe_def image_subset_iff)

lemma probe_pubF:
  "outside_step s s' \<Longrightarrow> sl_fallbacks s' = sl_fallbacks s \<Longrightarrow> sl_pubF s' = sl_pubF s \<and> sl_endF s' = sl_endF s"
  by (induction rule: outside_step.induct) auto

lemma select_step_pubF: "select_step s s' \<Longrightarrow> sl_pubF s' = sl_pubF s \<and> sl_endF s' = sl_endF s"
  by (induction rule: select_step.induct) auto

lemma coupled_deliver:
  assumes "deliver m m'" and "coupled s m" and "select_step s s'"
    and "sl_fallbacks s' = Some (view m')" and "source_pubs m' = source_pubs m"
  shows "coupled s' m'"
proof -
  from select_step_pubF [OF assms(3)] select_step_expired [OF assms(3)]
  have pub: "sl_pubF s' = sl_pubF s" "sl_endF s' = sl_endF s" "sl_expired s' = sl_expired s" by auto
  from assms(3,4) obtain ch where "sl_fallbacks s = Some ch"
    by (induction rule: select_step.induct) auto
  from assms(1) this assms(2,4,5) pub show ?thesis
    by (induction rule: deliver.induct) (auto simp: coupled_def image_subset_iff)
qed

text \<open>
  Every run of the two together is a run of the selection, to which the merge is one of the fallback
  sources it allows for, and a run of the merge.
\<close>

lemma gateway_run_simulates:
  assumes "gateway_run p4 p6 sources s m"
  shows "select_run s \<and> (\<exists>c. merge_run (mergeNATs c (sources_of sources)) m) \<and> coupled s m \<and>
    source_pubs m = present sources"
  using assms
proof (induction rule: gateway_run.induct)
  case (Start c)
  have "coupled (select_start c) (mergeNATs c (sources_of sources))"
    by (simp add: coupled_def select_start_def mergeNATs_def view_def)
  moreover have "merge_run (mergeNATs c (sources_of sources)) (mergeNATs c (sources_of sources))"
    by (rule merge_run.Start)
  ultimately show ?case using select_run.Start [of c] sources_start(1) [of c sources] by blast
next
  case (Own s m s')
  have eqs: "sl_pubF s' = sl_pubF s" "sl_endF s' = sl_endF s" "sl_expired s' = sl_expired s"
    using select_step_pubF [OF Own.hyps(2)] select_step_expired [OF Own.hyps(2)] by simp_all
  from Own.IH have "coupled s m" by simp
  with Own.hyps(3) have "coupled s' m" unfolding coupled_def eqs by (elim disjE) simp_all
  moreover have "select_run s'" using Own.IH Own.hyps(2) by (meson select_run.Select)
  ultimately show ?case using Own.IH by simp
next
  case (Fallback s m s' m')
  from Fallback.IH obtain c where "merge_run (mergeNATs c (sources_of sources)) m" by blast
  then have run: "merge_run (mergeNATs c (sources_of sources)) m'" using Fallback.hyps(3) by (rule merge_run.Receive)
  from merge_pubs_fixed [OF this sources_start(2)] sources_start(1) have "source_pubs m' = present sources" by metis
  moreover from this Fallback.IH coupled_deliver [OF Fallback.hyps(3) _ Fallback.hyps(2,4)] have "coupled s' m'" by simp
  moreover have "select_run s'" using Fallback.IH Fallback.hyps(2) by (meson select_run.Select)
  ultimately show ?case using run by blast
next
  case (Merge s m m')
  then obtain c where run: "merge_run (mergeNATs c (sources_of sources)) m" by blast
  then have run': "merge_run (mergeNATs c (sources_of sources)) m'" using Merge.hyps(2) by (rule merge_run.Step)
  from merge_pubs_fixed [OF this sources_start(2)] sources_start(1) have pubs: "source_pubs m' = present sources" by metis
  note inv = merge_inv_run [OF run]
  from observe_cases [OF Merge.hyps(2) inv] Merge.IH have "select_run (observe m m' s)"
    by (metis select_run.Outside)
  with coupled_merge [OF Merge.hyps(2) inv] Merge.IH run' pubs show ?case by metis
next
  case (Probe s m s')
  from Probe.IH have "coupled s m" by simp
  then have "coupled s' m" using probe_pubF [OF Probe.hyps(2,3)] Probe.hyps(3,4) by (simp add: coupled_def)
  moreover have "select_run s'" using Probe.IH Probe.hyps(2) by (meson select_run.Outside)
  ultimately show ?case using Probe.IH by simp
next
  case (Deadline s m)
  from Deadline.IH obtain c where run: "merge_run (mergeNATs c (sources_of sources)) m" by blast
  have "merge_run (mergeNATs c (sources_of sources)) (m\<lparr>mg_done := True\<rparr>)"
    by (rule merge_run.Outside [OF run source_step.Cancel])
  moreover from Deadline.IH have "coupled s m" by simp
  then have "coupled (s\<lparr>sl_expired := True\<rparr>) (m\<lparr>mg_done := True\<rparr>)"
    by (simp add: coupled_def view_def source_pubs_def)
  moreover from Deadline.IH have "source_pubs (m\<lparr>mg_done := True\<rparr>) = present sources" by (simp add: source_pubs_def)
  moreover from Deadline.IH have "select_run s" by simp
  then have "select_run (s\<lparr>sl_expired := True\<rparr>)" by (rule select_run.Outside [OF _ outside_step.Expire])
  ultimately show ?case by blast
qed

text \<open>The probes publish the beginning of what they hold.\<close>

lemma select_step_probes:
  "select_step s s' \<Longrightarrow> sl_pub4 s' = sl_pub4 s \<and> sl_pub6 s' = sl_pub6 s \<and> sl_end4 s' = sl_end4 s \<and> sl_end6 s' = sl_end6 s"
  by (induction rule: select_step.induct) auto

definition probes_ok :: "'n list \<Rightarrow> 'p list \<Rightarrow> ('n, 'p) sel \<Rightarrow> bool" where
  "probes_ok p4 p6 s \<longleftrightarrow> prefix (sl_pub4 s) p4 \<and> (sl_end4 s \<longrightarrow> sl_pub4 s = p4) \<and>
     prefix (sl_pub6 s) p6 \<and> (sl_end6 s \<longrightarrow> sl_pub6 s = p6)"

lemma gateway_run_probes: "gateway_run p4 p6 sources s m \<Longrightarrow> probes_ok p4 p6 s"
proof (induction rule: gateway_run.induct)
  case (Start c)
  show ?case by (simp add: probes_ok_def select_start_def)
next
  case (Own s m s')
  then show ?case using select_step_probes [OF Own.hyps(2)] by (simp add: probes_ok_def)
next
  case (Fallback s m s' m')
  then show ?case using select_step_probes [OF Fallback.hyps(2)] by (simp add: probes_ok_def)
qed (simp_all add: probes_ok_def observe_def)

lemma first_prefix: "prefix xs ys \<Longrightarrow> xs \<noteq> [] \<or> xs = ys \<Longrightarrow> first xs = first ys"
  by (cases xs) (auto simp: prefix_def)

text \<open>What \<open>DiscoverGateway\<close> can return, and whether its context was done by then.\<close>

inductive DiscoverGateway ::
  "'d network \<Rightarrow> ctx \<Rightarrow> ctx_err \<Rightarrow> bool \<Rightarrow> ('d gateway, client) selected or_err \<Rightarrow> bool" for nw ctx e where
  "gateway_run (pcp4_nats nw ctx) (pcp6_clients nw ctx) (fallback_sources nw ctx) s m \<Longrightarrow>
   finished s \<Longrightarrow> DiscoverGateway nw ctx e (sl_expired s) (select_result e s)"

lemma gateway_run_result:
  assumes run: "gateway_run p4 p6 sources s m" and fin: "finished s" and live: "\<not> sl_expired s"
  shows "case first p4 of
      Some g \<Rightarrow> select_result e s = Inr (with_pinholes (first p6) g)
    | None \<Rightarrow>
        if concat (present sources) = [] then select_result e s = Inl nat_ErrNoNATFound
        else \<exists>g \<in> set (concat (present sources)). select_result e s = Inr (with_pinholes (first p6) g)"
proof -
  from gateway_run_simulates [OF run] obtain c where sel: "select_run s" "coupled s m"
    and merge: "merge_run (mergeNATs c (sources_of sources)) m" "source_pubs m = present sources" by blast
  note probes = gateway_run_probes [OF run, unfolded probes_ok_def] and heard = select_hears [OF sel(1) fin live]
  have firsts: "first (sl_pub4 s) = first p4" "first (sl_pub6 s) = first p6"
    using probes heard(1,2) first_prefix [of "sl_pub4 s" p4] first_prefix [of "sl_pub6 s" p6] by blast+
  have calm: "\<not> sl_withdrawn s" using select_inv_run [OF sel(1)] live by (auto simp: select_inv_def)
  have pubs: "\<not> mg_done m" "set (map snd (mg_out m)) \<subseteq> set (sl_pubF s)"
    "set (sl_pubF s) \<subseteq> set (concat (present sources))" "sl_endF s \<longrightarrow> mg_closed m"
    using sel(2) live unfolding coupled_def merge(2) by simp_all
  note outcome = select_outcome [OF sel(1) fin, of e, unfolded firsts]
  show ?thesis
  proof (cases "first p4")
    case None
    show ?thesis
    proof (cases "sl_pubF s")
      case Nil
      with None outcome calm live have err: "select_result e s = Inl nat_ErrNoNATFound" by (simp add: nothing_found_def)
      with heard(3) have "sl_endF s" by blast
      with pubs have closed: "mg_closed m" by simp
      from pubs(2) Nil have "mset (map snd (mg_out m)) = {#}" by simp
      with merge_complete(3) [OF merge(1) closed pubs(1)]
      have "(\<Sum>i < length (mg_fws m). mset (fw_pub (mg_fws m ! i))) = {#}" by simp
      then have "fw_pub w = []" if "w \<in> set (mg_fws m)" for w
        using that by (auto simp: in_set_conv_nth sum_eq_empty_iff)
      then have "concat (present sources) = []" by (auto simp: source_pubs_def simp flip: merge(2))
      with None err show ?thesis by simp
    next
      case (Cons g gs)
      with None outcome calm have "select_result e s = Inr (with_pinholes (first p6) g)" by simp
      moreover from Cons pubs(3) have "g \<in> set (concat (present sources))" by simp
      ultimately show ?thesis using None by (cases "concat (present sources) = []") (simp, auto)
    qed
  qed (use outcome in simp)
qed

section \<open>The search returns\<close>

lemma not_finished:
  "sl_pcp4s s = Some c \<Longrightarrow> \<not> finished s" "sl_pcp6s s = Some c' \<Longrightarrow> \<not> finished s"
  "sl_fallbacks s = Some c \<Longrightarrow> gs_pcp4 (sl_found s) = None \<Longrightarrow> gs_fallback (sl_found s) = None \<Longrightarrow> \<not> finished s"
  by (auto simp: finished_def settled_def all_nil_def)

text \<open>A probe that is still to publish can be heard out.\<close>

lemma run_probe4:
  assumes run: "gateway_run p4 p6 sources s m" and "sl_pcp4s s = Some (Chan [] False)"
    and "sl_pub4 s = []" and "\<not> sl_end4 s"
  obtains s' where "gateway_run p4 p6 sources s' m" "sl_pcp4s s' = None" "sl_pcp6s s' = sl_pcp6s s"
    "sl_fallbacks s' = sl_fallbacks s" "sl_found s' = keepPCPv4 (first p4) (sl_found s)"
    "sl_pub6 s' = sl_pub6 s" "sl_end6 s' = sl_end6 s" "sl_expired s' = sl_expired s"
proof (cases p4)
  case Nil
  note ok = gateway_run_probes [OF run, unfolded probes_ok_def]
  let ?s1 = "s\<lparr>sl_pcp4s := Some (Chan [] True), sl_end4 := True\<rparr>"
  have "gateway_run p4 p6 sources ?s1 m"
    by (rule gateway_run.Probe [OF run outside_step.Close4]) (use assms ok Nil in simp_all)
  then have "gateway_run p4 p6 sources (?s1\<lparr>sl_pcp4s := None, sl_found := keepPCPv4 None (sl_found ?s1)\<rparr>) m"
    by (rule gateway_run.Own [OF _ select_step.Recv4]) (auto simp: not_finished intro: receive_simps)
  then show thesis by (rule that) (simp_all add: Nil)
next
  case (Cons g gs)
  note ok = gateway_run_probes [OF run, unfolded probes_ok_def]
  let ?s1 = "s\<lparr>sl_pcp4s := Some (Chan ([] @ [g]) False), sl_pub4 := sl_pub4 s @ [g]\<rparr>"
  have "gateway_run p4 p6 sources ?s1 m"
    by (rule gateway_run.Probe [OF run outside_step.Publish4]) (use assms ok Cons in simp_all)
  then have "gateway_run p4 p6 sources (?s1\<lparr>sl_pcp4s := None, sl_found := keepPCPv4 (Some g) (sl_found ?s1)\<rparr>) m"
    by (rule gateway_run.Own [OF _ select_step.Recv4]) (auto simp: not_finished intro: receive_simps)
  then show thesis by (rule that) (simp_all add: Cons)
qed

lemma run_probe6:
  assumes run: "gateway_run p4 p6 sources s m" and "sl_pcp6s s = Some (Chan [] False)"
    and "sl_pub6 s = []" and "\<not> sl_end6 s"
  obtains s' where "gateway_run p4 p6 sources s' m" "sl_pcp6s s' = None" "sl_pcp4s s' = sl_pcp4s s"
    "sl_fallbacks s' = sl_fallbacks s" "sl_found s' = keepPCPv6 (first p6) (sl_found s)"
    "sl_expired s' = sl_expired s"
proof (cases p6)
  case Nil
  note ok = gateway_run_probes [OF run, unfolded probes_ok_def]
  let ?s1 = "s\<lparr>sl_pcp6s := Some (Chan [] True), sl_end6 := True\<rparr>"
  have "gateway_run p4 p6 sources ?s1 m"
    by (rule gateway_run.Probe [OF run outside_step.Close6]) (use assms ok Nil in simp_all)
  then have "gateway_run p4 p6 sources (?s1\<lparr>sl_pcp6s := None, sl_found := keepPCPv6 None (sl_found ?s1)\<rparr>) m"
    by (rule gateway_run.Own [OF _ select_step.Recv6]) (auto simp: not_finished intro: receive_simps)
  then show thesis by (rule that) (simp_all add: Nil)
next
  case (Cons g gs)
  note ok = gateway_run_probes [OF run, unfolded probes_ok_def]
  let ?s1 = "s\<lparr>sl_pcp6s := Some (Chan ([] @ [g]) False), sl_pub6 := sl_pub6 s @ [g]\<rparr>"
  have "gateway_run p4 p6 sources ?s1 m"
    by (rule gateway_run.Probe [OF run outside_step.Publish6]) (use assms ok Cons in simp_all)
  then have "gateway_run p4 p6 sources (?s1\<lparr>sl_pcp6s := None, sl_found := keepPCPv6 (Some g) (sl_found ?s1)\<rparr>) m"
    by (rule gateway_run.Own [OF _ select_step.Recv6]) (auto simp: not_finished intro: receive_simps)
  then show thesis by (rule that) (simp_all add: Cons)
qed

text \<open>The state after both probes: what is left is the channel of the fallbacks.\<close>

lemma run_probes:
  obtains s :: "('n, 'p) sel" where "gateway_run p4 p6 sources s (mergeNATs False (sources_of sources))"
    "sl_pcp4s s = None" "sl_pcp6s s = None" "sl_fallbacks s = Some (Chan [] False)" "\<not> sl_expired s"
    "sl_found s = \<lparr>gs_pcp4 = first p4, gs_pcp6 = first p6, gs_fallback = None\<rparr>"
proof -
  let ?s0 = "select_start False :: ('n, 'p) sel" and ?m0 = "mergeNATs False (sources_of sources)"
  note start = gateway_run.Start [of p4 p6 sources False]
  obtain s1 where s1: "gateway_run p4 p6 sources s1 ?m0" "sl_pcp4s s1 = None" "sl_pcp6s s1 = sl_pcp6s ?s0"
    "sl_fallbacks s1 = sl_fallbacks ?s0" "sl_found s1 = keepPCPv4 (first p4) (sl_found ?s0)"
    "sl_pub6 s1 = sl_pub6 ?s0" "sl_end6 s1 = sl_end6 ?s0" "sl_expired s1 = sl_expired ?s0"
    by (rule run_probe4 [OF start]) (simp_all add: select_start_def)
  obtain s2 where "gateway_run p4 p6 sources s2 ?m0" "sl_pcp6s s2 = None" "sl_pcp4s s2 = sl_pcp4s s1"
    "sl_fallbacks s2 = sl_fallbacks s1" "sl_found s2 = keepPCPv6 (first p6) (sl_found s1)"
    "sl_expired s2 = sl_expired s1"
    by (rule run_probe6 [OF s1(1)]) (simp_all add: s1 select_start_def)
  with s1 show thesis
    by (intro that [of s2])
      (simp_all add: select_start_def no_selection_def keepPCPv4_def keepPCPv6_def split: option.split)
qed

text \<open>A source with a gateway: its forwarder takes it and delivers it.\<close>

lemma run_first:
  assumes run: "gateway_run p4 p6 sources s (mergeNATs False (sources_of sources))"
    and open_state: "sl_fallbacks s = Some (Chan [] False)" "gs_pcp4 (sl_found s) = None" "gs_fallback (sl_found s) = None"
    and "i < length (present sources)" and "present sources ! i = g # gs"
  obtains s' m' where "gateway_run p4 p6 sources s' m'" "sl_pcp4s s' = sl_pcp4s s" "sl_pcp6s s' = sl_pcp6s s"
    "gs_fallback (sl_found s') = Some g" "sl_expired s' = sl_expired s"
proof -
  let ?m0 = "mergeNATs False (sources_of sources)"
  let ?m1 = "(fw_set i (\<lambda>w. w\<lparr>fw_source := Chan gs True, fw_at := Offering\<rparr>) ?m0)\<lparr>mg_offers := mg_offers ?m0 @ [(i, g)]\<rparr>"
  let ?m2 = "(fw_set i (\<lambda>w. w\<lparr>fw_at := Waiting\<rparr>) ?m1)\<lparr>mg_offers := [], mg_out := mg_out ?m1 @ [(i, g)]\<rparr>"
  let ?s1 = "observe ?m0 ?m1 s"
  let ?s2 = "?s1\<lparr>sl_fallbacks := (if Some g = None then None else Some (Chan [] False)),
                sl_found := keepFallback (Some g) (sl_found ?s1)\<rparr>"
  have fws: "mg_fws ?m0 = map (\<lambda>vs. new_forwarder (Chan vs True)) (present sources)"
    by (simp add: mergeNATs_def sources_present)
  have "merge_step ?m0 ?m1"
    by (rule merge_step.Take) (use assms in \<open>auto simp: fws new_forwarder_def intro: receive_simps\<close>)
  with run have "gateway_run p4 p6 sources ?s1 ?m1" by (rule gateway_run.Merge)
  moreover have "select_step ?s1 ?s2"
    by (rule select_step.RecvF)
      (use open_state in \<open>auto simp: not_finished observe_def view_def mergeNATs_def intro: receive_simps\<close>)
  moreover have "deliver ?m1 ?m2" by (rule deliver.Deliver) (simp add: mergeNATs_def)
  moreover have "sl_fallbacks ?s2 = Some (view ?m2)" by (simp add: view_def mergeNATs_def)
  ultimately have "gateway_run p4 p6 sources ?s2 ?m2" by (rule gateway_run.Fallback)
  then show thesis by (rule that) (use open_state in \<open>simp_all add: observe_def\<close>)
qed

text \<open>No source with a gateway: the forwarders return and the channel is closed.\<close>

definition all_empty :: "'n merge \<Rightarrow> bool" where
  "all_empty m \<longleftrightarrow> (\<forall>w \<in> set (mg_fws m). fw_source w = Chan [] True \<and> fw_at w \<noteq> Offering)"

lemma all_empty_step: "merge_step m m' \<Longrightarrow> all_empty m \<Longrightarrow> all_empty m'"
proof (induction rule: merge_step.induct)
  case (Take i m v ch)
  then have "fw_source (mg_fws m ! i) = Chan [] True" by (simp add: all_empty_def)
  with Take.hyps(3) show ?case by (simp add: receive_cases)
qed (auto simp: all_empty_def dest!: set_update_mem)

lemma all_empty_progress:
  assumes "all_empty m" and "\<not> mg_closed m"
  shows "\<exists>m'. merge_step m m'"
proof (cases "\<forall>w \<in> set (mg_fws m). fw_at w = Returned")
  case True
  with assms(2) show ?thesis by (blast intro: merge_step.Close)
next
  case False
  then obtain i where i: "i < length (mg_fws m)" "fw_at (mg_fws m ! i) \<noteq> Returned" by (auto simp: in_set_conv_nth)
  with assms(1) have w: "fw_source (mg_fws m ! i) = Chan [] True" "fw_at (mg_fws m ! i) \<noteq> Offering"
    by (auto simp: all_empty_def)
  then have "receive (fw_source (mg_fws m ! i)) = Some (None, Chan [] True)" by (simp add: receive_def)
  with i w(2) show ?thesis by (cases "fw_at (mg_fws m ! i)") (blast intro: merge_step.Ended)+
qed

lemma run_empty:
  assumes run: "gateway_run p4 p6 sources s m" and "all_empty m" and "sl_fallbacks s \<noteq> None"
    and none: "gs_pcp4 (sl_found s) = None" "gs_fallback (sl_found s) = None"
  obtains s' m' where "gateway_run p4 p6 sources s' m'" "sl_pcp4s s' = sl_pcp4s s" "sl_pcp6s s' = sl_pcp6s s"
    "sl_fallbacks s' = None" "sl_expired s' = sl_expired s"
proof -
  let ?R = "\<lambda>(s, m) (s', m'). merge_step m m' \<and> s' = observe m m' s"
  let ?P = "\<lambda>(s', m'). gateway_run p4 p6 sources s' m' \<and> all_empty m' \<and> sl_fallbacks s' \<noteq> None \<and>
    sl_pcp4s s' = sl_pcp4s s \<and> sl_pcp6s s' = sl_pcp6s s \<and> sl_found s' = sl_found s \<and> sl_expired s' = sl_expired s"
  have "\<exists>x. ?R\<^sup>*\<^sup>* (s, m) x \<and> ?P x \<and> mg_closed (snd x)"
  proof (rule runs_to_end(1) [where size = "\<lambda>x. merge_size (snd x)"])
    fix x y assume p: "?P x" and r: "?R x y"
    then show "?P y \<and> merge_size (snd y) < merge_size (snd x)"
      using merge_step_size all_empty_step
      by (cases x; cases y) (auto simp: observe_def [abs_def] dest: gateway_run.Merge)
  next
    fix x assume "?P x" "\<not> mg_closed (snd x)"
    then show "\<exists>y. ?R x y" using all_empty_progress by (cases x) auto
  qed (use assms in simp)
  then obtain s1 m1 where 1: "?P (s1, m1)" "mg_closed m1" by auto
  from gateway_run_simulates [of p4 p6 sources s1 m1] 1(1) obtain c where
    c: "merge_run (mergeNATs c (sources_of sources)) m1" "coupled s1 m1" by auto
  have "mg_offers m1 = []" using merge_closed_offers [OF merge_inv_run [OF c(1)] 1(2)] .
  with c(2) 1 have ch: "sl_fallbacks s1 = Some (Chan [] True)" by (auto simp: coupled_def view_def)
  have "gateway_run p4 p6 sources
      (s1\<lparr>sl_fallbacks := (if (None :: 'a option) = None then None else Some (Chan [] True)),
          sl_found := keepFallback None (sl_found s1)\<rparr>) m1"
    by (rule gateway_run.Own [OF _ select_step.RecvF])
      (use 1(1) ch none in \<open>auto simp: not_finished intro: receive_simps\<close>)
  then show thesis by (rule that) (use 1(1) in simp_all)
qed

lemma gateway_run_settles:
  "\<exists>(s :: ('n, 'p) sel) m. gateway_run p4 p6 sources s m \<and> finished s \<and> \<not> sl_expired s"
proof -
  let ?m0 = "mergeNATs False (sources_of sources)"
  obtain s :: "('n, 'p) sel" where s: "gateway_run p4 p6 sources s ?m0" "sl_pcp4s s = None" "sl_pcp6s s = None"
    "sl_fallbacks s = Some (Chan [] False)" "\<not> sl_expired s"
    "sl_found s = \<lparr>gs_pcp4 = first p4, gs_pcp6 = first p6, gs_fallback = None\<rparr>"
    by (rule run_probes [of p4 p6 sources])
  have fin: "\<exists>s m. gateway_run p4 p6 sources s m \<and> finished s \<and> \<not> sl_expired s"
    if "gateway_run p4 p6 sources s' m'" "sl_pcp4s s' = None" "sl_pcp6s s' = None" "\<not> sl_expired s'"
      "gs_pcp4 (sl_found s') \<noteq> None \<or> gs_fallback (sl_found s') \<noteq> None \<or> sl_fallbacks s' = None"
    for s' :: "('n, 'p) sel" and m'
  proof -
    have "\<not> sl_draining s'"
      using gateway_run_simulates [OF that(1)] select_inv_run [of s'] that(4) by (auto simp: select_inv_def)
    with that show ?thesis by (intro exI [of _ s'] exI [of _ m']) (auto simp: finished_def settled_def)
  qed
  show ?thesis
  proof (cases "first p4")
    case (Some g)
    with s show ?thesis by (intro fin [OF s(1)]) simp_all
  next
    case None
    then have open_state: "gs_pcp4 (sl_found s) = None" "gs_fallback (sl_found s) = None" using s by simp_all
    show ?thesis
    proof (cases "\<exists>i < length (present sources). present sources ! i \<noteq> []")
      case True
      then obtain i g gs where i: "i < length (present sources)" "present sources ! i = g # gs"
        by (meson list.exhaust)
      obtain s' m' where "gateway_run p4 p6 sources s' m'" "sl_pcp4s s' = sl_pcp4s s" "sl_pcp6s s' = sl_pcp6s s"
        "gs_fallback (sl_found s') = Some g" "sl_expired s' = sl_expired s"
        by (rule run_first [OF s(1,4) open_state i])
      with s show ?thesis by (intro fin [of s' m']) simp_all
    next
      case False
      have "all_empty ?m0"
        using False by (auto simp: all_empty_def mergeNATs_def sources_present new_forwarder_def in_set_conv_nth)
      moreover have "sl_fallbacks s \<noteq> None" using s(4) by simp
      ultimately obtain s' m' where "gateway_run p4 p6 sources s' m'" "sl_pcp4s s' = sl_pcp4s s"
        "sl_pcp6s s' = sl_pcp6s s" "sl_fallbacks s' = None" "sl_expired s' = sl_expired s"
        by (rule run_empty [OF s(1) _ _ open_state])
      with s show ?thesis by (intro fin [of s' m']) simp_all
    qed
  qed
qed

text \<open>
  The steps of the call itself, which meets a forwarder when it takes a fallback.
\<close>

inductive call_step :: "('n, 'p) sel \<times> 'n merge \<Rightarrow> ('n, 'p) sel \<times> 'n merge \<Rightarrow> bool" where
  "select_step s s' \<Longrightarrow> sl_fallbacks s' = sl_fallbacks s \<or> sl_fallbacks s' = None \<Longrightarrow> call_step (s, m) (s', m)"
| "select_step s s' \<Longrightarrow> deliver m m' \<Longrightarrow> sl_fallbacks s' = Some (view m') \<Longrightarrow> call_step (s, m) (s', m')"

inductive_cases call_stepE: "call_step (s, m) (s', m')"

lemma call_step_run:
  "call_step (s, m) (s', m') \<Longrightarrow> gateway_run p4 p6 sources s m \<Longrightarrow>
   gateway_run p4 p6 sources s' m' \<and> select_step s s'"
  by (erule call_stepE) (auto intro: gateway_run.Own gateway_run.Fallback)

lemma call_step_of_select:
  assumes "gateway_run p4 p6 sources s m" and step: "select_step s s'"
  shows "\<exists>y. call_step (s, m) y"
proof -
  from gateway_run_simulates [OF assms(1)] have "coupled s m" by blast
  show ?thesis
  proof (cases "sl_fallbacks s' = sl_fallbacks s \<or> sl_fallbacks s' = None")
    case True
    with step show ?thesis by (blast intro: call_step.intros)
  next
    case False
    with step obtain ch v ch' where r: "sl_fallbacks s = Some ch" "receive ch = Some (v, ch')" "sl_fallbacks s' = Some ch'"
      by cases (auto split: if_splits)
    with \<open>coupled s m\<close> have ch: "ch = view m" by (simp add: coupled_def)
    from False r have "ch \<noteq> ch'" by auto
    with r(2) ch obtain g vs where "ready (view m) = g # vs" "ch' = Chan vs (mg_closed m)"
      by (auto simp: receive_cases view_def)
    then obtain i xs where o: "mg_offers m = (i, g) # xs" "vs = map snd xs" by (auto simp: view_def)
    have "deliver m ((fw_set i (\<lambda>w. w\<lparr>fw_at := Waiting\<rparr>) m)\<lparr>mg_offers := xs, mg_out := mg_out m @ [(i, g)]\<rparr>)"
      using o(1) by (rule deliver.Deliver)
    moreover from r(3) o \<open>ch' = Chan vs (mg_closed m)\<close> have
      "sl_fallbacks s' = Some (view ((fw_set i (\<lambda>w. w\<lparr>fw_at := Waiting\<rparr>) m)\<lparr>mg_offers := xs, mg_out := mg_out m @ [(i, g)]\<rparr>))"
      by (simp add: view_def)
    ultimately show ?thesis using step by (blast intro: call_step.intros)
  qed
qed

lemma call_progress:
  "gateway_run p4 p6 sources s m \<Longrightarrow> sl_expired s \<Longrightarrow> \<not> finished s \<Longrightarrow> \<exists>y. call_step (s, m) y"
  using select_progress call_step_of_select by metis

text \<open>
  Everything that goes on during a call, the end of the context apart: its own steps, those of the
  goroutines of the merge, and the PCP probes that publish what they hold and close their channels.
\<close>

inductive live_step ::
  "'n list \<Rightarrow> 'p list \<Rightarrow> ('n, 'p) sel \<times> 'n merge \<Rightarrow> ('n, 'p) sel \<times> 'n merge \<Rightarrow> bool" for p4 p6 where
  Own: "call_step (s, m) (s', m') \<Longrightarrow> live_step p4 p6 (s, m) (s', m')"
| Merge: "merge_step m m' \<Longrightarrow> live_step p4 p6 (s, m) (observe m m' s, m')"
| Probe: "outside_step s s' \<Longrightarrow> s' \<noteq> s \<Longrightarrow> sl_fallbacks s' = sl_fallbacks s \<Longrightarrow> sl_expired s' = sl_expired s \<Longrightarrow>
    probes_ok p4 p6 s' \<Longrightarrow> live_step p4 p6 (s, m) (s', m)"

text \<open>What is left to do: channels to look at, goroutines to end, values to publish.\<close>

definition probe_work :: "'a list \<Rightarrow> 'a list \<Rightarrow> bool \<Rightarrow> nat" where
  "probe_work p pub over = 2 * (length p - length pub) + (if over then 0 else 1)"

definition live_size :: "'n list \<Rightarrow> 'p list \<Rightarrow> ('n, 'p) sel \<Rightarrow> 'n merge \<Rightarrow> nat" where
  "live_size p4 p6 s m = select_size s + merge_work m +
     probe_work p4 (sl_pub4 s) (sl_end4 s) + probe_work p6 (sl_pub6 s) (sl_end6 s)"

lemma live_step_run:
  "live_step p4 p6 (s, m) (s', m') \<Longrightarrow> gateway_run p4 p6 sources s m \<Longrightarrow> gateway_run p4 p6 sources s' m'"
  by (erule live_step.cases)
    (auto simp: probes_ok_def dest: call_step_run intro: gateway_run.Merge gateway_run.Probe)

lemma observe_probes:
  "sl_pub4 (observe m m' s) = sl_pub4 s" "sl_pub6 (observe m m' s) = sl_pub6 s"
  "sl_end4 (observe m m' s) = sl_end4 s" "sl_end6 (observe m m' s) = sl_end6 s"
  by (simp_all add: observe_def)

lemma observe_size:
  assumes "merge_step m m'" and "coupled s m"
  shows "select_size (observe m m' s) + merge_work m' < select_size s + merge_work m"
  using merge_step_work [OF assms(1)] merge_step_offers_work [OF assms(1)] assms(2)
  by (cases "sl_fallbacks s") (auto simp: observe_def select_size_def chan_size_def coupled_def view_def)

lemma probe_size:
  assumes "outside_step s s'" and "s' \<noteq> s" and "sl_fallbacks s' = sl_fallbacks s" and "sl_expired s' = sl_expired s"
    and "probes_ok p4 p6 s'" and "select_inv s"
  shows "live_size p4 p6 s' m < live_size p4 p6 s m"
  using assms
proof (induction rule: outside_step.induct)
  case (Publish4 s vs v)
  then have "length (sl_pub4 s) < length p4" by (auto simp: probes_ok_def dest: prefix_length_le)
  with Publish4 show ?case by (simp add: live_size_def select_size_def chan_size_def probe_work_def)
next
  case (Publish6 s vs v)
  then have "length (sl_pub6 s) < length p6" by (auto simp: probes_ok_def dest: prefix_length_le)
  with Publish6 show ?case by (simp add: live_size_def select_size_def chan_size_def probe_work_def)
next
  case (Close4 s vs)
  then show ?case by (auto simp: live_size_def select_size_def chan_size_def probe_work_def select_inv_def probe_inv_def)
next
  case (Close6 s vs)
  then show ?case by (auto simp: live_size_def select_size_def chan_size_def probe_work_def select_inv_def probe_inv_def)
qed auto

lemma live_step_size:
  assumes "live_step p4 p6 (s, m) (s', m')" and run: "gateway_run p4 p6 sources s m"
  shows "live_size p4 p6 s' m' < live_size p4 p6 s m"
proof -
  from gateway_run_simulates [OF run] obtain c where
    sim: "select_inv s" "coupled s m" "merge_inv m" using select_inv_run merge_inv_run by metis
  from assms(1) show ?thesis
  proof (cases rule: live_step.cases)
    case Own
    from Own show ?thesis
    proof (cases rule: call_step.cases)
      case 1
      with select_step_size [OF 1(2)] select_step_probes [OF 1(2)] show ?thesis by (simp add: live_size_def)
    next
      case 2
      with select_step_size [OF 2(1)] select_step_probes [OF 2(1)] deliver_work [OF 2(2) sim(3)] show ?thesis
        by (simp add: live_size_def)
    qed
  next
    case Merge
    with observe_size [OF Merge(2) sim(2)] show ?thesis by (simp add: live_size_def observe_probes)
  next
    case Probe
    with probe_size [OF Probe(2-6) sim(1)] show ?thesis by simp
  qed
qed

lemma live_progress:
  assumes run: "gateway_run p4 p6 sources s m" and "\<not> finished s"
  shows "\<exists>y. live_step p4 p6 (s, m) y"
proof -
  have own: "\<exists>y. live_step p4 p6 (s, m) y" if "select_step s s'" for s'
    using call_step_of_select [OF run that] by (metis live_step.Own surj_pair)
  show ?thesis
  proof (cases "sl_expired s")
    case True
    with select_progress assms(2) own show ?thesis by metis
  next
    case live: False
    from gateway_run_simulates [OF run] obtain c where sim: "select_inv s" "coupled s m" "merge_inv m"
      and mrun: "merge_run (mergeNATs c (sources_of sources)) m" using select_inv_run merge_inv_run by metis
    note probes = gateway_run_probes [OF run]
    have fresh: "\<not> sl_draining s" using sim(1) live by (auto simp: select_inv_def)
    with assms(2) have open_state: "\<not> settled s" by (simp add: finished_def)
    show ?thesis
    proof (cases "sl_pcp4s s")
      case (Some ch)
      show ?thesis
      proof (cases "receive ch")
        case None
        then have ch: "ch = Chan [] False" by (cases ch) (auto simp: receive_None_iff)
        with Some sim(1) have pub: "sl_pub4 s = []" "\<not> sl_end4 s" by (auto simp: select_inv_def probe_inv_def)
        show ?thesis
        proof (cases p4)
          case Nil
          have "live_step p4 p6 (s, m) (s\<lparr>sl_pcp4s := Some (Chan [] True), sl_end4 := True\<rparr>, m)"
            by (rule live_step.Probe [OF outside_step.Close4])
              (use Some ch Nil probes pub in \<open>auto simp: probes_ok_def dest: arg_cong [of _ _ sl_end4]\<close>)
          then show ?thesis by blast
        next
          case (Cons g gs)
          have "live_step p4 p6 (s, m) (s\<lparr>sl_pcp4s := Some (Chan ([] @ [g]) False), sl_pub4 := sl_pub4 s @ [g]\<rparr>, m)"
            by (rule live_step.Probe [OF outside_step.Publish4])
              (use Some ch Cons probes pub in \<open>auto simp: probes_ok_def dest: arg_cong [of _ _ sl_pub4]\<close>)
          then show ?thesis by blast
        qed
      qed (use Some assms(2) own in \<open>auto intro: select_step.Recv4\<close>)
    next
      case no4: None
      show ?thesis
      proof (cases "sl_pcp6s s")
        case (Some ch)
        show ?thesis
        proof (cases "receive ch")
          case None
          then have ch: "ch = Chan [] False" by (cases ch) (auto simp: receive_None_iff)
          with Some sim(1) have pub: "sl_pub6 s = []" "\<not> sl_end6 s" by (auto simp: select_inv_def probe_inv_def)
          show ?thesis
          proof (cases p6)
            case Nil
            have "live_step p4 p6 (s, m) (s\<lparr>sl_pcp6s := Some (Chan [] True), sl_end6 := True\<rparr>, m)"
              by (rule live_step.Probe [OF outside_step.Close6])
                (use Some ch Nil probes pub in \<open>auto simp: probes_ok_def dest: arg_cong [of _ _ sl_end6]\<close>)
            then show ?thesis by blast
          next
            case (Cons g gs)
            have "live_step p4 p6 (s, m) (s\<lparr>sl_pcp6s := Some (Chan ([] @ [g]) False), sl_pub6 := sl_pub6 s @ [g]\<rparr>, m)"
              by (rule live_step.Probe [OF outside_step.Publish6])
                (use Some ch Cons probes pub in \<open>auto simp: probes_ok_def dest: arg_cong [of _ _ sl_pub6]\<close>)
            then show ?thesis by blast
          qed
        qed (use Some assms(2) own in \<open>auto intro: select_step.Recv6\<close>)
      next
        case no6: None
        with no4 open_state obtain ch where ch: "sl_fallbacks s = Some ch" by (auto simp: settled_def)
        show ?thesis
        proof (cases "receive ch")
          case None
          with ch sim(2) have idle: "mg_offers m = []" "\<not> mg_closed m" "\<not> mg_done m"
            using live by (auto simp: coupled_def view_def receive_None_iff)
          have "draining m"
            using sim(3) idle(3) merge_pubs_fixed [OF mrun sources_start(2)] by (simp add: draining_def ended_def)
          from draining_progress [OF this idle(2)] obtain m' where "merge_step m m'"
            using idle(1) by (auto simp: drain_step_def deliver.simps)
          then show ?thesis by (blast intro: live_step.Merge)
        qed (use ch assms(2) own in \<open>auto intro: select_step.RecvF\<close>)
      qed
    qed
  qed
qed

text \<open>
  C18. \<open>DiscoverGateway\<close> returns. From every moment of a call, whether its context is done or not, the steps
  of the call, of the goroutines of the merge and of the PCP probes lead to its return: no schedule of them
  is longer than what is left to look at, forward and publish, and none gets stuck before the call
  returns. Once the context is done the steps of the call alone are enough.
\<close>

theorem discover_gateway_returns:
  fixes s :: "('n, 'p) sel"
  assumes "gateway_run p4 p6 sources s m"
  shows "(\<exists>s' m'. (live_step p4 p6)\<^sup>*\<^sup>* (s, m) (s', m') \<and> finished s') \<and>
    (\<forall>k s' m'. (live_step p4 p6 ^^ k) (s, m) (s', m') \<longrightarrow>
       k \<le> live_size p4 p6 s m \<and> (finished s' \<or> (\<exists>y. live_step p4 p6 (s', m') y))) \<and>
    (sl_expired s \<longrightarrow>
       (\<exists>s' m'. call_step\<^sup>*\<^sup>* (s, m) (s', m') \<and> finished s') \<and>
       (\<forall>k s' m'. (call_step ^^ k) (s, m) (s', m') \<longrightarrow>
          k \<le> select_size s \<and> (finished s' \<or> (\<exists>y. call_step (s', m') y))))"
proof (intro conjI impI)
  let ?P = "\<lambda>(s, m). gateway_run p4 p6 sources s m" and ?size = "\<lambda>(s, m). live_size p4 p6 s m"
  have down: "?P y \<and> ?size y < ?size x" if "?P x" "live_step p4 p6 x y" for x y
    using that live_step_run live_step_size by (cases x; cases y) fastforce
  have progress: "\<exists>y. live_step p4 p6 x y" if "?P x" "\<not> finished (fst x)" for x
    using that live_progress by (cases x) auto
  have start: "?P (s, m)" using assms by simp
  have "\<exists>x. (live_step p4 p6)\<^sup>*\<^sup>* (s, m) x \<and> ?P x \<and> finished (fst x)"
    by (rule runs_to_end(1) [where size = ?size]) (fact down | fact progress | fact start)+
  then show "\<exists>s' m'. (live_step p4 p6)\<^sup>*\<^sup>* (s, m) (s', m') \<and> finished s'" by fastforce
  have "k \<le> ?size (s, m) \<and> ?P (s', m') \<and> (finished (fst (s', m')) \<or> (\<exists>y. live_step p4 p6 (s', m') y))"
    if "(live_step p4 p6 ^^ k) (s, m) (s', m')" for k s' m'
    by (rule runs_to_end(2) [where F = "\<lambda>x. finished (fst x)"]) (fact down | fact progress | fact start | fact that)+
  then show "\<forall>k s' m'. (live_step p4 p6 ^^ k) (s, m) (s', m') \<longrightarrow>
      k \<le> live_size p4 p6 s m \<and> (finished s' \<or> (\<exists>y. live_step p4 p6 (s', m') y))" by simp
next
  assume expired: "sl_expired s"
  let ?P = "\<lambda>(s, m). gateway_run p4 p6 sources s m \<and> sl_expired s"
  have down: "?P y \<and> select_size (fst y) < select_size (fst x)" if "?P x" "call_step x y" for x y
    using that call_step_run select_step_size select_step_expired by (cases x; cases y) fastforce
  have progress: "\<exists>y. call_step x y" if "?P x" "\<not> finished (fst x)" for x
    using that call_progress by (cases x) auto
  have start: "?P (s, m)" using assms expired by simp
  have "\<exists>x. call_step\<^sup>*\<^sup>* (s, m) x \<and> ?P x \<and> finished (fst x)"
    by (rule runs_to_end(1) [where size = "\<lambda>x. select_size (fst x)"]) (fact down | fact progress | fact start)+
  then show "\<exists>s' m'. call_step\<^sup>*\<^sup>* (s, m) (s', m') \<and> finished s'" by fastforce
  have "k \<le> select_size (fst (s, m)) \<and> ?P (s', m') \<and>
      (finished (fst (s', m')) \<or> (\<exists>y. call_step (s', m') y))"
    if "(call_step ^^ k) (s, m) (s', m')" for k s' m'
    by (rule runs_to_end(2) [where F = "\<lambda>x. finished (fst x)"]) (fact down | fact progress | fact start | fact that)+
  then show "\<forall>k s' m'. (call_step ^^ k) (s, m) (s', m') \<longrightarrow>
      k \<le> select_size s \<and> (finished s' \<or> (\<exists>y. call_step (s', m') y))" by simp
qed

theorem discover_gateway_returns_witness:
  "\<exists>(s :: (unit gateway, client) sel) m.
     (live_step [] [])\<^sup>*\<^sup>* (select_start False, mergeNATs False (sources_of (fallback_sources home_network Caller))) (s, m) \<and> finished s"
  using discover_gateway_returns [OF gateway_run.Start
      [of "[]" "[] :: client list" "fallback_sources home_network Caller" False]] by blast

text \<open>
  C4. \<open>DiscoverGateway\<close>, when it returns before its context is done, which it always can: the PCPv4
  gateway if the probe found one, else one of the gateways that UPnP or NAT-PMP found, else the no-NAT
  error, and that error only if no source found anything. The gateway opens pinholes exactly when the
  PCPv6 probe found a server.
\<close>

theorem discover_gateway_verdict:
  "(\<exists>r. DiscoverGateway nw ctx e False r) \<and>
   (\<forall>r. DiscoverGateway nw ctx e False r \<longrightarrow>
      (let p4 = pcp4_nats nw ctx; p6 = pcp6_clients nw ctx; fallbacks = concat (present (fallback_sources nw ctx))
       in case first p4 of
            Some g \<Rightarrow> r = Inr (with_pinholes (first p6) g)
          | None \<Rightarrow>
              if fallbacks = [] then r = Inl nat_ErrNoNATFound
              else \<exists>g \<in> set fallbacks. r = Inr (with_pinholes (first p6) g)))"
proof (intro conjI allI impI)
  obtain s m where "gateway_run (pcp4_nats nw ctx) (pcp6_clients nw ctx) (fallback_sources nw ctx) s m"
    "finished s" "\<not> sl_expired s"
    using gateway_run_settles by blast
  then show "\<exists>r. DiscoverGateway nw ctx e False r" using DiscoverGateway.intros by fastforce
next
  fix r assume "DiscoverGateway nw ctx e False r"
  then show "let p4 = pcp4_nats nw ctx; p6 = pcp6_clients nw ctx; fallbacks = concat (present (fallback_sources nw ctx))
       in case first p4 of
            Some g \<Rightarrow> r = Inr (with_pinholes (first p6) g)
          | None \<Rightarrow>
              if fallbacks = [] then r = Inl nat_ErrNoNATFound
              else \<exists>g \<in> set fallbacks. r = Inr (with_pinholes (first p6) g)"
  proof cases
    case (1 s m)
    from 1(1) have "\<not> sl_expired s" by simp
    from gateway_run_result [OF 1(3,4) this, of e] show ?thesis unfolding Let_def 1(2) .
  qed
qed

theorem discover_gateway_verdict_witness:
  "\<exists>r g. DiscoverGateway home_network Caller Canceled False r \<and> r = Inr (Plain g) \<and>
     g \<in> set (concat (present (fallback_sources home_network Caller)))"
proof -
  obtain g where src: "present (fallback_sources home_network Caller) =
     [[], [], [UpnpGateway g], [], [NatpmpGateway (new_natpmpNAT home_ip)]]" using home_sources(1) by blast
  from discover_gateway_verdict [of home_network Caller Canceled] obtain r where
    r: "DiscoverGateway home_network Caller Canceled False r" by blast
  with discover_gateway_verdict [of home_network Caller Canceled] src home_sources(3,4) show ?thesis
    by (auto simp: with_pinholes_def Let_def)
qed

text \<open>
  The channel of \<open>mergeNATs\<close> is unbuffered: a fallback that a forwarder already offers when the deadline
  passes can be withdrawn before the drain of \<open>selectGateway\<close> looks for it, and the call reports that
  nothing was found.
\<close>

theorem fallback_lost_at_deadline:
  assumes "i < length (present sources)" and "present sources ! i = g # gs"
  shows "\<exists>(s :: ('n, 'p) sel) m. gateway_run [] [] (sources :: 'n list option list) s m \<and> finished s \<and>
    sl_pubF s = [g] \<and> select_result e s = Inl (nothing_found e True)"
proof -
  let ?run = "gateway_run [] [] sources :: ('n, 'p) sel \<Rightarrow> 'n merge \<Rightarrow> bool"
  let ?m0 = "mergeNATs False (sources_of sources)" and ?s0 = "select_start False :: ('n, 'p) sel"
  let ?m1 = "(fw_set i (\<lambda>w. w\<lparr>fw_source := Chan gs True, fw_at := Offering\<rparr>) ?m0)\<lparr>mg_offers := mg_offers ?m0 @ [(i, g)]\<rparr>"
  let ?s1 = "observe ?m0 ?m1 ?s0"
  let ?s2 = "?s1\<lparr>sl_expired := True\<rparr>" and ?m2 = "?m1\<lparr>mg_done := True\<rparr>"
  let ?s3 = "?s2\<lparr>sl_draining := True\<rparr>"
  let ?m3 = "(fw_set i (\<lambda>w. w\<lparr>fw_at := Returned\<rparr>) ?m2)\<lparr>mg_offers := [] @ []\<rparr>"
  let ?s4 = "observe ?m2 ?m3 ?s3"
  let ?s5 = "?s4\<lparr>sl_pcp4s := None, sl_pcp6s := None, sl_fallbacks := None\<rparr>"
  note defs = select_start_def finished_def settled_def all_nil_def no_selection_def observe_def view_def mergeNATs_def
  have fws: "mg_fws ?m0 = map (\<lambda>vs. new_forwarder (Chan vs True)) (present sources)"
    by (simp add: mergeNATs_def sources_present)
  then have i: "i < length (mg_fws ?m0)" using assms by simp
  have "merge_step ?m0 ?m1"
    by (rule merge_step.Take) (use assms in \<open>auto simp: fws new_forwarder_def intro: receive_simps\<close>)
  then have "?run ?s1 ?m1" by (rule gateway_run.Merge [OF gateway_run.Start])
  then have "?run ?s2 ?m2" by (rule gateway_run.Deadline)
  then have "?run ?s3 ?m2" by (rule gateway_run.Own [OF _ select_step.Done]) (simp_all add: defs)
  moreover have "merge_step ?m2 ?m3"
    by (rule merge_step.Withdraw) (use i in \<open>simp_all add: mergeNATs_def\<close>)
  ultimately have "?run ?s4 ?m3" by (rule gateway_run.Merge)
  then have "?run ?s5 ?m3"
    by (rule gateway_run.Own [OF _ select_step.Default])
      (auto simp: defs blocked_def intro: receive_simps)
  moreover have "finished ?s5 \<and> sl_pubF ?s5 = [g] \<and> select_result e ?s5 = Inl (nothing_found e True)"
    by (simp add: defs select_result_def gs_gateway_def nothing_found_def)
  ultimately show ?thesis by blast
qed

end
