(* ===== verification/Gateway_Service.thy ===== *)
theory Gateway_Service
  imports Discover_Gateway Dual_Stack
begin

text \<open>
  From the discovery to the use of what it found: the gateway that \<open>DiscoverGateway\<close> returns, alone or in
  its dual-stack wrapper, as a provider of mappings. The contracts of the single protocols
  (\<open>mapping_service\<close>, \<open>answering\<close>) and of the wrapper (\<open>dual_stack\<close>, \<open>dual_answering\<close>) are put together in
  the locale \<open>gateway_service\<close>, interpreted for each protocol.
\<close>

section \<open>The gateway in use\<close>

text \<open>A gateway that was found, together with what its calls meet: the state of each object is extended.\<close>

fun placed :: "('g \<Rightarrow> 's) \<Rightarrow> ('p \<Rightarrow> 'q) \<Rightarrow> ('g, 'p) selected \<Rightarrow> ('s, 'q) selected" where
  "placed f h (Plain g) = Plain (f g)"
| "placed f h (DualStack w) =
     DualStack \<lparr>dw_NAT = f (dw_NAT w), dw_pcp6 = h (dw_pcp6 w), dw_pinholeErr = dw_pinholeErr w\<rparr>"

fun embedded :: "('g, 'p) selected \<Rightarrow> 'g" where
  "embedded (Plain g) = g"
| "embedded (DualStack w) = dw_NAT w"

text \<open>A call of the interface that the caller holds: of the NAT itself, or of the wrapper.\<close>

fun found_add ::
  "'s NAT_iface \<Rightarrow> 'p pcpIPv6Client \<Rightarrow> ctx \<times> string \<Rightarrow> string \<Rightarrow> int \<Rightarrow> duration \<Rightarrow> ('s, 'p) selected
   \<Rightarrow> (go_err option \<times> ('s, 'p) selected) option" where
  "found_add N P x protocol port timeout (Plain s) =
     map_option (\<lambda>(e, s). (e, Plain s)) (iface_add N x protocol port timeout s)"
| "found_add N P x protocol port timeout (DualStack w) =
     map_option (\<lambda>(e, w). (e, DualStack w)) (iface_add (dual_iface N P) x protocol port timeout w)"

fun found_del ::
  "'s NAT_iface \<Rightarrow> 'p pcpIPv6Client \<Rightarrow> ctx \<times> string \<Rightarrow> string \<Rightarrow> int \<Rightarrow> ('s, 'p) selected
   \<Rightarrow> (go_err option \<times> ('s, 'p) selected) option" where
  "found_del N P x protocol port (Plain s) =
     map_option (\<lambda>(e, s). (e, Plain s)) (iface_del N x protocol port s)"
| "found_del N P x protocol port (DualStack w) =
     map_option (\<lambda>(e, w). (e, DualStack w)) (iface_del (dual_iface N P) x protocol port w)"

lemma found_add_cases:
  assumes "found_add N P x protocol port timeout s = Some (e, s')"
  obtains (plain) s0 s1 where "s = Plain s0" "s' = Plain s1" "iface_add N x protocol port timeout s0 = Some (e, s1)"
  | (dual) w w1 where "s = DualStack w" "s' = DualStack w1" "iface_add (dual_iface N P) x protocol port timeout w = Some (e, w1)"
  using assms by (cases s) auto

lemma found_del_cases:
  assumes "found_del N P x protocol port s = Some (e, s')"
  obtains (plain) s0 s1 where "s = Plain s0" "s' = Plain s1" "iface_del N x protocol port s0 = Some (e, s1)"
  | (dual) w w1 where "s = DualStack w" "s' = DualStack w1" "iface_del (dual_iface N P) x protocol port w = Some (e, w1)"
  using assms by (cases s) auto

fun pinhole_side :: "('p \<Rightarrow> bool) \<Rightarrow> ('s, 'p) selected \<Rightarrow> bool" where
  "pinhole_side ok (Plain s) = True"
| "pinhole_side ok (DualStack w) = ok (dw_pcp6 w)"

sublocale dual_stack \<subseteq> found: mapping_service "found_add N P" "found_del N P"
  "\<lambda>p q s. tracked4 p q (embedded s)" same4
proof
  fix x :: "ctx \<times> string" and proto port lt and s s' :: "('s, 'p) selected"
  assume "found_add N P x proto port lt s = Some (None, s')" and "0 < lt"
  then show "tracked4 proto port (embedded s')"
    by (cases rule: found_add_cases) (auto dest: v4.add_tracks dual.add_tracks)
next
  fix x :: "ctx \<times> string" and proto port lt p q r and s s' :: "('s, 'p) selected"
  assume "found_add N P x proto port lt s = Some (r, s')" and "0 < lt" and "tracked4 p q (embedded s)"
  then show "tracked4 p q (embedded s')"
    by (cases rule: found_add_cases) (auto dest: v4.add_keeps dual.add_keeps)
next
  fix x :: "ctx \<times> string" and proto port and s s' :: "('s, 'p) selected"
  assume "found_del N P x proto port s = Some (None, s')"
  then show "\<not> tracked4 proto port (embedded s')"
    by (cases rule: found_del_cases) (auto dest: v4.delete_forgets dual.delete_forgets)
next
  fix x :: "ctx \<times> string" and proto port p q e and s s' :: "('s, 'p) selected"
  assume "found_del N P x proto port s = Some (Some e, s')"
  then show "tracked4 p q (embedded s') \<longleftrightarrow> tracked4 p q (embedded s)"
    by (cases rule: found_del_cases) (auto dest: v4.delete_failed dual.delete_failed)
next
  fix x :: "ctx \<times> string" and proto port p q r and s s' :: "('s, 'p) selected"
  assume "found_del N P x proto port s = Some (r, s')" and "\<not> same4 p q proto port"
  then show "tracked4 p q (embedded s') \<longleftrightarrow> tracked4 p q (embedded s)"
    by (cases rule: found_del_cases) (auto dest: v4.delete_others dual.delete_others)
qed

sublocale dual_answering \<subseteq> found: answering "found_add N P" "found_del N P"
  "\<lambda>s. ok4 (embedded s) \<and> pinhole_side ok6 s"
proof
  fix s :: "('s, 'p) selected" and x :: "ctx \<times> string" and proto port lt
  assume ok: "ok4 (embedded s) \<and> pinhole_side ok6 s"
  show "\<exists>e s'. found_add N P x proto port lt s = Some (e, s') \<and> ok4 (embedded s') \<and> pinhole_side ok6 s'"
  proof (cases s)
    case (Plain s0)
    with ok v4.add_answers [of s0 x proto port lt] show ?thesis by auto
  next
    case (DualStack w)
    with ok dual.add_answers [of w x proto port lt] show ?thesis by auto
  qed
  show "\<exists>e s'. found_del N P x proto port s = Some (e, s') \<and> ok4 (embedded s') \<and> pinhole_side ok6 s'"
  proof (cases s)
    case (Plain s0)
    with ok v4.delete_answers [of s0 x proto port] show ?thesis by auto
  next
    case (DualStack w)
    with ok dual.delete_answers [of w x proto port] show ?thesis by auto
  qed
qed

text \<open>
  What a caller wants of it: every sequence of calls returns, and a mapping that was added within such a
  sequence is remembered by the gateway object (\<open>tracked\<close>) until a call that may end it. What the object
  can do with what it remembers depends on the protocol.
\<close>

definition serves ::
  "'s NAT_iface \<Rightarrow> 'p pcpIPv6Client \<Rightarrow> (string \<Rightarrow> int \<Rightarrow> 's \<Rightarrow> bool) \<Rightarrow> (string \<Rightarrow> int \<Rightarrow> string \<Rightarrow> int \<Rightarrow> bool)
   \<Rightarrow> ('s, 'p) selected \<Rightarrow> bool" where
  "serves N P tracked same s \<longleftrightarrow>
     (\<forall>ops. \<exists>es s'. run_ops (found_add N P) (found_del N P) ops s = Some (es, s')) \<and>
     (\<forall>before x proto port lt after es s'.
        run_ops (found_add N P) (found_del N P) (before @ OpAdd x proto port lt # after) s = Some (es, s') \<longrightarrow>
        0 < lt \<longrightarrow> es ! length before = None \<longrightarrow>
        (\<forall>oe \<in> set (zip after (drop (Suc (length before)) es)). \<not> may_end same proto port oe) \<longrightarrow>
        tracked proto port (embedded s'))"

lemma serves_tracked:
  assumes "serves N P tracked same s"
    and "run_ops (found_add N P) (found_del N P) (before @ OpAdd x proto port lt # after) s = Some (es, s')"
    and "0 < lt" and "es ! length before = None"
    and "\<forall>oe \<in> set (zip after (drop (Suc (length before)) es)). \<not> may_end same proto port oe"
  shows "tracked proto port (embedded s')"
  using assms unfolding serves_def by blast

lemma serves_mono:
  "serves N P tracked same s \<Longrightarrow> (\<And>p q s. tracked p q s \<Longrightarrow> tracked' p q s) \<Longrightarrow> serves N P tracked' same s"
  unfolding serves_def by blast

locale gateway_service =
  dual_stack N P tracked4 same4 tracked6 same6 + dual_answering N P ok4 ok6
  for N :: "'s NAT_iface" and P :: "'p pcpIPv6Client" and tracked4 same4 tracked6 same6 ok4 ok6
begin

lemma serves_placed:
  assumes "ok4 (f (embedded s))" and "pinhole_side (\<lambda>c. ok6 (h c)) s"
  shows "serves N P tracked4 same4 (placed f h s)"
proof -
  have "ok4 (embedded (placed f h s)) \<and> pinhole_side ok6 (placed f h s)" using assms by (cases s) simp_all
  then show ?thesis
    unfolding serves_def using found.run_returns found.added_in_run by blast
qed

end

interpretation pcp_found: gateway_service "pcp_iface env" "pcp6_iface net t"
  "\<lambda>p q s. nat_tracked p q (fst s)" client_same "\<lambda>p q s. client_tracked p q (fst s)" client_same
  "\<lambda>s. nat_ok (fst s)" "\<lambda>p. locks_free (fst p)"
  by unfold_locales

interpretation upnp_found: gateway_service "upnp_iface out" "pcp6_iface net t"
  "\<lambda>p q s. upnp_tracked p q (fst s)" upnp_same "\<lambda>p q s. client_tracked p q (fst s)" client_same
  "\<lambda>_. True" "\<lambda>p. locks_free (fst p)"
  by unfold_locales

interpretation natpmp_found: gateway_service "natpmp_iface out" "pcp6_iface net t"
  "\<lambda>p q s. natpmp_tracked p q (fst s)" natpmp_same "\<lambda>p q s. client_tracked p q (fst s)" client_same
  "\<lambda>_. True" "\<lambda>p. locks_free (fst p)"
  by unfold_locales

section \<open>What is remembered, and what a delete makes of it\<close>

text \<open>
  PCP: a delete that its arguments do not stop, and that knows its own address and gets randomness, sends
  the server a request for the mapping with the nonce it was made under and lifetime 0.
\<close>

definition removal_asked ::
  "call_io \<Rightarrow> string \<Rightarrow> int \<Rightarrow> client \<Rightarrow> go_err option \<Rightarrow> net_event list \<Rightarrow> bool" where
  "removal_asked io protocol port c e evs \<longleftrightarrow>
     (case map_prepare io protocol port 0 NoAddr 0 c of
        Inl err \<Rightarrow> e \<noteq> None \<and> evs = []
      | Inr mc \<Rightarrow> \<exists>packet q.
          evs = snd (sendRequest (ci_send io) packet c) \<and> decode_map_request packet = Some q \<and>
          protocolNumber protocol = Inr (mq_Protocol q) \<and> uint (mq_InternalPort q) = port \<and>
          c_nonces c \<lparr>mk_proto = mq_Protocol q, mk_port = mq_InternalPort q\<rparr> = Some (mq_Nonce q) \<and>
          mq_Lifetime q = 0)"

definition pcp_deletes :: "string \<Rightarrow> int \<Rightarrow> pcp_nat \<Rightarrow> bool" where
  "pcp_deletes protocol port n \<longleftrightarrow>
     (\<forall>net4 net6 ctx t t6 e evs evs6 n'.
        NAT_DeletePortMapping net4 net6 ctx t t6 protocol port n = Some (e, evs, evs6, n') \<longrightarrow>
        (case n_client n of
           Some c \<Rightarrow> removal_asked (net4 ctx) protocol port c e evs
         | None \<Rightarrow> \<exists>c. n_client6 n = Some c \<and> removal_asked (net6 ctx) protocol port c e evs6))"

text \<open>UPnP: a delete asks the device to remove the external port it remembers, and passes its answer on.\<close>

definition upnp_deletes :: "string \<Rightarrow> int \<Rightarrow> 'd upnp_NAT \<Rightarrow> bool" where
  "upnp_deletes protocol port u \<longleftrightarrow>
     (\<exists>proto external. mapProtocol protocol = Inr proto \<and> up_ports u (upnp_key proto port) = Some external \<and>
        (\<forall>ctx d e u' d'. upnp_DeletePortMapping ctx protocol port u d = (e, u', d') \<longrightarrow>
           (e, d') = uc_DeletePortMapping (up_c u) ctx [] external proto d))"

text \<open>
  NAT-PMP: a delete asks the gateway nothing. The port that is remembered is the one the next add for the
  internal port asks for first, so that a mapping which is made again before it expires keeps its place.
\<close>

definition natpmp_renews :: "'d natpmp_outside \<Rightarrow> int \<Rightarrow> natpmpNAT \<Rightarrow> bool" where
  "natpmp_renews out port n \<longleftrightarrow>
     (\<exists>external. np_ports n port = Some external \<and>
        (\<forall>protocol description timeout d. \<exists>reqs.
           fst (snd (natpmp_AddPortMapping (no_io out d) protocol port description timeout n d)) =
             (protocol, port, external, timeout sdiv second) # reqs))"

lemma client_delete_asks:
  assumes "DeletePortMapping io t protocol port c = Some (e, evs, c')" and "client_tracked protocol port c"
  shows "removal_asked io protocol port c e evs"
proof (cases rule: addPortMapping_cases [of io protocol port 0 NoAddr 0 c t])
  case (ran mc cl n cb answer evs' r c'')
  have evs: "evs = snd (sendRequest (ci_send io) (map_request mc n) c)"
    using assms(1) ran(5,8) by (auto simp: DeletePortMapping_def split: sum.splits)
  note mc = map_prepare_Inr [OF ran(1)]
  from decode_map_request_call [of mc n] obtain q where q: "decode_map_request (map_request mc n) = Some q"
    "mq_Nonce q = n" "mq_Lifetime q = mc_lifetimeSec mc" "mq_Protocol q = mc_proto mc"
    "mq_InternalPort q = word_of_int (mc_internalPort mc)" by blast
  have port: "uint (mq_InternalPort q) = port"
    using mc(1,2) by (simp add: q(5) mc(7) uint_word_of_int_eq take_bit_int_eq_self)
  have "c_nonces c (map_key mc) \<noteq> None"
    using assms(2) by (simp add: client_tracked_def map_key_def mc(6,7))
  then have "c_nonces c (map_key mc) = Some n"
    using map_beginD(1) [OF ran(4)] by (auto simp: ran(3))
  then have "c_nonces c \<lparr>mk_proto = mq_Protocol q, mk_port = mq_InternalPort q\<rparr> = Some (mq_Nonce q)"
    by (simp add: q map_key_def)
  moreover have "mq_Lifetime q = 0" by (simp add: q(3) mc(11) lifetime_seconds_eq_0)
  ultimately show ?thesis
    unfolding removal_asked_def using evs q(1,4) port mc(6) by (auto simp: ran(1))
qed (use assms(1) in \<open>auto simp: removal_asked_def DeletePortMapping_def\<close>)

lemma removal_asked_err:
  "removal_asked io protocol port c e evs \<Longrightarrow> e = None \<longleftrightarrow> e' = None \<Longrightarrow> removal_asked io protocol port c e' evs"
  by (simp add: removal_asked_def split: sum.splits)

lemma pcp_remembers:
  assumes "nat_tracked protocol port n"
  shows "pcp_deletes protocol port n"
proof -
  have "case n_client n of
      Some c \<Rightarrow> removal_asked (net4 ctx) protocol port c e evs
    | None \<Rightarrow> \<exists>c. n_client6 n = Some c \<and> removal_asked (net6 ctx) protocol port c e evs6"
    if d: "NAT_DeletePortMapping net4 net6 ctx t t6 protocol port n = Some (e, evs, evs6, n')"
    for net4 net6 ctx t t6 e evs evs6 n'
  proof (cases "n_client n")
    case (Some c)
    with assms have c: "client_tracked protocol port c" by (simp add: nat_tracked_def primary_def)
    show ?thesis
      by (rule NAT_Delete_cases [OF d Some]) (auto simp: Some intro: removal_asked_err client_delete_asks [OF _ c])
  next
    case None
    with assms obtain c where c: "n_client6 n = Some c" "client_tracked protocol port c"
      by (auto simp: nat_tracked_def primary_def split: option.splits)
    from NAT_Delete_v6 [OF d None] obtain r6 where
      6: "ptr_DeletePortMapping (net6 ctx) t protocol port (n_client6 n) = Some (r6, evs6, n_client6 n')"
        "e = None \<longleftrightarrow> r6 = None" by blast
    then obtain c' where "DeletePortMapping (net6 ctx) t protocol port c = Some (r6, evs6, c')"
      by (auto simp: c(1) ptr_DeletePortMapping_def bind_eq_Some_conv)
    from removal_asked_err [OF client_delete_asks [OF this c(2)]] 6(2) c(1) None show ?thesis by simp
  qed
  then show ?thesis unfolding pcp_deletes_def by blast
qed

lemma upnp_remembers:
  assumes "upnp_tracked protocol port u"
  shows "upnp_deletes protocol port u"
proof -
  from assms obtain proto external where
    t: "mapProtocol protocol = Inr proto" "up_ports u (upnp_key proto port) = Some external"
    by (auto simp: upnp_tracked_def split: sum.splits)
  have "(e, d') = uc_DeletePortMapping (up_c u) ctx [] external proto d"
    if "upnp_DeletePortMapping ctx protocol port u d = (e, u', d')" for ctx d e u' d'
    by (rule upnp_Delete_cases [OF that]) (use t in auto)
  with t show ?thesis unfolding upnp_deletes_def by blast
qed

lemma natpmp_remembers:
  assumes "natpmp_tracked protocol port n"
  shows "natpmp_renews out port n"
proof -
  from assms obtain external where e: "np_ports n port = Some external" "0 < external"
    by (auto simp: natpmp_tracked_def split: option.splits)
  have "\<exists>reqs. fst (snd (natpmp_AddPortMapping (no_io out d) proto port descr timeout n d)) =
      (proto, port, external, timeout sdiv second) # reqs"
    for proto descr timeout d
  proof -
    obtain p err reqs n' d' where
      a: "natpmp_AddPortMapping (no_io out d) proto port descr timeout n d = ((p, err), reqs, n', d')"
      by (metis surj_pair)
    from natpmp_Add_result(5) [OF a e(2,1)] natpmp_Add_result(6) [OF a] show ?thesis
      by (cases reqs) (simp_all add: a)
  qed
  with e(1) show ?thesis unfolding natpmp_renews_def by blast
qed

section \<open>What the discovery finds\<close>

lemma published_mem: "x \<in> set (published r) \<longleftrightarrow> r = Inr x"
  by (auto simp: published_def split: sum.split)

lemma discovered_pcp4:
  assumes "g \<in> set (pcp4_nats nw ctx)"
  shows "\<exists>n. g = PcpGateway n \<and> nat_ok n \<and> (\<forall>p q. \<not> nat_tracked p q n)"
proof -
  from assms obtain n evs where "g = PcpGateway n"
    "discoverPCPIPv4 (default_discoverer (nw_goos nw) (nw_router nw) (nw_ctx_err nw)) (nw_net4 nw)
       (WithTimeout ctx pcpProbeTimeout) = (Inr n, evs)"
    by (auto simp: pcp4_nats_def discoverPCPv4_def published_mem DiscoverPCPIPv4_def prod_eq_iff)
  then show ?thesis
    by (auto simp: nat_ok_def zero_nat_def nat_tracked_def client_tracked_def primary_def
        split: sum.splits elim!: discoverPCPIPv4_Inr)
qed

lemma discovered_pcp6:
  assumes "c \<in> set (pcp6_clients nw ctx)"
  shows "locks_free c"
proof -
  from assms obtain evs where
    "discoverPCPIPv6 (default_discoverer (nw_goos nw) (nw_router nw) (nw_ctx_err nw)) (nw_net6 nw)
       (WithTimeout ctx pcpProbeTimeout) = (Inr c, evs)"
    by (auto simp: pcp6_clients_def discoverPCPv6_def published_mem DiscoverPCPIPv6_def prod_eq_iff)
  then show ?thesis by (rule discoverPCPIPv6_Inr)
qed

lemma fallback_kinds:
  assumes "g \<in> set (concat (present (fallback_sources nw ctx)))"
  shows "(\<exists>u. g = UpnpGateway u \<and> new_gateway u) \<or> (\<exists>ip. g = NatpmpGateway (new_natpmpNAT ip))"
  using assms
  by (auto simp: fallback_sources_def present_def map_filter_simps discoverNATPMP_def
      split: option.splits sum.splits dest: discovered_new)

lemma first_in_set: "first xs = Some x \<Longrightarrow> x \<in> set xs"
  by (cases xs) simp_all

lemma found_source:
  assumes "DiscoverGateway nw ctx e expired (Inr found)"
  shows "embedded found \<in> set (pcp4_nats nw ctx) \<union> set (concat (present (fallback_sources nw ctx)))"
    and "pinhole_side (\<lambda>c. c \<in> set (pcp6_clients nw ctx)) found"
proof -
  from assms obtain s m where r: "Inr found = select_result e s" "finished s"
    and run: "gateway_run (pcp4_nats nw ctx) (pcp6_clients nw ctx) (fallback_sources nw ctx) s m"
    by cases auto
  from gateway_run_simulates [OF run] have sel: "select_run s" "coupled s m"
    and pubs: "source_pubs m = present (fallback_sources nw ctx)" by blast+
  from finished_found [OF sel(1) r(2)] have k: "gs_pcp4 (sl_found s) = first (sl_pub4 s)"
    "gs_pcp6 (sl_found s) = first (sl_pub6 s)" by simp_all
  have sub: "set (sl_pub4 s) \<subseteq> set (pcp4_nats nw ctx)" "set (sl_pub6 s) \<subseteq> set (pcp6_clients nw ctx)"
    "set (sl_pubF s) \<subseteq> set (concat (present (fallback_sources nw ctx)))"
    using gateway_run_probes [OF run] sel(2) pubs by (auto simp: probes_ok_def coupled_def dest: set_mono_prefix)
  have "\<exists>g. found = with_pinholes (first (sl_pub6 s)) g \<and> (g \<in> set (sl_pub4 s) \<or> g \<in> set (sl_pubF s))"
    using select_outcome [OF sel(1) r(2), of e] r(1)
    by (auto split: option.splits if_splits dest: first_in_set dest!: sym [of "Inr found"])
  then obtain g where g: "found = with_pinholes (first (sl_pub6 s)) g" "g \<in> set (sl_pub4 s) \<or> g \<in> set (sl_pubF s)" by blast
  show "embedded found \<in> set (pcp4_nats nw ctx) \<union> set (concat (present (fallback_sources nw ctx)))"
    using g sub by (auto simp: with_pinholes_def newNATWithPCPIPv6_def split: option.splits)
  show "pinhole_side (\<lambda>c. c \<in> set (pcp6_clients nw ctx)) found"
    using g(1) sub(2) by (auto simp: with_pinholes_def newNATWithPCPIPv6_def dest: first_in_set split: option.splits)
qed

section \<open>Properties\<close>

text \<open>
  C17. What \<open>DiscoverGateway\<close> returns can be used, also when the deadline has passed meanwhile: whichever
  protocol was found, with or without pinholes, the object remembers no mapping at first, and every sequence
  of adds and deletes on it returns, on whatever networks. A mapping whose add succeeded is remembered
  through every later call, failing or not, until a call that may end the mapping: a successful delete
  under a name that the protocol takes for the same, or an add with no lifetime. What is remembered is what
  the protocol's delete needs: on a PCP gateway a delete sends a request with the nonce of the mapping and
  lifetime 0; on a UPnP gateway it asks the device to remove the external port in the cache. Nothing is said
  of the tables of the gateway: an earlier port of the same mapping, replaced after a refused renewal, is
  asked for no more. A NAT-PMP delete sends nothing, and what is remembered is the external port that the
  next add asks for first.
\<close>

theorem discovered_gateway_serves:
  assumes "DiscoverGateway nw ctx e expired (Inr found)"
  shows "case embedded found of
      PcpGateway n \<Rightarrow> serves (pcp_iface env) (pcp6_iface net t) (\<lambda>p q s. pcp_deletes p q (fst s)) client_same
        (placed (\<lambda>_. (n, 0)) (\<lambda>c. (c, 0)) found) \<and> (\<forall>p q. \<not> nat_tracked p q n)
    | UpnpGateway u \<Rightarrow> serves (upnp_iface out) (pcp6_iface net t) (\<lambda>p q s. upnp_deletes p q (fst s)) upnp_same
        (placed (\<lambda>_. (u, d)) (\<lambda>c. (c, 0)) found) \<and> up_ports u = Map.empty
    | NatpmpGateway n \<Rightarrow> serves (natpmp_iface io) (pcp6_iface net t) (\<lambda>p q s. natpmp_renews io q (fst s)) natpmp_same
        (placed (\<lambda>_. (n, d')) (\<lambda>c. (c, 0)) found) \<and> np_ports n = Map.empty \<and>
        (\<forall>protocol port m. natpmp_DeletePortMapping protocol port m =
           (None, m\<lparr>np_ports := (np_ports m)(port := None)\<rparr>))"
proof -
  have free: "pinhole_side (\<lambda>c. locks_free (fst (c, 0))) found"
    using found_source(2) [OF assms] discovered_pcp6 by (cases found) auto
  show ?thesis
  proof (cases "embedded found")
    case (PcpGateway n)
    with found_source(1) [OF assms] discovered_pcp4 fallback_kinds have n: "nat_ok n" "\<forall>p q. \<not> nat_tracked p q n"
      by fastforce+
    then have "serves (pcp_iface env) (pcp6_iface net t) (\<lambda>p q s. nat_tracked p q (fst s)) client_same
        (placed (\<lambda>_. (n, 0)) (\<lambda>c. (c, 0)) found)"
      using free by (simp add: pcp_found.serves_placed)
    from serves_mono [OF this pcp_remembers] PcpGateway n(2) show ?thesis by simp
  next
    case (UpnpGateway u)
    with found_source(1) [OF assms] discovered_pcp4 fallback_kinds have "new_gateway u" by fastforce
    then have u: "up_ports u = Map.empty" by (auto simp: new_gateway_def newUPNPNAT_def)
    have "serves (upnp_iface out) (pcp6_iface net t) (\<lambda>p q s. upnp_tracked p q (fst s)) upnp_same
        (placed (\<lambda>_. (u, d)) (\<lambda>c. (c, 0)) found)"
      using free by (simp add: upnp_found.serves_placed)
    from serves_mono [OF this upnp_remembers] UpnpGateway u show ?thesis by simp
  next
    case (NatpmpGateway n)
    with found_source(1) [OF assms] discovered_pcp4 fallback_kinds have "\<exists>ip. n = new_natpmpNAT ip" by fastforce
    then have n: "np_ports n = Map.empty" by (auto simp: new_natpmpNAT_def)
    have "serves (natpmp_iface io) (pcp6_iface net t) (\<lambda>p q s. natpmp_tracked p q (fst s)) natpmp_same
        (placed (\<lambda>_. (n, d')) (\<lambda>c. (c, 0)) found)"
      using free by (simp add: natpmp_found.serves_placed)
    from serves_mono [OF this natpmp_remembers] NatpmpGateway n show ?thesis
      by (simp add: natpmp_DeletePortMapping_def)
  qed
qed

theorem discovered_gateway_serves_witness:
  "\<exists>found. DiscoverGateway home_network Caller Canceled False (Inr found) \<and>
     embedded found = NatpmpGateway (new_natpmpNAT home_ip) \<and>
     (\<exists>es s. run_ops (found_add (natpmp_iface \<lparr>no_io = \<lambda>_. busy_natpmp, no_GetExternalAddress = Pair (Inl nat_ErrNoNATFound),
           no_interfaces = \<lambda>_. Inr []\<rparr>) (pcp6_iface (\<lambda>_. silent_env) 0))
         (found_del (natpmp_iface \<lparr>no_io = \<lambda>_. busy_natpmp, no_GetExternalAddress = Pair (Inl nat_ErrNoNATFound),
           no_interfaces = \<lambda>_. Inr []\<rparr>) (pcp6_iface (\<lambda>_. silent_env) 0))
         [OpAdd (Caller, []) ''udp'' 51820 (3600 * second), OpDelete (Caller, []) ''udp'' 51821]
         (placed (\<lambda>_. (new_natpmpNAT home_ip, 0)) (\<lambda>c. (c, 0)) found) = Some (es, s) \<and>
       es = [None, None] \<and>
       natpmp_renews \<lparr>no_io = \<lambda>_. busy_natpmp, no_GetExternalAddress = Pair (Inl nat_ErrNoNATFound),
         no_interfaces = \<lambda>_. Inr []\<rparr> 51820 (fst (embedded s)))"
proof -
  let ?p4 = "pcp4_nats home_network Caller" and ?p6 = "pcp6_clients home_network Caller"
  let ?src = "fallback_sources home_network Caller" and ?n = "new_natpmpNAT home_ip"
  let ?io = "\<lparr>no_io = \<lambda>_. busy_natpmp, no_GetExternalAddress = Pair (Inl nat_ErrNoNATFound), no_interfaces = \<lambda>_. Inr []\<rparr>"
  obtain g where src: "present ?src = [[], [], [UpnpGateway g], [], [NatpmpGateway ?n]]" using home_sources(1) by blast
  obtain s where s: "gateway_run ?p4 ?p6 ?src s (mergeNATs False (sources_of ?src))" "sl_pcp4s s = None"
    "sl_pcp6s s = None" "sl_fallbacks s = Some (Chan [] False)" "\<not> sl_expired s"
    "sl_found s = \<lparr>gs_pcp4 = first ?p4, gs_pcp6 = first ?p6, gs_fallback = None\<rparr>"
    by (rule run_probes)
  obtain s' m' where r: "gateway_run ?p4 ?p6 ?src s' m'" "sl_pcp4s s' = sl_pcp4s s" "sl_pcp6s s' = sl_pcp6s s"
    "gs_fallback (sl_found s') = Some (NatpmpGateway ?n)" "sl_expired s' = sl_expired s"
    by (rule run_first [OF s(1,4), of 4 "NatpmpGateway ?n" "[]"]) (use s(6) src home_sources(3) in \<open>simp_all\<close>)
  have live: "\<not> sl_expired s'" using r(5) s(5) by simp
  have "\<not> sl_draining s'"
    using gateway_run_simulates [OF r(1)] select_inv_run [of s'] live by (auto simp: select_inv_def)
  with r s(2,3) have fin: "finished s'" by (auto simp: finished_def settled_def)
  have "gs_pcp4 (sl_found s') = None" "gs_pcp6 (sl_found s') = None"
    using finished_found(1,2) [of s'] gateway_run_simulates [OF r(1)] fin gateway_run_probes [OF r(1)] home_sources(3,4)
    by (auto simp: probes_ok_def)
  with r(4) have "select_result Canceled s' = Inr (Plain (NatpmpGateway ?n))"
    by (simp add: select_result_found with_pinholes_def)
  with DiscoverGateway.intros [OF r(1) fin, of Canceled] live
  have found: "DiscoverGateway home_network Caller Canceled False (Inr (Plain (NatpmpGateway ?n)))" by simp
  from discovered_gateway_serves [OF found, where io = ?io and d' = 0 and net = "\<lambda>_. silent_env" and t = 0]
  have serves: "serves (natpmp_iface ?io) (pcp6_iface (\<lambda>_. silent_env) 0) (\<lambda>p q s. natpmp_renews ?io q (fst s)) natpmp_same
      (Plain (?n, 0))" by simp
  have run: "\<exists>s. run_ops (found_add (natpmp_iface ?io) (pcp6_iface (\<lambda>_. silent_env) 0))
      (found_del (natpmp_iface ?io) (pcp6_iface (\<lambda>_. silent_env) 0))
      [OpAdd (Caller, []) ''udp'' 51820 (3600 * second), OpDelete (Caller, []) ''udp'' 51821] (Plain (?n, 0)) =
      Some ([None, None], s)"
    by (simp add: iface_add_def iface_del_def natpmp_iface_def busy_natpmp_add home_ip_def natpmp_DeletePortMapping_def)
  then obtain s1 where run: "run_ops (found_add (natpmp_iface ?io) (pcp6_iface (\<lambda>_. silent_env) 0))
      (found_del (natpmp_iface ?io) (pcp6_iface (\<lambda>_. silent_env) 0))
      ([] @ OpAdd (Caller, []) ''udp'' 51820 (3600 * second) # [OpDelete (Caller, []) ''udp'' 51821]) (Plain (?n, 0)) =
      Some ([None, None], s1)" by auto
  from serves_tracked [OF serves run] have "natpmp_renews ?io 51820 (fst (embedded s1))"
    by (simp add: second_def natpmp_same_def)
  with found run show ?thesis by (intro exI [of _ "Plain (NatpmpGateway ?n)"]) auto
qed

end
