(* ===== verification/Spec2Isabelle.thy ===== *)
theory Spec2Isabelle
  imports Pcp_Client_Conc Upnp_Conc Dual_Conc Gateway_Service
begin

text \<open>
  Verification development for \<open>go-nat\<close>, a library that finds the NAT gateway of a network and maps
  ports on it, by PCP (RFC 6887), UPnP IGD or NAT-PMP.

  \<^bold>\<open>The program.\<close> \<open>nat.go\<close> holds the entry points: \<open>DiscoverNATs\<close> merges the channels of all sources,
  \<open>DiscoverGateway\<close> selects one gateway, with PCP for IPv4 before UPnP and NAT-PMP, and adds IPv6 pinholes
  by PCP when it can. The sources are in \<open>upnp.go\<close> (five searches), \<open>natpmp.go\<close> and \<open>pcp.go\<close>; each
  produces an object with the interface \<open>NAT\<close>. \<open>pcp_ipv6.go\<close> wraps such an object to open pinholes beside
  its mappings. The package \<open>pcp\<close> is a PCP implementation from the packets up: \<open>protocol.go\<close> (formats),
  \<open>client.go\<close> (requests, retransmission, nonces, epochs), \<open>gateway_discoverer.go\<close> (routing table) and
  \<open>nat.go\<close> (a dual-stack NAT over two clients).

  \<^bold>\<open>Theories and code.\<close>
  \<^item> \<open>Prelude\<close>: bytes, slices, big-endian integers, decimal printing; the collections \<open>wire\<close> and \<open>path\<close>;
    \<open>runs_to_end\<close>, which turns a decreasing measure and progress into reaching a goal.
  \<^item> \<open>Go_Netip\<close>, \<open>Go_Errors\<close>, \<open>Go_Float\<close>, \<open>Go_Context\<close>, \<open>Go_Net\<close>, \<open>Go_URL\<close>, \<open>Go_Chan\<close>: what the source uses
    of the standard library of Go 1.24: addresses of \<open>net\<close> and \<open>net/netip\<close> and their texts, errors as
    values, float64 rounding, contexts, \<open>net/url\<close> parsing, channels seen from a receiver. \<open>Go_Addr_Text\<close>:
    an address that is printed and parsed again is the address. \<open>Go_Addr_Grammar\<close>: the texts of an address as
    a grammar of their own, which \<open>ParseAddr\<close> accepts exactly.
  \<^item> \<open>Pcp_Protocol\<close> (\<open>pcp/protocol.go\<close>): constants, builders and parsers, byte for byte.
  \<^item> \<open>Pcp_State\<close>, \<open>Pcp_Transport\<close>, \<open>Pcp_Client\<close> (\<open>pcp/client.go\<close>): the record \<open>client\<close> with its maps of nonces
    and locks, the epoch test, one exchange and the retry loop, and every exported request, cut at the
    points where the code takes or releases a lock. \<open>Pcp_Client_Conc\<close>: goroutines that interleave these
    sections on one client, against a server with the mapping table of the RFC.
  \<^item> \<open>Gateway_Discoverer\<close> (\<open>pcp/gateway_discoverer.go\<close>, \<open>gateway.go\<close>), \<open>Pcp_NAT\<close> (\<open>pcp/nat.go\<close>).
  \<^item> \<open>Mapping_Service\<close>: the contract that adding and deleting mappings share, as a locale; it is
    interpreted on the PCP client and the PCP NAT (\<open>Pcp_Service\<close>), the NAT-PMP and UPnP gateways, the interface
    records (\<open>Nat_Interface\<close>) and the wrapper (\<open>Dual_Stack\<close>, which extends it and shows by a sublocale that
    the wrapper keeps the contract of the NAT it embeds). A second locale, \<open>answering\<close>, says that the
    calls of a provider return.
  \<^item> \<open>Random_Port\<close>: \<open>randomPort\<close> and the loop of three draws that both gateways run.
  \<^item> \<open>Natpmp_NAT\<close> (\<open>natpmp.go\<close>), \<open>Upnp_NAT\<close> (the gateway object of \<open>upnp.go\<close>), \<open>Upnp_Conc\<close> (goroutines that
    share one), \<open>Upnp_Discovery\<close> (its searches).
  \<^item> \<open>Nat_Interface\<close>: the interfaces \<open>NAT\<close> with \<open>HealthChecker\<close>, and \<open>pcpIPv6Client\<close>, as records of
    operations, one instance for each implementation. \<open>Dual_Stack\<close> (\<open>pcp_ipv6.go\<close>); \<open>Dual_Conc\<close>: its methods with
    the goroutines they start, for callers that may overlap.
  \<^item> \<open>Gateway_Select\<close> (\<open>pcp.go\<close> and \<open>selectGateway\<close>), \<open>Merge_NATs\<close> (\<open>mergeNATs\<close>), \<open>Discover_NATs\<close>
    (\<open>DiscoverNATs\<close>, whose two merges run side by side and whose context may end at any time),
    \<open>Discover_Gateway\<close> (\<open>DiscoverGateway\<close>). \<open>Gateway_Service\<close>: the life of an object from its discovery on.

  \<^bold>\<open>What the lemmas show.\<close> The packet formats round-trip and the parser accepts exactly the
  encodings of the RFC. The nonce table never loses a nonce the server still needs, under any interleaving, loss
  and retransmission, so that every mapping can be deleted. A request sends at most four packets, only to the
  gateway, and only its datagrams are answers. The epoch test decides the drift condition of the RFC and raises
  no false alarm. Every operation returns, and so do the calls that share a client, after a counted number of
  steps. Pinholes never change an IPv4 outcome, are rolled back or reported, both dual-stack implementations
  agree, and the outcome of a call does not depend on which stack answers first, unless calls overlap (the
  theorem \<open>overlapping_calls_lose_pinhole\<close>). The UPnP search follows only URLs whose host
  is a text of the gateway address and takes the preferred usable service. Its cache names each mapping of the
  device except those whose own request was answered with an error, however many goroutines share the
  object; such mappings exist (\<open>upnp_refused_renewal_orphans\<close>, \<open>upnp_lost_answer_orphans\<close>). Whatever gateway is
  discovered serves: its calls return, and it remembers what later calls need of a mapping that was added,
  which for NAT-PMP is not deleted by a request. Merging loses nothing unless cancelled and leaks no goroutine,
  also when the output of one merge is a source of another; the
  selection returns, hears both PCP probes out and keeps the documented order of preference, for the machine
  alone (\<open>Gateway_Select\<close>) and coupled to the merge of its fallbacks
  (\<open>Discover_Gateway\<close>).

  \<^bold>\<open>How effects are modelled.\<close> Values that come from outside (datagrams, clocks, random bytes, the answers
  of libraries) are arguments, a function of the call or of a state \<open>'d\<close> of the outside that each call
  returns updated. An error is \<open>Inl\<close> of \<open>go_err\<close>, a nil dereference or a blocked lock is \<open>None\<close>. A
  goroutine that is joined before its result is read is run in sequence, which \<open>Dual_Conc\<close> justifies for
  the wrapper; the two clients of \<open>pcp/nat.go\<close> share nothing. The goroutines of the PCP client, of \<open>mergeNATs\<close>
  and of \<open>selectGateway\<close> are step relations. A method that holds its mutex while it talks to the device
  (\<open>upnp_NAT\<close>) is one function, and \<open>Upnp_Conc\<close> shows that interleaved calls amount to it. Integers keep their width where the code converts them.
  The senders that wait on an unbuffered channel form a queue, as in the Go runtime.

  \<^bold>\<open>Bounds.\<close> There is no fuel: the retry loop recurses on the number of attempts left (\<open>maxRetries\<close>, four),
  the loops of draws on three, the searches on their lists, and the step relations have measures.

  \<^bold>\<open>Parameters.\<close> The libraries \<open>go-netroute\<close> (routing table), \<open>goupnp\<close> (device descriptions and SOAP calls),
  \<open>httpu\<close> and \<open>go-ssdp\<close> (searches), \<open>go-nat-pmp\<close> (the NAT-PMP exchange), the dialer and resolver of \<open>net\<close> and the
  interface list of the host are not part of the repository: they are arguments with no assumption,
  except where a property names the contract it needs. \<open>igd_contract\<close>: a request makes no other mapping than
  the one it asks for, and a delete that is confirmed removes its mapping; an error says nothing, since the
  answer of a request that was carried out can be lost. In \<open>Pcp_Client_Conc\<close>: a PCP server with the mapping
  table of the RFC, and a network that delivers a copy of a request while its call waits for the answer, or
  never. A copy that arrives after its call has ended is not considered.

  \<^bold>\<open>Not modelled.\<close> \<open>_examples/nat-tester.go\<close>, a demonstration that prints; the mutexes around single reads
  and writes of a field, which are atomic here; closing of sockets and of HTTP bodies; the time that
  passes in a UPnP or NAT-PMP exchange; the select in which the unicast and the generic UPnP search drop the
  gateway they found when the context is done, which for the merge is a forwarder that does not take it. The pinhole error field of the PCP NAT is read and written
  by whole calls only.
\<close>

end
